(* ===== verification/Prelude.thy ===== *)
theory Prelude
  imports Main "HOL-Library.Word"
begin

text \<open>
  The prelude of the PingDD development: the names of the C types the program uses, the
  collections of hints the component theories share, and the generic facts on lists and options
  that several components need.

  Integers are kept at the width of the LP64 data model the program's Linux build has:
  \<open>unsigned long\<close> and \<open>size_t\<close> have 64 bits, \<open>int\<close> and \<open>uint32_t\<close> 32, \<open>uint16_t\<close> 16.
  A C string is the list of its bytes before the terminating NUL, so a buffer of size \<open>n\<close> holds
  at most \<open>n - 1\<close> characters.
\<close>

section \<open>Names of the C types\<close>

type_synonym u8 = "8 word"
type_synonym u16 = "16 word"
type_synonym u32 = "32 word"
type_synonym ulong = "64 word"
type_synonym cstring = "char list"

text \<open>\<open>cstr bs\<close> is the C string a byte array starts with: its bytes up to the first NUL.\<close>

definition cstr :: "char list \<Rightarrow> cstring" where
  "cstr bs = takeWhile (\<lambda>c. c \<noteq> CHR 0x00) bs"

text \<open>
  \<open>strncpy(dst, src, size - 1)\<close> into a zeroed buffer, and \<open>snprintf(dst, size, "%s", src)\<close>, both
  leave the first \<open>size - 1\<close> characters of the source.
\<close>

definition bounded_copy :: "nat \<Rightarrow> cstring \<Rightarrow> cstring" where
  "bounded_copy n s = take (n - 1) s"

section \<open>Hint collections\<close>

named_theorems c_lib_simps \<open>evaluation of the modelled C library\<close>
named_theorems inv_intros \<open>introduction rules for component invariants\<close>

lemma bounded_copy_length [simp]: "length (bounded_copy n s) \<le> n - 1"
  by (simp add: bounded_copy_def)

lemma bounded_copy_fits [simp]: "length s < n \<Longrightarrow> bounded_copy n s = s"
  by (simp add: bounded_copy_def)

lemma set_bounded_copy: "c \<in> set (bounded_copy n s) \<Longrightarrow> c \<in> set s"
  by (auto simp: bounded_copy_def dest: in_set_takeD)

lemma cstr_id [simp]: "CHR 0x00 \<notin> set s \<Longrightarrow> cstr s = s"
  by (auto simp: cstr_def)

lemma cstr_no_nul [simp]: "CHR 0x00 \<notin> set (cstr s)"
  by (auto simp: cstr_def dest: set_takeWhileD)

section \<open>Generic facts\<close>

lemma dropWhile_length_le [simp]: "length (dropWhile P xs) \<le> length xs"
  by (induction xs) auto

lemma dropWhile_id: "xs = [] \<or> \<not> P (hd xs) \<Longrightarrow> dropWhile P xs = xs"
  by (cases xs) auto

lemma tl_dropWhile_less:
  "dropWhile P xs \<noteq> [] \<Longrightarrow> length (tl (dropWhile P xs)) < length xs"
  by (cases "dropWhile P xs") (use dropWhile_length_le [of P xs] in auto)

lemma unat_Suc64: "unat (x :: ulong) + 1 < 2 ^ 64 \<Longrightarrow> unat (x + 1) = unat x + 1"
  by (simp add: unat_word_ariths)

end
