(* ===== verification/Float64.thy ===== *)
theory Float64
  imports Prelude "HOL-Library.Log_Nat"
begin

text \<open>
  The C type \<open>double\<close>: IEEE 754 binary64 with rounding to nearest, ties to even. A finite double
  is the rational number it denotes, so two finite doubles are equal exactly when C's \<open>==\<close> says
  so (the two zeros are one value: nothing the program does tells them apart). Every operation
  computes the exact result and rounds it once; overflow gives an infinity, an invalid operation a
  NaN, and every ordered comparison with a NaN is false. All of it evaluates.

  \<open>round_q\<close> is the rounding itself, without a bound on the exponent. The locale \<open>rounding\<close>
  names the laws the components rely on (monotone, exact on its own results, odd), and is
  interpreted on \<open>round_q\<close>.
\<close>

section \<open>The laws of a rounding\<close>

locale rounding =
  fixes rnd :: "rat \<Rightarrow> rat"
  assumes rnd_mono: "x \<le> y \<Longrightarrow> rnd x \<le> rnd y"
    and rnd_zero: "rnd 0 = 0"
    and rnd_minus: "rnd (- x) = - rnd x"
    and rnd_of_nat: "n < 2 ^ 53 \<Longrightarrow> rnd (rat_of_nat n) = rat_of_nat n"
begin

lemma rnd_nonneg: "0 \<le> x \<Longrightarrow> 0 \<le> rnd x"
  using rnd_mono [of 0 x] rnd_zero by simp

lemma rnd_nonpos: "x \<le> 0 \<Longrightarrow> rnd x \<le> 0"
  using rnd_mono [of x 0] rnd_zero by simp

lemma rnd_le_nat: "x \<le> rat_of_nat n \<Longrightarrow> n < 2 ^ 53 \<Longrightarrow> rnd x \<le> rat_of_nat n"
  using rnd_mono [of x "rat_of_nat n"] rnd_of_nat by simp

lemma rnd_ge_nat: "rat_of_nat n \<le> x \<Longrightarrow> n < 2 ^ 53 \<Longrightarrow> rat_of_nat n \<le> rnd x"
  using rnd_mono [of "rat_of_nat n" x] rnd_of_nat by simp

lemma rnd_add_between:
  assumes "lo \<le> x" and "x \<le> hi" and "rnd lo = lo" and "rnd hi = hi"
  shows "lo \<le> rnd x \<and> rnd x \<le> hi"
  using rnd_mono [OF assms(1)] rnd_mono [OF assms(2)] assms(3,4) by simp

end

section \<open>Rounding to an integer, ties to even\<close>

definition round_half_even :: "rat \<Rightarrow> int" where
  "round_half_even x =
     (let f = \<lfloor>x\<rfloor>; d = x - of_int f
      in if d < 1 / 2 then f else if 1 / 2 < d then f + 1 else if even f then f else f + 1)"

lemma round_half_even_of_int [simp]: "round_half_even (of_int n) = n"
  by (simp add: round_half_even_def)

lemma round_half_even_bounds:
  "\<lfloor>x\<rfloor> \<le> round_half_even x" "round_half_even x \<le> \<lfloor>x\<rfloor> + 1"
  by (simp_all add: round_half_even_def Let_def)

lemma round_half_even_mono:
  assumes "x \<le> y"
  shows "round_half_even x \<le> round_half_even y"
proof (cases "\<lfloor>x\<rfloor> = \<lfloor>y\<rfloor>")
  case True
  then show ?thesis using assms by (auto simp: round_half_even_def Let_def)
next
  case False
  then have "\<lfloor>x\<rfloor> + 1 \<le> \<lfloor>y\<rfloor>" using floor_mono [OF assms] by simp
  then show ?thesis
    using round_half_even_bounds(2) [of x] round_half_even_bounds(1) [of y] by linarith
qed

lemma round_half_even_minus: "round_half_even (- x) = - round_half_even x"
proof (cases "x = of_int \<lfloor>x\<rfloor>")
  case True
  then show ?thesis by (metis of_int_minus round_half_even_of_int)
next
  case False
  then have "\<lfloor>- x\<rfloor> = - \<lfloor>x\<rfloor> - 1"
    by (intro floor_unique) (use of_int_floor_le [of x] floor_correct [of x] in linarith)+
  then show ?thesis by (auto simp: round_half_even_def Let_def)
qed

lemma round_half_even_error: "\<bar>of_int (round_half_even x) - x\<bar> \<le> 1 / 2"
  using floor_correct [of x] by (auto simp: round_half_even_def Let_def abs_le_iff)

section \<open>The binary exponent\<close>

text \<open>\<open>ilog2 q\<close> is the integer part of the base-2 logarithm of a positive rational.\<close>

definition ilog2 :: "rat \<Rightarrow> int" where
  "ilog2 q =
     (if 1 \<le> q then int (floorlog 2 (nat \<lfloor>q\<rfloor>)) - 1
      else - int (floorlog 2 (nat (\<lceil>1 / q\<rceil> - 1))))"

lemma two_powi_pos [simp]: "0 < (2 :: rat) powi e"
  by simp

lemma two_powi_mono: "d \<le> e \<Longrightarrow> (2 :: rat) powi d \<le> 2 powi e"
  by (rule power_int_increasing) auto

lemma two_powi_less_iff [simp]: "(2 :: rat) powi d < 2 powi e \<longleftrightarrow> d < e"
proof
  assume "(2 :: rat) powi d < 2 powi e"
  then show "d < e" using two_powi_mono [of e d] by (meson not_less)
next
  assume "d < e"
  then show "(2 :: rat) powi d < 2 powi e" by (intro power_int_strict_increasing) auto
qed

lemma two_powi_int: "(2 :: rat) powi (int n) = 2 ^ n"
  by simp

lemma floorlog_two_bounds:
  "0 < n \<Longrightarrow> 2 ^ (floorlog 2 n - 1) \<le> n \<and> n < 2 ^ floorlog 2 n"
  using floorlog_bounds [of n 2] by simp

lemma ilog2_ge_one:
  assumes "1 \<le> q"
  shows "2 powi (ilog2 q) \<le> q \<and> q < 2 powi (ilog2 q + 1)"
proof -
  define n where "n = nat \<lfloor>q\<rfloor>"
  have n1: "1 \<le> n" and nq: "rat_of_nat n \<le> q" and qn: "q < rat_of_nat n + 1"
    using assms floor_correct [of q] by (auto simp: n_def le_nat_iff le_floor_iff of_nat_nat)
  define k where "k = floorlog 2 n"
  have k: "2 ^ (k - 1) \<le> n" "n < 2 ^ k" and k1: "1 \<le> k"
    using floorlog_two_bounds [of n] n1 by (auto simp: k_def floorlog_def)
  have e: "ilog2 q = int (k - 1)" using assms k1 by (simp add: ilog2_def n_def k_def)
  have "rat_of_nat (2 ^ (k - 1)) \<le> rat_of_nat n" using k(1) by (simp only: of_nat_le_iff)
  then have "rat_of_nat (2 ^ (k - 1)) \<le> q" using nq by linarith
  then have "(2 :: rat) ^ (k - 1) \<le> q" by simp
  moreover have "rat_of_nat n + 1 \<le> rat_of_nat (2 ^ k)"
    using k(2) by (metis Suc_leI of_nat_Suc of_nat_le_iff add.commute)
  moreover have "ilog2 q + 1 = int k" using e k1 by simp
  ultimately show ?thesis using e qn by (simp only: two_powi_int) simp
qed

lemma ilog2_less_one:
  assumes "0 < q" and "q < 1"
  shows "2 powi (ilog2 q) \<le> q \<and> q < 2 powi (ilog2 q + 1)"
proof -
  define n where "n = nat (\<lceil>1 / q\<rceil> - 1)"
  have inv: "1 < 1 / q" using assms by simp
  have c: "2 \<le> \<lceil>1 / q\<rceil>" using inv by (simp add: le_ceiling_iff)
  have n1: "1 \<le> n" using c unfolding n_def by linarith
  have "int n = \<lceil>1 / q\<rceil> - 1" using c unfolding n_def by linarith
  then have nn: "rat_of_nat n = of_int \<lceil>1 / q\<rceil> - 1"
    by (metis of_int_1 of_int_diff of_int_of_nat_eq)
  have nq: "rat_of_nat n < 1 / q" and qn: "1 / q \<le> rat_of_nat n + 1"
    unfolding nn using ceiling_correct [of "1 / q"] by simp_all
  define k where "k = floorlog 2 n"
  have k: "2 ^ (k - 1) \<le> n" "n < 2 ^ k" and k1: "1 \<le> k"
    using floorlog_two_bounds [of n] n1 by (auto simp: k_def floorlog_def)
  have e: "ilog2 q = - int k" using assms by (simp add: ilog2_def n_def k_def)
  have "rat_of_nat (2 ^ (k - 1)) \<le> rat_of_nat n" using k(1) by (simp only: of_nat_le_iff)
  then have "rat_of_nat (2 ^ (k - 1)) < 1 / q" using nq by linarith
  then have lo: "(2 :: rat) ^ (k - 1) < 1 / q" by simp
  have "rat_of_nat n + 1 \<le> rat_of_nat (2 ^ k)"
    using k(2) by (metis Suc_leI of_nat_Suc of_nat_le_iff add.commute)
  then have hi: "1 / q \<le> (2 :: rat) ^ k" using qn by simp
  have "1 \<le> q * 2 ^ k" using hi assms by (simp add: field_simps)
  then have "2 powi (ilog2 q) \<le> q"
    using e assms by (simp add: power_int_minus field_simps)
  moreover have "q * 2 ^ (k - 1) < 1" using lo assms by (simp add: field_simps)
  then have "q < 2 powi (- int (k - 1))"
    using assms by (simp add: power_int_minus field_simps)
  moreover have "- int (k - 1) = ilog2 q + 1" using e k1 by simp
  ultimately show ?thesis by simp
qed

lemma ilog2_bounds: "0 < q \<Longrightarrow> 2 powi (ilog2 q) \<le> q \<and> q < 2 powi (ilog2 q + 1)"
  using ilog2_ge_one ilog2_less_one by (cases "1 \<le> q") auto

lemma ilog2_ge: "2 powi a \<le> x \<Longrightarrow> a \<le> ilog2 x"
proof -
  assume h: "2 powi a \<le> x"
  then have "0 < x" by (meson less_le_trans two_powi_pos)
  then have "(2 :: rat) powi a < 2 powi (ilog2 x + 1)" using ilog2_bounds [of x] h by linarith
  then show ?thesis by simp
qed

lemma ilog2_less: "0 < x \<Longrightarrow> x < 2 powi b \<Longrightarrow> ilog2 x < b"
proof -
  assume "0 < x" "x < 2 powi b"
  then have "(2 :: rat) powi (ilog2 x) < 2 powi b" using ilog2_bounds [of x] by linarith
  then show ?thesis by simp
qed

lemma ilog2_mono:
  assumes "0 < x" and "x \<le> y"
  shows "ilog2 x \<le> ilog2 y"
proof -
  have "(2 :: rat) powi (ilog2 x) < 2 powi (ilog2 y + 1)"
    using ilog2_bounds [of x] ilog2_bounds [of y] assms by linarith
  then show ?thesis by simp
qed

section \<open>Rounding to 53 bits\<close>

definition fexp :: "rat \<Rightarrow> int" where
  "fexp q = max (ilog2 \<bar>q\<bar> - 52) (- 1074)"

definition round_q :: "rat \<Rightarrow> rat" where
  "round_q q =
     (if q = 0 then 0
      else of_int (round_half_even (q / 2 powi (fexp q))) * 2 powi (fexp q))"

lemma round_q_minus: "round_q (- x) = - round_q x"
  by (simp add: round_q_def fexp_def round_half_even_minus)

lemma round_q_zero [simp]: "round_q 0 = 0"
  by (simp add: round_q_def)

lemma two_powi_ratio:
  "d \<le> e \<Longrightarrow> (2 :: rat) powi e / 2 powi d = of_int (2 ^ nat (e - d))"
  using power_int_diff [of "2 :: rat" e d] by (simp add: power_int_def)

lemma round_q_mono_pos:
  assumes "0 < x" and "x \<le> y"
  shows "round_q x \<le> round_q y"
proof (cases "fexp x = fexp y")
  case True
  have "x / 2 powi (fexp x) \<le> y / 2 powi (fexp x)" using assms by (simp add: divide_right_mono)
  then show ?thesis
    using assms True by (auto simp: round_q_def intro!: mult_right_mono round_half_even_mono)
next
  case False
  define u where "u = (2 :: rat) powi (fexp x)"
  define v where "v = (2 :: rat) powi (fexp y)"
  define b where "b = (2 :: rat) powi (ilog2 y)"
  have pos: "0 < u" "0 < v" by (simp_all add: u_def v_def)
  have e: "fexp x \<le> ilog2 y" "ilog2 x + 1 \<le> ilog2 y" "fexp y = ilog2 y - 52"
    using False ilog2_mono [OF assms] assms by (auto simp: fexp_def max_def split: if_splits)
  have bu: "b / u = of_int (2 ^ nat (ilog2 y - fexp x))"
    unfolding b_def u_def by (rule two_powi_ratio [OF e(1)])
  have bv: "b / v = of_int (2 ^ 52)"
    unfolding b_def v_def e(3) by (simp add: two_powi_ratio)
  have "x < 2 powi (ilog2 x + 1)" using ilog2_bounds assms(1) by blast
  also have "\<dots> \<le> b" unfolding b_def using e(2) by (rule two_powi_mono)
  finally have "x / u \<le> b / u" using pos by (simp add: divide_right_mono)
  then have "round_half_even (x / u) \<le> round_half_even (b / u)" by (rule round_half_even_mono)
  then have "of_int (round_half_even (x / u)) \<le> b / u"
    unfolding bu round_half_even_of_int by (simp only: of_int_le_iff)
  then have xb: "round_q x \<le> b" using assms pos by (simp add: round_q_def u_def [symmetric] field_simps)
  have "b \<le> y" unfolding b_def using ilog2_bounds [of y] assms by simp
  then have "b / v \<le> y / v" using pos by (simp add: divide_right_mono)
  then have "round_half_even (b / v) \<le> round_half_even (y / v)" by (rule round_half_even_mono)
  then have "b / v \<le> of_int (round_half_even (y / v))"
    unfolding bv round_half_even_of_int by (simp only: of_int_le_iff)
  then have "b \<le> round_q y"
    using assms pos by (simp add: round_q_def v_def [symmetric] field_simps)
  with xb show ?thesis by simp
qed

lemma round_q_nonneg: "0 \<le> x \<Longrightarrow> 0 \<le> round_q x"
proof -
  assume "0 \<le> x"
  then have "0 \<le> round_half_even (x / 2 powi (fexp x))"
    using round_half_even_mono [of 0 "x / 2 powi (fexp x)"] round_half_even_of_int [of 0] by simp
  then show ?thesis by (simp add: round_q_def)
qed

lemma round_q_mono: "x \<le> y \<Longrightarrow> round_q x \<le> round_q y"
proof -
  assume h: "x \<le> y"
  consider "0 < x" | "x \<le> 0" "0 \<le> y" | "y < 0" using h by linarith
  then show ?thesis
  proof cases
    case 1
    then show ?thesis using h by (rule round_q_mono_pos)
  next
    case 2
    then show ?thesis
      using round_q_nonneg [of "- x"] round_q_nonneg [of y] by (simp add: round_q_minus)
  next
    case 3
    then show ?thesis using h round_q_mono_pos [of "- y" "- x"] by (simp add: round_q_minus)
  qed
qed

text \<open>A number with at most 53 significant bits above \<open>2\<^sup>-\<^sup>1\<^sup>0\<^sup>7\<^sup>4\<close> is its own rounding.\<close>

lemma round_q_representable_pos:
  assumes "0 < m" and "m < 2 ^ 53" and "- 1074 \<le> e"
  shows "round_q (of_int m * 2 powi e) = of_int m * 2 powi e"
proof -
  define q where "q = rat_of_int m * 2 powi e"
  have q0: "0 < q" using assms by (simp add: q_def)
  have "rat_of_int m < of_int (2 ^ 53)" using assms(2) by (simp only: of_int_less_iff)
  then have "q < 2 powi 53 * 2 powi e"
    unfolding q_def by (intro mult_strict_right_mono) auto
  then have "q < 2 powi (53 + e)" by (simp add: power_int_add)
  then have "(2 :: rat) powi (ilog2 q) < 2 powi (53 + e)"
    using ilog2_bounds [OF q0] by linarith
  then have fe: "fexp q \<le> e" using q0 assms(3) by (simp add: fexp_def)
  have "q / 2 powi (fexp q) = of_int m * (2 powi e / 2 powi (fexp q))" by (simp add: q_def)
  also have "\<dots> = of_int (m * 2 ^ nat (e - fexp q))" by (simp add: two_powi_ratio [OF fe])
  finally have "of_int (round_half_even (q / 2 powi (fexp q))) = q / 2 powi (fexp q)"
    by (simp only: round_half_even_of_int)
  then show ?thesis using q0 unfolding q_def [symmetric] by (simp add: round_q_def)
qed

lemma round_q_of_nat: "n < 2 ^ 53 \<Longrightarrow> round_q (rat_of_nat n) = rat_of_nat n"
  using round_q_representable_pos [of "int n" 0] by (cases "n = 0") auto

text \<open>Near an integer, closer than half a unit in the last place, the rounding is that integer.\<close>

lemma round_q_near_int:
  assumes "0 < x" and "2 ^ 54 * \<bar>x - of_int k\<bar> < x" and "- 1021 \<le> ilog2 x" and "ilog2 x \<le> 52"
  shows "round_q x = of_int k"
proof -
  define u where "u = (2 :: rat) powi (fexp x)"
  have fe: "fexp x = ilog2 x - 52" using assms by (simp add: fexp_def)
  have u0: "0 < u" by (simp add: u_def)
  have "x < 2 powi (ilog2 x + 1)" using ilog2_bounds assms(1) by blast
  also have "ilog2 x + 1 = fexp x + 53" using fe by simp
  also have "(2 :: rat) powi (fexp x + 53) = u * 2 ^ 53" by (simp add: power_int_add u_def)
  finally have "2 ^ 54 * \<bar>x - of_int k\<bar> < u * 2 ^ 53" using assms(2) by linarith
  then have "2 * \<bar>x - of_int k\<bar> < u" by simp
  then have d: "\<bar>x / u - of_int k / u\<bar> < 1 / 2"
    using u0 by (simp add: diff_divide_distrib [symmetric] field_simps)
  have "u = 1 / 2 ^ nat (- fexp x)"
    unfolding u_def using fe assms(4) by (simp add: power_int_def power_one_over)
  then have ku: "of_int k / u = of_int (k * 2 ^ nat (- fexp x))" by simp
  have "round_half_even (x / u) = k * 2 ^ nat (- fexp x)"
    using d round_half_even_error [of "x / u"] unfolding ku by linarith
  then have "of_int (round_half_even (x / u)) * u = of_int k"
    using ku u0 by (simp add: field_simps)
  then show ?thesis using assms(1) by (simp add: round_q_def u_def)
qed

text \<open>The relative error of the rounding of a normal number.\<close>

lemma round_q_error:
  assumes "0 < x" and "- 1022 \<le> ilog2 x"
  shows "2 ^ 53 * \<bar>round_q x - x\<bar> \<le> x"
proof -
  define u where "u = (2 :: rat) powi (fexp x)"
  have u0: "0 < u" by (simp add: u_def)
  have "\<bar>of_int (round_half_even (x / u)) - x / u\<bar> * u \<le> 1 / 2 * u"
    using round_half_even_error [of "x / u"] u0 by (intro mult_right_mono) auto
  moreover have "\<bar>of_int (round_half_even (x / u)) - x / u\<bar> * u = \<bar>round_q x - x\<bar>"
    using u0 assms(1) by (simp add: abs_mult_pos' round_q_def u_def [symmetric] field_simps)
  ultimately have "2 * \<bar>round_q x - x\<bar> \<le> u" by simp
  then have "2 ^ 53 * \<bar>round_q x - x\<bar> \<le> 2 ^ 52 * u" by simp
  also have "2 ^ 52 * u = 2 powi (ilog2 x)"
  proof -
    have "fexp x = ilog2 x - 52" using assms by (simp add: fexp_def)
    then show ?thesis by (simp add: u_def power_int_diff)
  qed
  also have "\<dots> \<le> x" using ilog2_bounds assms(1) by blast
  finally show ?thesis .
qed

interpretation r64: rounding round_q
  by unfold_locales (auto simp: round_q_mono round_q_minus round_q_of_nat)

section \<open>The type double\<close>

datatype f64 = Fin rat | Inf bool \<comment> \<open>\<open>Inf True\<close> is negative\<close> | NaN

definition dbl_max :: rat where
  "dbl_max = (2 ^ 53 - 1) * 2 ^ 971"

definition in_range :: "rat \<Rightarrow> bool" where
  "in_range r = (\<bar>r\<bar> \<le> dbl_max)"

definition to_f64 :: "rat \<Rightarrow> f64" where
  "to_f64 q = (let r = round_q q in if in_range r then Fin r else Inf (r < 0))"

definition f64_of_nat :: "nat \<Rightarrow> f64" where
  "f64_of_nat n = to_f64 (rat_of_nat n)"

fun fneg :: "f64 \<Rightarrow> f64" where
  "fneg (Fin a) = Fin (- a)"
| "fneg (Inf s) = Inf (\<not> s)"
| "fneg NaN = NaN"

fun fadd :: "f64 \<Rightarrow> f64 \<Rightarrow> f64" where
  "fadd (Fin a) (Fin b) = to_f64 (a + b)"
| "fadd (Inf s) (Inf t) = (if s = t then Inf s else NaN)"
| "fadd (Inf s) (Fin b) = Inf s"
| "fadd (Fin a) (Inf t) = Inf t"
| "fadd _ _ = NaN"

definition fsub :: "f64 \<Rightarrow> f64 \<Rightarrow> f64" where
  "fsub a b = fadd a (fneg b)"

fun fmul :: "f64 \<Rightarrow> f64 \<Rightarrow> f64" where
  "fmul (Fin a) (Fin b) = to_f64 (a * b)"
| "fmul (Inf s) (Inf t) = Inf (s \<noteq> t)"
| "fmul (Inf s) (Fin b) = (if b = 0 then NaN else Inf (s \<noteq> (b < 0)))"
| "fmul (Fin a) (Inf t) = (if a = 0 then NaN else Inf ((a < 0) \<noteq> t))"
| "fmul _ _ = NaN"

fun fdiv :: "f64 \<Rightarrow> f64 \<Rightarrow> f64" where
  "fdiv (Fin a) (Fin b) =
     (if b = 0 then (if a = 0 then NaN else Inf (a < 0)) else to_f64 (a / b))"
| "fdiv (Inf s) (Inf t) = NaN"
| "fdiv (Inf s) (Fin b) = Inf (s \<noteq> (b < 0))"
| "fdiv (Fin a) (Inf t) = Fin 0"
| "fdiv _ _ = NaN"

text \<open>The ordered comparison \<open><\<close> of C; \<open>a > b\<close> is \<open>flt b a\<close>.\<close>

fun flt :: "f64 \<Rightarrow> f64 \<Rightarrow> bool" where
  "flt (Fin a) (Fin b) = (a < b)"
| "flt (Inf s) (Inf t) = (s \<and> \<not> t)"
| "flt (Inf s) (Fin b) = s"
| "flt (Fin a) (Inf t) = (\<not> t)"
| "flt _ _ = False"

definition fle :: "f64 \<Rightarrow> f64 \<Rightarrow> bool" where
  "fle a b = (flt a b \<or> (a = b \<and> a \<noteq> NaN))"

text \<open>
  \<open>sqrt\<close>: the integer square root of the argument scaled to at least 120 bits, with a sticky half
  when the root is not exact, rounded once. The half never reaches a rounding boundary, because
  the root has 61 bits and a boundary at most 54.
\<close>

definition isqrt_step :: "nat \<Rightarrow> nat \<Rightarrow> nat" where
  "isqrt_step n r = (if (r + 1) * (r + 1) \<le> n then r + 1 else r)"

function isqrt :: "nat \<Rightarrow> nat" where
  "isqrt n = (if n = 0 then 0 else isqrt_step n (2 * isqrt (n div 4)))"
  by pat_completeness auto
termination
  by (relation "measure id") auto

declare isqrt.simps [simp del]

definition sqrt_scale :: "rat \<Rightarrow> int" where
  "sqrt_scale q = 60 - ilog2 q div 2"

definition sqrt_sticky :: "rat \<Rightarrow> nat \<Rightarrow> rat" where
  "sqrt_sticky w s = rat_of_nat s + (if rat_of_nat (s * s) = w then 0 else 1 / 2)"

definition sqrt_scaled :: "rat \<Rightarrow> rat" where
  "sqrt_scaled w = sqrt_sticky w (isqrt (nat \<lfloor>w\<rfloor>))"

definition sqrt_approx :: "rat \<Rightarrow> rat" where
  "sqrt_approx q = sqrt_scaled (q * 4 powi (sqrt_scale q)) / 2 powi (sqrt_scale q)"

fun fsqrt :: "f64 \<Rightarrow> f64" where
  "fsqrt (Fin q) = (if q < 0 then NaN else if q = 0 then Fin 0 else to_f64 (sqrt_approx q))"
| "fsqrt (Inf s) = (if s then NaN else Inf False)"
| "fsqrt NaN = NaN"

lemma isqrt_correct: "isqrt n * isqrt n \<le> n \<and> n < (isqrt n + 1) * (isqrt n + 1)"
proof (induction n rule: isqrt.induct)
  case (1 n)
  show ?case
  proof (cases "n = 0")
    case True
    then show ?thesis by (subst (1 2 3 4) isqrt.simps) simp
  next
    case False
    define m where "m = isqrt (n div 4)"
    have IH: "m * m \<le> n div 4" "n div 4 < (m + 1) * (m + 1)"
      using 1 [OF False] by (simp_all add: m_def)
    then have "4 * (m * m) \<le> n" "n < 4 * ((m + 1) * (m + 1))" by linarith+
    then have "(2 * m) * (2 * m) \<le> n" "n < (2 * m + 2) * (2 * m + 2)"
      by (simp_all add: algebra_simps)
    moreover have "isqrt n = (if (2 * m + 1) * (2 * m + 1) \<le> n then 2 * m + 1 else 2 * m)"
      using False by (subst isqrt.simps) (simp add: m_def isqrt_step_def)
    ultimately show ?thesis by auto
  qed
qed

section \<open>Evaluation\<close>

text \<open>
  \<open>f64_eval\<close> evaluates a closed double expression by rewriting: the binary length of a numeral,
  the integer parts of a fraction of numerals, and the range test without writing \<open>dbl_max\<close> out.
\<close>

named_theorems f64_eval \<open>evaluation of closed double expressions\<close>

lemma floorlog_numeral [f64_eval]:
  "floorlog 2 0 = 0"
  "floorlog 2 1 = 1"
  "floorlog 2 (Suc 0) = 1"
  "floorlog 2 (numeral Num.One) = 1"
  "floorlog 2 (numeral (Num.Bit0 k)) = Suc (floorlog 2 (numeral k))"
  "floorlog 2 (numeral (Num.Bit1 k)) = Suc (floorlog 2 (numeral k))"
proof -
  show "floorlog 2 (numeral (Num.Bit0 k)) = Suc (floorlog 2 (numeral k))"
    by (subst compute_floorlog) simp
  show "floorlog 2 (numeral (Num.Bit1 k)) = Suc (floorlog 2 (numeral k))"
    by (subst compute_floorlog) simp
qed (simp_all add: compute_floorlog)

lemma small_in_range [f64_eval]: "\<bar>r\<bar> \<le> 2 ^ 60 \<Longrightarrow> in_range r"
  unfolding in_range_def by (rule order_trans [of _ "2 ^ 60"]) (simp_all add: dbl_max_def)

lemma isqrt_numeral [f64_eval]:
  "isqrt 0 = 0"
  "isqrt (Suc 0) = 1"
  "isqrt 1 = 1"
  "isqrt (numeral k) = isqrt_step (numeral k) (2 * isqrt (numeral k div 4))"
  by (simp_all add: isqrt.simps isqrt_step_def)

lemma floor_fraction [f64_eval]:
  "\<lfloor>numeral a / numeral b :: rat\<rfloor> = numeral a div numeral b"
  "\<lfloor>1 / numeral b :: rat\<rfloor> = 1 div numeral b"
  "\<lfloor>- (numeral a / numeral b) :: rat\<rfloor> = - numeral a div numeral b"
  "\<lfloor>- (1 / numeral b) :: rat\<rfloor> = - 1 div numeral b"
  using floor_divide_of_int_eq [of "numeral a" "numeral b", where 'a = rat]
    floor_divide_of_int_eq [of 1 "numeral b", where 'a = rat]
    floor_divide_of_int_eq [of "- numeral a" "numeral b", where 'a = rat]
    floor_divide_of_int_eq [of "- 1" "numeral b", where 'a = rat]
  by simp_all

lemma ceiling_fraction [f64_eval]:
  "\<lceil>numeral a / numeral b :: rat\<rceil> = - \<lfloor>- (numeral a / numeral b) :: rat\<rfloor>"
  "\<lceil>1 / numeral b :: rat\<rceil> = - \<lfloor>- (1 / numeral b) :: rat\<rfloor>"
  by (simp_all add: ceiling_def)

lemmas f64_defs [f64_eval] =
  to_f64_def round_q_def fexp_def ilog2_def round_half_even_def isqrt_step_def Let_def
  sqrt_scale_def sqrt_sticky_def sqrt_scaled_def sqrt_approx_def

section \<open>Order\<close>

text \<open>
  A linear order on doubles for sorting: C's order with NaN put last. It agrees with \<open>flt\<close>
  wherever no NaN is involved.
\<close>

instantiation f64 :: linorder
begin

definition less_eq_f64 :: "f64 \<Rightarrow> f64 \<Rightarrow> bool" where
  "less_eq_f64 a b = (a = b \<or> flt a b \<or> b = NaN)"

definition less_f64 :: "f64 \<Rightarrow> f64 \<Rightarrow> bool" where
  "less_f64 a b = (flt a b \<or> (b = NaN \<and> a \<noteq> NaN))"

instance
proof
  fix x y z :: f64
  show "(x < y) = (x \<le> y \<and> \<not> y \<le> x)"
    by (cases x; cases y) (auto simp: less_eq_f64_def less_f64_def)
  show "x \<le> x" by (simp add: less_eq_f64_def)
  show "x \<le> y \<Longrightarrow> y \<le> z \<Longrightarrow> x \<le> z"
    by (cases x; cases y; cases z) (auto simp: less_eq_f64_def)
  show "x \<le> y \<Longrightarrow> y \<le> x \<Longrightarrow> x = y"
    by (cases x; cases y) (auto simp: less_eq_f64_def)
  show "x \<le> y \<or> y \<le> x"
    by (cases x; cases y) (auto simp: less_eq_f64_def)
qed

end

lemma Fin_le_iff [simp]: "Fin a \<le> Fin b \<longleftrightarrow> a \<le> b"
  by (auto simp: less_eq_f64_def)

lemma Fin_less_iff [simp]: "Fin a < Fin b \<longleftrightarrow> a < b"
  by (auto simp: less_f64_def)

lemma flt_iff_less: "flt a b \<longleftrightarrow> a < b \<and> b \<noteq> NaN"
  by (cases a; cases b) (auto simp: less_f64_def)

lemma flt_irrefl [simp]: "\<not> flt a a"
  by (cases a) auto

lemma flt_trans: "flt a b \<Longrightarrow> flt b c \<Longrightarrow> flt a c"
  by (cases a; cases b; cases c) auto

lemma le_inf: "x \<noteq> NaN \<Longrightarrow> x \<le> Inf False" and inf_le: "Inf True \<le> x"
  by (cases x; simp add: less_eq_f64_def)+

lemma to_f64_not_NaN [simp]: "to_f64 q \<noteq> NaN"
  by (simp add: to_f64_def Let_def)

lemma to_f64_mono: "x \<le> y \<Longrightarrow> to_f64 x \<le> to_f64 y"
  using round_q_mono [of x y]
  by (auto simp: to_f64_def in_range_def Let_def less_eq_f64_def abs_le_iff split: if_splits)

lemma to_f64_nat: "n < 2 ^ 53 \<Longrightarrow> to_f64 (rat_of_nat n) = Fin (rat_of_nat n)"
proof -
  assume h: "n < 2 ^ 53"
  then have "rat_of_nat n < of_nat (2 ^ 53)" by (simp only: of_nat_less_iff)
  then have "rat_of_nat n \<le> dbl_max" by (simp add: dbl_max_def)
  with h show ?thesis by (simp add: to_f64_def in_range_def round_q_of_nat)
qed

lemma f64_of_nat_exact: "n < 2 ^ 53 \<Longrightarrow> f64_of_nat n = Fin (rat_of_nat n)"
  by (simp add: f64_of_nat_def to_f64_nat)

lemma f64_of_nat_mono: "m \<le> n \<Longrightarrow> f64_of_nat m \<le> f64_of_nat n"
  by (simp add: f64_of_nat_def to_f64_mono)

lemma to_f64_zero [simp]: "to_f64 0 = Fin 0"
  by (simp add: to_f64_def in_range_def dbl_max_def)

lemma to_f64_nonneg: "0 \<le> q \<Longrightarrow> Fin 0 \<le> to_f64 q"
  using to_f64_mono [of 0 q] by simp

lemma round_q_dbl_max [simp]: "round_q dbl_max = dbl_max"
  using round_q_representable_pos [of "2 ^ 53 - 1" 971] by (simp add: dbl_max_def)

lemma in_range_round: "in_range x \<Longrightarrow> in_range (round_q x)"
  using round_q_mono [of x dbl_max] round_q_mono [of "- dbl_max" x] round_q_minus [of dbl_max]
  by (simp add: in_range_def abs_le_iff)

lemma to_f64_in_range: "in_range x \<Longrightarrow> to_f64 x = Fin (round_q x)"
  by (simp add: to_f64_def in_range_round)

lemma in_range_le: "in_range y \<Longrightarrow> \<bar>x\<bar> \<le> \<bar>y\<bar> \<Longrightarrow> in_range x"
  by (simp add: in_range_def)

lemma in_range_div: "in_range x \<Longrightarrow> 1 \<le> m \<Longrightarrow> in_range (x / m)"
  by (erule in_range_le) (simp add: abs_div_pos [symmetric] mult_imp_div_pos_le mult_right_le_one_le divide_le_eq mult_le_cancel_left1)

lemma in_range_nat64: "n < 2 ^ 64 \<Longrightarrow> in_range (rat_of_nat n)"
proof -
  assume "n < 2 ^ 64"
  then have "rat_of_nat n < of_nat (2 ^ 64)" by (simp only: of_nat_less_iff)
  then show ?thesis by (simp add: in_range_def dbl_max_def)
qed

lemma f64_of_nat64:
  assumes "0 < n" and "n < 2 ^ 64"
  shows "\<exists>m \<ge> 1. f64_of_nat n = Fin m"
proof -
  have "1 \<le> round_q (rat_of_nat n)" using assms(1) r64.rnd_ge_nat [of 1 "rat_of_nat n"] by simp
  then show ?thesis using assms(2) by (auto simp: f64_of_nat_def to_f64_in_range in_range_nat64)
qed

lemma sqrt_approx_nonneg: "0 \<le> sqrt_approx q"
  by (simp add: sqrt_approx_def sqrt_scaled_def sqrt_sticky_def)

lemma fsqrt_nonneg: "Fin 0 \<le> x \<Longrightarrow> x \<noteq> NaN \<Longrightarrow> Fin 0 \<le> fsqrt x \<and> fsqrt x \<noteq> NaN"
proof (cases x)
  case (Fin q)
  assume "Fin 0 \<le> x"
  with Fin show ?thesis by (simp add: to_f64_nonneg sqrt_approx_nonneg)
qed (auto simp: less_eq_f64_def)

end
