(* ===== verification/Growable.thy ===== *)
theory Growable
  imports Prelude
begin

text \<open>
  The contract of the program's two growable arrays (the RTT samples of \<open>stats_t\<close> and the target
  list): an append either stores the element behind the others or, when \<open>realloc\<close> fails or a cap
  is reached, leaves the contents as they were, and the count never passes the capacity. The first
  argument of \<open>add\<close> says whether \<open>realloc\<close> succeeds if this call needs it. The samples have a cap
  on their number (\<open>capped_growable\<close>), the target list has none (\<open>uncapped_growable\<close>).
\<close>

locale growable =
  fixes items :: "'s \<Rightarrow> 'a list"
    and cap :: "'s \<Rightarrow> nat"
    and add :: "bool \<Rightarrow> 's \<Rightarrow> 'a \<Rightarrow> 's"
    and inv :: "'s \<Rightarrow> bool"
  assumes inv_add: "inv s \<Longrightarrow> inv (add ok s x)"
    and items_add: "inv s \<Longrightarrow> items (add ok s x) = items s \<or> items (add ok s x) = items s @ [x]"
    and count_cap: "inv s \<Longrightarrow> length (items s) \<le> cap s"
begin

text \<open>Appending a list, with one allocation answer per element.\<close>

primrec add_all :: "'s \<Rightarrow> (bool \<times> 'a) list \<Rightarrow> 's" where
  "add_all s [] = s"
| "add_all s (p # ps) = add_all (add (fst p) s (snd p)) ps"

lemma inv_add_all: "inv s \<Longrightarrow> inv (add_all s ps)"
  by (induction ps arbitrary: s) (auto intro: inv_add)

lemma add_all_prefix: "inv s \<Longrightarrow> \<exists>ys. items (add_all s ps) = items s @ ys"
proof (induction ps arbitrary: s)
  case (Cons p ps)
  then obtain ys where "items (add_all s (p # ps)) = items (add (fst p) s (snd p)) @ ys"
    using inv_add by force
  then show ?case using items_add [OF Cons.prems, of "fst p" "snd p"] by auto
qed simp

lemma add_all_subset: "inv s \<Longrightarrow> set (items (add_all s ps)) \<subseteq> set (items s) \<union> snd ` set ps"
proof (induction ps arbitrary: s)
  case (Cons p ps)
  have "set (items (add (fst p) s (snd p))) \<subseteq> set (items s) \<union> {snd p}"
    using items_add [OF Cons.prems, of "fst p" "snd p"] by auto
  then show ?case using Cons.IH [OF inv_add [OF Cons.prems], of "fst p" "snd p"] by auto
qed simp

lemma add_all_count_cap: "inv s \<Longrightarrow> length (items (add_all s ps)) \<le> cap (add_all s ps)"
  by (intro count_cap inv_add_all)

end

locale uncapped_growable = growable +
  assumes items_add_ok: "inv s \<Longrightarrow> items (add True s x) = items s @ [x]"
begin

lemma add_all_ok: "inv s \<Longrightarrow> items (add_all s (map (Pair True) xs)) = items s @ xs"
  by (induction xs arbitrary: s) (auto simp: items_add_ok inv_add)

end

locale capped_growable = growable +
  fixes bound :: nat
  assumes items_add_below: "inv s \<Longrightarrow> length (items s) < bound \<Longrightarrow> items (add True s x) = items s @ [x]"
    and items_bound: "inv s \<Longrightarrow> length (items s) \<le> bound"
    and items_full: "inv s \<Longrightarrow> length (items s) = bound \<Longrightarrow> items (add ok s x) = items s"
begin

lemma add_all_capped:
  "inv s \<Longrightarrow> items (add_all s (map (Pair True) xs)) = items s @ take (bound - length (items s)) xs"
proof (induction xs arbitrary: s)
  case (Cons x xs)
  show ?case
  proof (cases "length (items s) < bound")
    case True
    then have i: "items (add True s x) = items s @ [x]"
      using Cons.prems by (rule items_add_below [rotated])
    then show ?thesis
      using Cons.IH [OF inv_add [OF Cons.prems], of True x] True
      by (simp add: take_Cons' Suc_diff_Suc)
  next
    case False
    then have "length (items s) = bound" using items_bound [OF Cons.prems] by simp
    then show ?thesis
      using Cons.IH [OF inv_add [OF Cons.prems], of True x] items_full [OF Cons.prems] by simp
  qed
qed simp

end

end
