(* ===== verification/Stats.thy ===== *)
theory Stats
  imports Float64 Growable "HOL-Library.Multiset"
begin

text \<open>
  \<open>stats.c\<close>: the counters and RTT aggregates of one target. \<open>stats_t\<close> is the record \<open>stats_t\<close>;
  \<open>Samples\<close> is the allocated block (\<open>[]\<close> for a null pointer), of which the first \<open>SampleCount\<close>
  entries are valid. What \<open>realloc\<close> and \<open>malloc\<close> answer is an argument of the operations that call
  them; storage \<open>realloc\<close> leaves uninitialised holds NaN and is never read
  (\<open>valid_samples\<close>). The counters are incremented by the probe loop, not here.
\<close>

section \<open>State and operations\<close>

record stats_t =
  Attempts :: ulong
  Connects :: ulong
  Failures :: ulong
  Total :: f64
  TotalSq :: f64
  Minimum :: f64
  Maximum :: f64
  Samples :: "f64 list"
  SampleCount :: nat
  SampleCap :: nat

abbreviation MAX_RETAINED_SAMPLES :: nat where "MAX_RETAINED_SAMPLES \<equiv> 1000000"

definition Stats_Reset :: stats_t where
  "Stats_Reset =
     \<lparr>Attempts = 0, Connects = 0, Failures = 0, Total = Fin 0, TotalSq = Fin 0,
      Minimum = Fin dbl_max, Maximum = Fin 0, Samples = [], SampleCount = 0, SampleCap = 0\<rparr>"

definition Stats_Init :: stats_t where
  "Stats_Init = Stats_Reset"

definition Stats_Free :: "stats_t \<Rightarrow> stats_t" where
  "Stats_Free s = s\<lparr>Samples := [], SampleCount := 0, SampleCap := 0\<rparr>"

definition grown_cap :: "nat \<Rightarrow> nat" where
  "grown_cap c = (if c = 0 then 64 else c * 2)"

text \<open>The aggregate part of \<open>Stats_AddSample\<close>, then the part that retains the sample.\<close>

definition add_aggregates :: "stats_t \<Rightarrow> f64 \<Rightarrow> stats_t" where
  "add_aggregates s v =
     (let s1 = (if flt v (Minimum s) then s\<lparr>Minimum := v\<rparr> else s);
          s2 = (if flt (Maximum s1) v then s1\<lparr>Maximum := v\<rparr> else s1)
      in s2\<lparr>Total := fadd (Total s2) v, TotalSq := fadd (TotalSq s2) (fmul v v)\<rparr>)"

definition store_sample :: "stats_t \<Rightarrow> f64 \<Rightarrow> stats_t" where
  "store_sample s v = s\<lparr>Samples := (Samples s)[SampleCount s := v], SampleCount := SampleCount s + 1\<rparr>"

definition retain_sample :: "bool \<Rightarrow> stats_t \<Rightarrow> f64 \<Rightarrow> stats_t" where
  "retain_sample ok s v =
     (if SampleCount s \<ge> MAX_RETAINED_SAMPLES then s
      else if SampleCount s = SampleCap s then
        (let new_cap = grown_cap (SampleCap s) in
         if \<not> ok then s
         else store_sample
                (s\<lparr>Samples := Samples s @ replicate (new_cap - SampleCap s) NaN,
                   SampleCap := new_cap\<rparr>) v)
      else store_sample s v)"

definition Stats_AddSample :: "bool \<Rightarrow> stats_t \<Rightarrow> f64 \<Rightarrow> stats_t" where
  "Stats_AddSample ok s v = retain_sample ok (add_aggregates s v) v"

definition Stats_Average :: "stats_t \<Rightarrow> f64" where
  "Stats_Average s =
     (if Connects s = 0 then Fin 0 else fdiv (Total s) (f64_of_nat (unat (Connects s))))"

definition Stats_StdDev :: "stats_t \<Rightarrow> f64" where
  "Stats_StdDev s =
     (if Connects s = 0 then Fin 0
      else let mean = fdiv (Total s) (f64_of_nat (unat (Connects s)));
               variance = fsub (fdiv (TotalSq s) (f64_of_nat (unat (Connects s)))) (fmul mean mean)
           in fsqrt (if flt variance (Fin 0) then Fin 0 else variance))"

section \<open>Percentiles\<close>

definition CompareDouble :: "f64 \<Rightarrow> f64 \<Rightarrow> int" where
  "CompareDouble a b = (if flt a b then - 1 else if flt b a then 1 else 0)"

text \<open>
  \<open>qsort\<close> of the C library, by a comparison function: an insertion sort. On comparable values any
  sorting algorithm gives the same list (\<open>qsort_unique\<close>).
\<close>

fun insert_by :: "('a \<Rightarrow> 'a \<Rightarrow> int) \<Rightarrow> 'a \<Rightarrow> 'a list \<Rightarrow> 'a list" where
  "insert_by cmp x [] = [x]"
| "insert_by cmp x (y # ys) = (if cmp x y \<le> 0 then x # y # ys else y # insert_by cmp x ys)"

fun qsort :: "('a \<Rightarrow> 'a \<Rightarrow> int) \<Rightarrow> 'a list \<Rightarrow> 'a list" where
  "qsort cmp [] = []"
| "qsort cmp (x # xs) = insert_by cmp x (qsort cmp xs)"

text \<open>\<open>ceil\<close>, and the conversion of a double to \<open>size_t\<close> (undefined in C on a NaN or an infinity,
  which no caller produces).\<close>

fun fceil :: "f64 \<Rightarrow> f64" where
  "fceil (Fin q) = Fin (of_int \<lceil>q\<rceil>)"
| "fceil x = x"

fun f64_to_size :: "f64 \<Rightarrow> nat" where
  "f64_to_size (Fin q) = nat \<lfloor>q\<rfloor>"
| "f64_to_size _ = 0"

definition percentile_index :: "nat \<Rightarrow> f64 \<Rightarrow> nat" where
  "percentile_index n percent =
     (if fle percent (Fin 0) then 0
      else if fle (Fin 100) percent then n - 1
      else let idx = f64_to_size (fceil (fmul (fdiv percent (Fin 100)) (f64_of_nat n)));
               idx1 = (if idx > 0 then idx - 1 else idx)
           in if idx1 \<ge> n then n - 1 else idx1)"

definition Stats_Percentile :: "bool \<Rightarrow> stats_t \<Rightarrow> f64 \<Rightarrow> f64" where
  "Stats_Percentile ok s percent =
     (if SampleCount s = 0 \<or> Samples s = [] then Fin 0
      else if \<not> ok then Fin 0
      else qsort CompareDouble (take (SampleCount s) (Samples s)) ! percentile_index (SampleCount s) percent)"

section \<open>The sample array\<close>

definition valid_samples :: "stats_t \<Rightarrow> f64 list" where
  "valid_samples s = take (SampleCount s) (Samples s)"

text \<open>
  The storage invariant: the block has the recorded capacity, the count fits it, and the capacity
  is 0 or 64 doubled up to 14 times, so a block never has more than \<open>2 ^ 20\<close> entries.
\<close>

definition cap_ok :: "nat \<Rightarrow> bool" where
  "cap_ok c = (c = 0 \<or> (\<exists>k \<le> 14. c = 64 * 2 ^ k))"

definition stats_inv :: "stats_t \<Rightarrow> bool" where
  "stats_inv s \<longleftrightarrow> length (Samples s) = SampleCap s \<and> SampleCount s \<le> SampleCap s \<and>
     SampleCount s \<le> MAX_RETAINED_SAMPLES \<and> cap_ok (SampleCap s)"

lemma grown_cap_ok: "cap_ok c \<Longrightarrow> c < MAX_RETAINED_SAMPLES \<Longrightarrow> cap_ok (grown_cap c)"
proof -
  assume h: "cap_ok c" "c < MAX_RETAINED_SAMPLES"
  show "cap_ok (grown_cap c)"
  proof (cases "c = 0")
    case True
    then show ?thesis by (auto simp: cap_ok_def grown_cap_def intro: exI [of _ 0])
  next
    case False
    with h obtain k where k: "k \<le> 14" "c = 64 * 2 ^ k" by (auto simp: cap_ok_def)
    have "k \<noteq> 14" using h(2) k(2) by auto
    with k have "Suc k \<le> 14" "c * 2 = 64 * 2 ^ Suc k" by auto
    then show ?thesis using False unfolding cap_ok_def grown_cap_def by metis
  qed
qed

lemma grown_cap_gt: "c < grown_cap c"
  by (simp add: grown_cap_def)

lemma cap_ok_bound: "cap_ok c \<Longrightarrow> c \<le> 2 ^ 20"
proof -
  assume "cap_ok c"
  then consider "c = 0" | k where "k \<le> 14" "c = 64 * 2 ^ k" by (auto simp: cap_ok_def)
  then show ?thesis
  proof cases
    case 2
    then have "(2 :: nat) ^ k \<le> 2 ^ 14" by (intro power_increasing) auto
    with 2 show ?thesis by simp
  qed simp
qed

lemma Stats_Reset_inv [inv_intros]: "stats_inv Stats_Reset"
  by (simp add: stats_inv_def Stats_Reset_def cap_ok_def)

lemma add_aggregates_frame [simp]:
  "Samples (add_aggregates s v) = Samples s"
  "SampleCount (add_aggregates s v) = SampleCount s"
  "SampleCap (add_aggregates s v) = SampleCap s"
  "Attempts (add_aggregates s v) = Attempts s"
  "Connects (add_aggregates s v) = Connects s"
  "Failures (add_aggregates s v) = Failures s"
  by (simp_all add: add_aggregates_def Let_def)

lemma add_aggregates_inv: "stats_inv (add_aggregates s v) = stats_inv s"
  by (simp add: stats_inv_def)

lemma store_sample_frame [simp]:
  "Total (store_sample s v) = Total s" "TotalSq (store_sample s v) = TotalSq s"
  "Minimum (store_sample s v) = Minimum s" "Maximum (store_sample s v) = Maximum s"
  "Attempts (store_sample s v) = Attempts s" "Connects (store_sample s v) = Connects s"
  "Failures (store_sample s v) = Failures s"
  by (simp_all add: store_sample_def)

lemma retain_sample_frame [simp]:
  "Total (retain_sample ok s v) = Total s" "TotalSq (retain_sample ok s v) = TotalSq s"
  "Minimum (retain_sample ok s v) = Minimum s" "Maximum (retain_sample ok s v) = Maximum s"
  "Attempts (retain_sample ok s v) = Attempts s" "Connects (retain_sample ok s v) = Connects s"
  "Failures (retain_sample ok s v) = Failures s"
  by (simp_all add: retain_sample_def Let_def)

lemma store_sample_valid:
  "SampleCount s < length (Samples s) \<Longrightarrow> valid_samples (store_sample s v) = valid_samples s @ [v]"
  by (simp add: valid_samples_def store_sample_def take_Suc_conv_app_nth)

lemma retain_sample_inv: "stats_inv s \<Longrightarrow> stats_inv (retain_sample ok s v)"
  using grown_cap_ok [of "SampleCap s"] grown_cap_gt [of "SampleCap s"]
  by (auto simp: stats_inv_def retain_sample_def store_sample_def Let_def)

lemma retain_sample_valid:
  assumes "stats_inv s"
  shows "valid_samples (retain_sample ok s v) =
    (if SampleCount s < MAX_RETAINED_SAMPLES \<and> (SampleCount s < SampleCap s \<or> ok)
     then valid_samples s @ [v] else valid_samples s)"
proof -
  have "SampleCount s < grown_cap (SampleCap s)" "SampleCap s < grown_cap (SampleCap s)"
    using assms grown_cap_gt [of "SampleCap s"] by (auto simp: stats_inv_def)
  then have g: "valid_samples (store_sample (s\<lparr>Samples := Samples s @
      replicate (grown_cap (SampleCap s) - SampleCap s) NaN, SampleCap := grown_cap (SampleCap s)\<rparr>) v)
      = valid_samples s @ [v]"
    using assms by (subst store_sample_valid) (auto simp: stats_inv_def valid_samples_def)
  show ?thesis
    using assms g store_sample_valid [of s v]
    by (auto simp: retain_sample_def Let_def stats_inv_def)
qed

lemma AddSample_inv [inv_intros]: "stats_inv s \<Longrightarrow> stats_inv (Stats_AddSample ok s v)"
  by (simp add: Stats_AddSample_def retain_sample_inv add_aggregates_inv)

lemma AddSample_valid:
  "stats_inv s \<Longrightarrow> valid_samples (Stats_AddSample ok s v) =
    (if SampleCount s < MAX_RETAINED_SAMPLES \<and> (SampleCount s < SampleCap s \<or> ok)
     then valid_samples s @ [v] else valid_samples s)"
  using retain_sample_valid [of "add_aggregates s v" ok v]
  by (simp add: Stats_AddSample_def add_aggregates_inv valid_samples_def)

lemma valid_samples_count: "stats_inv s \<Longrightarrow> length (valid_samples s) = SampleCount s"
  by (simp add: valid_samples_def stats_inv_def)

interpretation samples: capped_growable valid_samples SampleCap Stats_AddSample stats_inv MAX_RETAINED_SAMPLES
proof
  fix s v ok
  assume inv: "stats_inv s"
  note count = valid_samples_count [OF inv]
  show "stats_inv (Stats_AddSample ok s v)" using inv by (rule AddSample_inv)
  show "valid_samples (Stats_AddSample ok s v) = valid_samples s \<or>
      valid_samples (Stats_AddSample ok s v) = valid_samples s @ [v]"
    using AddSample_valid [OF inv] by simp
  show "length (valid_samples s) \<le> SampleCap s" using inv count by (simp add: stats_inv_def)
  show "length (valid_samples s) < MAX_RETAINED_SAMPLES \<Longrightarrow>
      valid_samples (Stats_AddSample True s v) = valid_samples s @ [v]"
    using AddSample_valid [OF inv] count by simp
  show "length (valid_samples s) \<le> MAX_RETAINED_SAMPLES"
    using inv count by (simp add: stats_inv_def)
  show "length (valid_samples s) = MAX_RETAINED_SAMPLES \<Longrightarrow>
      valid_samples (Stats_AddSample ok s v) = valid_samples s"
    using AddSample_valid [OF inv] count by simp
qed

section \<open>A run of samples\<close>

text \<open>The samples of a run, each with the answer \<open>realloc\<close> gives if the call needs it.\<close>

primrec add_samples :: "stats_t \<Rightarrow> (bool \<times> f64) list \<Rightarrow> stats_t" where
  "add_samples s [] = s"
| "add_samples s (p # ps) = add_samples (Stats_AddSample (fst p) s (snd p)) ps"

lemma add_samples_add_all: "add_samples s ps = samples.add_all s ps"
  by (induction ps arbitrary: s) auto

lemma add_samples_inv [inv_intros]: "stats_inv s \<Longrightarrow> stats_inv (add_samples s ps)"
  by (simp add: add_samples_add_all samples.inv_add_all)

lemma AddSample_Minimum: "Minimum s \<noteq> NaN \<Longrightarrow> v \<noteq> NaN \<Longrightarrow>
  Minimum (Stats_AddSample ok s v) = min (Minimum s) v"
  by (auto simp: Stats_AddSample_def add_aggregates_def Let_def flt_iff_less min_def)

lemma AddSample_Maximum: "Maximum s \<noteq> NaN \<Longrightarrow> v \<noteq> NaN \<Longrightarrow>
  Maximum (Stats_AddSample ok s v) = max (Maximum s) v"
  by (auto simp: Stats_AddSample_def add_aggregates_def Let_def flt_iff_less max_def)

lemma min_not_NaN: "a \<noteq> NaN \<Longrightarrow> b \<noteq> NaN \<Longrightarrow> min a b \<noteq> NaN"
  by (auto simp: min_def)

lemma max_not_NaN: "a \<noteq> NaN \<Longrightarrow> b \<noteq> NaN \<Longrightarrow> max a b \<noteq> NaN"
  by (auto simp: max_def)

lemma add_samples_Minimum:
  "Minimum s \<noteq> NaN \<Longrightarrow> NaN \<notin> snd ` set ps \<Longrightarrow>
   Minimum (add_samples s ps) = Min (insert (Minimum s) (snd ` set ps))"
proof (induction ps arbitrary: s)
  case (Cons p ps)
  then have "Minimum (Stats_AddSample (fst p) s (snd p)) = min (Minimum s) (snd p)"
    by (intro AddSample_Minimum) auto
  with Cons show ?case
    by (cases "ps = []") (auto simp: min_not_NaN Min_insert min.assoc)
qed simp

lemma add_samples_Maximum:
  "Maximum s \<noteq> NaN \<Longrightarrow> NaN \<notin> snd ` set ps \<Longrightarrow>
   Maximum (add_samples s ps) = Max (insert (Maximum s) (snd ` set ps))"
proof (induction ps arbitrary: s)
  case (Cons p ps)
  then have "Maximum (Stats_AddSample (fst p) s (snd p)) = max (Maximum s) (snd p)"
    by (intro AddSample_Maximum) auto
  with Cons show ?case
    by (cases "ps = []") (auto simp: max_not_NaN Max_insert max.assoc)
qed simp

lemma add_samples_valid:
  assumes "\<forall>p \<in> set ps. fst p"
  shows "valid_samples (add_samples Stats_Init ps) = take MAX_RETAINED_SAMPLES (map snd ps)"
proof -
  have "map (Pair True) (map snd ps) = ps" using assms by (induction ps) auto
  moreover have "stats_inv Stats_Init" by (simp add: Stats_Init_def Stats_Reset_inv)
  moreover have "valid_samples Stats_Init = []"
    by (simp add: Stats_Init_def valid_samples_def Stats_Reset_def)
  ultimately show ?thesis
    using samples.add_all_capped [of Stats_Init "map snd ps"] by (simp add: add_samples_add_all)
qed

section \<open>Sorting and ranks\<close>

lemma CompareDouble_le: "x \<noteq> NaN \<Longrightarrow> y \<noteq> NaN \<Longrightarrow> CompareDouble x y \<le> 0 \<longleftrightarrow> x \<le> y"
  by (auto simp: CompareDouble_def flt_iff_less)

lemma insert_by_insort: "x \<noteq> NaN \<Longrightarrow> NaN \<notin> set ys \<Longrightarrow> insert_by CompareDouble x ys = insort x ys"
  by (induction ys) (auto simp: CompareDouble_le)

lemma set_insert_by: "set (insert_by cmp x ys) = insert x (set ys)"
  by (induction ys) auto

lemma set_qsort [simp]: "set (qsort cmp xs) = set xs"
  by (induction xs) (auto simp: set_insert_by)

lemma length_insert_by: "length (insert_by cmp x ys) = Suc (length ys)"
  by (induction ys) auto

lemma length_qsort [simp]: "length (qsort cmp xs) = length xs"
  by (induction xs) (auto simp: length_insert_by)

lemma qsort_sort: "NaN \<notin> set xs \<Longrightarrow> qsort CompareDouble xs = sort xs"
  by (induction xs) (auto simp: insert_by_insort)

text \<open>Any sorting routine gives this list: sorted and a permutation determine it.\<close>

lemma qsort_unique:
  "NaN \<notin> set xs \<Longrightarrow> sorted ys \<Longrightarrow> mset ys = mset xs \<Longrightarrow> ys = qsort CompareDouble xs"
  by (simp add: qsort_sort properties_for_sort)

text \<open>The rank in exact terms: what the two roundings of the C expression leave of it.\<close>

definition rank_q :: "nat \<Rightarrow> rat \<Rightarrow> nat" where
  "rank_q n p = nat \<lceil>round_q (round_q (p / 100) * rat_of_nat n)\<rceil>"

lemma percent_fraction:
  assumes "0 < p" and "p < 100"
  shows "0 \<le> round_q (p / 100) \<and> round_q (p / 100) \<le> 1"
  using assms r64.rnd_le_nat [of "p / 100" 1] round_q_nonneg [of "p / 100"] by simp

lemma percentile_index_rank:
  assumes "n < 2 ^ 53"
  shows "percentile_index n (Fin p) =
    (if p \<le> 0 then 0 else if 100 \<le> p then n - 1 else min (n - 1) (rank_q n p - 1))"
proof (cases "0 < p \<and> p < 100")
  case True
  define a where "a = round_q (p / 100)"
  have a: "0 \<le> a" "a \<le> 1" using percent_fraction [of p] True by (simp_all add: a_def)
  have "in_range (p / 100)" using True by (simp add: small_in_range)
  then have d: "fdiv (Fin p) (Fin 100) = Fin a" by (simp add: a_def to_f64_in_range)
  have an: "0 \<le> a * rat_of_nat n" "a * rat_of_nat n \<le> rat_of_nat n"
    using a by (simp_all add: mult_left_le_one_le)
  have "n < 2 ^ 64" using assms by simp
  then have "in_range (rat_of_nat n)" by (rule in_range_nat64)
  then have "in_range (a * rat_of_nat n)" using an by (elim in_range_le) simp
  then have m: "fmul (Fin a) (f64_of_nat n) = Fin (round_q (a * rat_of_nat n))"
    using assms by (simp add: f64_of_nat_exact to_f64_in_range)
  show ?thesis using True d m
    by (auto simp: percentile_index_def fle_def rank_q_def a_def [symmetric] Let_def min_def)
qed (auto simp: percentile_index_def fle_def)

lemma rank_q_mono: "p \<le> p' \<Longrightarrow> rank_q n p \<le> rank_q n p'"
  unfolding rank_q_def
  by (intro nat_mono ceiling_mono round_q_mono mult_right_mono divide_right_mono) auto

lemma percentile_index_less: "0 < n \<Longrightarrow> percentile_index n percent < n"
  by (auto simp: percentile_index_def Let_def)

lemma percentile_index_mono:
  "n < 2 ^ 53 \<Longrightarrow> p \<le> p' \<Longrightarrow> percentile_index n (Fin p) \<le> percentile_index n (Fin p')"
  using rank_q_mono [of p p' n] by (auto simp: percentile_index_rank min_def)

lemma Percentile_eq:
  assumes "stats_inv s" and "NaN \<notin> set (valid_samples s)" and "valid_samples s \<noteq> []"
  shows "Stats_Percentile True s percent =
    sort (valid_samples s) ! percentile_index (length (valid_samples s)) percent"
proof -
  have "SampleCount s \<noteq> 0" "Samples s \<noteq> []" using assms(3) by (auto simp: valid_samples_def)
  then show ?thesis using assms(2) qsort_sort [OF assms(2)] valid_samples_count [OF assms(1)]
    by (simp add: Stats_Percentile_def valid_samples_def)
qed

text \<open>An exact rank: the two roundings leave a multiple of 100 where it is, and elsewhere stay
  within a hundredth, the least distance to an integer.\<close>

lemma ceiling_hundredths:
  assumes "\<not> 100 dvd k" and "\<bar>y - rat_of_nat k / 100\<bar> < 1 / 100"
  shows "\<lceil>y\<rceil> = \<lceil>rat_of_nat k / 100\<rceil>"
proof -
  define m t where "m = k div 100" and "t = rat_of_nat k / 100"
  have d: "k = 100 * m + k mod 100" "0 < k mod 100" "k mod 100 < 100"
    using assms(1) by (auto simp: m_def mod_eq_0_iff_dvd [symmetric])
  then have "rat_of_nat k = 100 * rat_of_nat m + rat_of_nat (k mod 100)"
    by (metis of_nat_add of_nat_mult of_nat_numeral)
  moreover have "1 \<le> rat_of_nat (k mod 100)" "rat_of_nat (k mod 100) \<le> 99"
    using d by (auto simp del: of_nat_mult)
  ultimately have t: "rat_of_nat m + 1 / 100 \<le> t" "t \<le> rat_of_nat m + 99 / 100"
    by (simp_all add: t_def)
  have "- (1 / 100) < y - t \<and> y - t < 1 / 100"
    using assms(2) unfolding t_def [symmetric] abs_less_iff by linarith
  then have "rat_of_nat m < y" "y \<le> rat_of_nat m + 1" "rat_of_nat m < t" "t \<le> rat_of_nat m + 1"
    using t by simp_all
  then have "\<lceil>y\<rceil> = int m + 1" "\<lceil>t\<rceil> = int m + 1" by (auto intro!: ceiling_unique)
  then show ?thesis by (simp add: t_def)
qed

lemma ceiling_rounded_rank:
  assumes x: "1 / 128 \<le> x" "x \<le> 1000000" and xt: "2 ^ 54 * \<bar>x - rat_of_nat k / 100\<bar> < x"
  shows "\<lceil>round_q x\<rceil> = \<lceil>rat_of_nat k / 100\<rceil>"
proof -
  have lo: "- 8 \<le> ilog2 x" using x by (intro ilog2_ge) (simp add: power_int_minus)
  have hi: "ilog2 x < 20" using x by (intro ilog2_less) auto
  show ?thesis
  proof (cases "100 dvd k")
    case True
    then obtain j where "k = 100 * j" by (elim dvdE)
    then have tk: "rat_of_nat k / 100 = of_int (int j)" by simp
    have "round_q x = of_int (int j)" using x xt lo hi unfolding tk by (intro round_q_near_int) auto
    then show ?thesis using tk by simp
  next
    case False
    have "2 ^ 53 * \<bar>round_q x - x\<bar> \<le> x" using x lo by (intro round_q_error) auto
    then have "\<bar>round_q x - x\<bar> < 1 / 1000" using x by simp
    moreover have "\<bar>x - rat_of_nat k / 100\<bar> < 1 / 1000" using xt x by simp
    ultimately have "\<bar>round_q x - rat_of_nat k / 100\<bar> < 1 / 100" by linarith
    then show ?thesis by (rule ceiling_hundredths [OF False])
  qed
qed

lemma rank_q_exact:
  assumes n: "0 < n" "n \<le> 1000000" and p: "1 \<le> p" "p < 100"
    and near: "2 ^ 54 * \<bar>round_q (rat_of_nat p / 100) - rat_of_nat p / 100\<bar> < round_q (rat_of_nat p / 100)"
  shows "rank_q n (rat_of_nat p) = nat \<lceil>rat_of_nat (p * n) / 100\<rceil>"
proof -
  define c where "c = round_q (rat_of_nat p / 100)"
  have c0: "1 / 128 \<le> c" "c \<le> 1"
    using percent_fraction [of "rat_of_nat p"] p
      round_q_mono [of "1 / 128" "rat_of_nat p / 100"] round_q_representable_pos [of 1 "- 7"]
    by (auto simp: c_def power_int_minus)
  have nq: "1 \<le> rat_of_nat n" "rat_of_nat n \<le> 1000000" using n by auto
  have "c * rat_of_nat n - rat_of_nat (p * n) / 100 = (c - rat_of_nat p / 100) * rat_of_nat n"
    by (simp add: algebra_simps)
  then have "\<bar>c * rat_of_nat n - rat_of_nat (p * n) / 100\<bar> = \<bar>c - rat_of_nat p / 100\<bar> * rat_of_nat n"
    by (simp add: abs_mult)
  then have "2 ^ 54 * \<bar>c * rat_of_nat n - rat_of_nat (p * n) / 100\<bar> < c * rat_of_nat n"
    using near nq by (simp add: c_def [symmetric])
  then have "\<lceil>round_q (c * rat_of_nat n)\<rceil> = \<lceil>rat_of_nat (p * n) / 100\<rceil>"
    using mult_mono [OF c0(1) nq(1)] mult_mono [OF c0(2) nq(2)] c0 by (intro ceiling_rounded_rank) auto
  then show ?thesis by (simp add: rank_q_def c_def)
qed

lemma reported_percents_near:
  "p \<in> {50, 95, 99} \<Longrightarrow>
   2 ^ 54 * \<bar>round_q (rat_of_nat p / 100) - rat_of_nat p / 100\<bar> < round_q (rat_of_nat p / 100)"
  by (elim insertE) (simp_all add: f64_eval)

section \<open>Properties\<close>

text \<open>C24: the samples and the aggregates of a run. After any sequence of finite non-negative RTTs,
  whatever \<open>realloc\<close> answered, \<open>Minimum\<close> and \<open>Maximum\<close> are the least and the greatest RTT of
  the run (also of those whose storage failed), the capacity never exceeds \<open>2 ^ 20\<close> entries, and
  when every allocation succeeds the retained samples are the first million RTTs in order.\<close>

theorem AddSample_run:
  assumes "ps \<noteq> []"
    and "\<And>v. v \<in> snd ` set ps \<Longrightarrow> Fin 0 \<le> v \<and> v \<le> Fin dbl_max"
  shows "Minimum (add_samples Stats_Init ps) = Min (snd ` set ps) \<and>
    Maximum (add_samples Stats_Init ps) = Max (snd ` set ps) \<and>
    SampleCap (add_samples Stats_Init ps) \<le> 2 ^ 20 \<and>
    ((\<forall>p \<in> set ps. fst p) \<longrightarrow>
      valid_samples (add_samples Stats_Init ps) = take 1000000 (map snd ps))"
proof -
  let ?V = "snd ` set ps"
  have V: "finite ?V" "?V \<noteq> {}" using assms(1) by auto
  have nan: "NaN \<notin> ?V" using assms(2) [of NaN] by (auto simp: less_eq_f64_def)
  have inv: "stats_inv Stats_Init" by (simp add: Stats_Init_def Stats_Reset_inv)
  have init: "Minimum Stats_Init = Fin dbl_max" "Maximum Stats_Init = Fin 0"
    "valid_samples Stats_Init = []"
    by (simp_all add: Stats_Init_def Stats_Reset_def valid_samples_def)
  have "Min ?V \<le> Fin dbl_max" "Fin 0 \<le> Max ?V"
    using assms(2) Min_in [OF V] Max_in [OF V] by blast+
  note bounds = this
  have "Minimum (add_samples Stats_Init ps) = Min ?V"
    using add_samples_Minimum [of Stats_Init ps] nan V bounds by (simp add: init Min_insert min_absorb2)
  moreover have "Maximum (add_samples Stats_Init ps) = Max ?V"
    using add_samples_Maximum [of Stats_Init ps] nan V bounds by (simp add: init Max_insert max_absorb2)
  moreover have "SampleCap (add_samples Stats_Init ps) \<le> 2 ^ 20"
    using add_samples_inv [OF inv, of ps] cap_ok_bound by (simp add: stats_inv_def)
  moreover have "valid_samples (add_samples Stats_Init ps) = take 1000000 (map snd ps)"
    if "\<forall>p \<in> set ps. fst p" using add_samples_valid [OF that] .
  ultimately show ?thesis by blast
qed

theorem AddSample_run_witness:
  "Minimum (add_samples Stats_Init [(True, Fin 3), (True, Fin 1), (True, Fin 2)]) = Fin 1 \<and>
   valid_samples (add_samples Stats_Init [(True, Fin 3), (True, Fin 1), (True, Fin 2)]) =
     [Fin 3, Fin 1, Fin 2]"
proof -
  let ?ps = "[(True, Fin 3), (True, Fin 1), (True, Fin 2)]"
  have "\<And>v. v \<in> snd ` set ?ps \<Longrightarrow> Fin 0 \<le> v \<and> v \<le> Fin dbl_max"
    by (auto simp: dbl_max_def)
  note run = AddSample_run [of ?ps, OF _ this]
  have "Min (snd ` set ?ps) = Fin 1" "\<forall>p \<in> set ?ps. fst p" "take 1000000 (map snd ?ps) = [Fin 3, Fin 1, Fin 2]"
    by (simp_all add: min_def)
  with run show ?thesis by (simp del: add_samples.simps set_simps image_insert list.set)
qed

text \<open>C25: percentiles. On stored samples without NaN, \<open>Stats_Percentile\<close> returns one of the
  samples, is monotone in the percentage, gives the least sample at 0 and the greatest at 100, for
  every finite percentage, in spite of the rounding of its rank computation.\<close>

theorem Percentile_spec:
  assumes "stats_inv s" and "NaN \<notin> set (valid_samples s)" and "valid_samples s \<noteq> []" and "p \<le> q"
  shows "Stats_Percentile True s (Fin p) \<in> set (valid_samples s) \<and>
    Stats_Percentile True s (Fin p) \<le> Stats_Percentile True s (Fin q) \<and>
    Stats_Percentile True s (Fin 0) = Min (set (valid_samples s)) \<and>
    Stats_Percentile True s (Fin 100) = Max (set (valid_samples s))"
proof -
  let ?xs = "valid_samples s"
  let ?n = "length ?xs"
  note eq = Percentile_eq [OF assms(1-3)]
  have n: "0 < ?n" using assms(3) by simp
  moreover have "?n < 2 ^ 53"
    using assms(1) valid_samples_count [OF assms(1)] by (simp add: stats_inv_def)
  ultimately have n: "0 < ?n" "?n < 2 ^ 53" by auto
  have less: "percentile_index ?n x < ?n" for x using n(1) by (rule percentile_index_less)
  have "Stats_Percentile True s (Fin p) \<in> set ?xs"
    unfolding eq using less by (metis length_sort nth_mem set_sort)
  moreover have "Stats_Percentile True s (Fin p) \<le> Stats_Percentile True s (Fin q)"
    unfolding eq using percentile_index_mono [OF n(2) assms(4)] less
    by (intro sorted_nth_mono) auto
  moreover have "sort ?xs ! 0 = Min (set ?xs)"
  proof (rule Min_eqI [symmetric])
    show "sort ?xs ! 0 \<in> set ?xs" using n(1) by (metis length_sort nth_mem set_sort)
    fix y assume "y \<in> set ?xs"
    then obtain i where "i < ?n" "y = sort ?xs ! i" by (metis in_set_conv_nth length_sort set_sort)
    then show "sort ?xs ! 0 \<le> y" by (auto intro!: sorted_nth_mono)
  qed simp
  moreover have "sort ?xs ! (?n - 1) = Max (set ?xs)"
  proof (rule Max_eqI [symmetric])
    show "sort ?xs ! (?n - 1) \<in> set ?xs" using n(1) by (metis diff_less length_sort nth_mem set_sort zero_less_one)
    fix y assume "y \<in> set ?xs"
    then obtain i where "i < ?n" "y = sort ?xs ! i" by (metis in_set_conv_nth length_sort set_sort)
    then show "y \<le> sort ?xs ! (?n - 1)" by (auto intro!: sorted_nth_mono)
  qed simp
  ultimately show ?thesis by (simp add: eq percentile_index_rank [OF n(2)])
qed

theorem Percentile_spec_witness:
  "Stats_Percentile True (add_samples Stats_Init [(True, Fin 3), (True, Fin 1)]) (Fin 0) = Fin 1"
proof -
  let ?s = "add_samples Stats_Init [(True, Fin 3), (True, Fin 1)]"
  have inv: "stats_inv ?s" by (intro add_samples_inv) (simp add: Stats_Init_def Stats_Reset_inv)
  have v: "valid_samples ?s = [Fin 3, Fin 1]"
    by (subst add_samples_valid) simp_all
  have "NaN \<notin> set (valid_samples ?s)" "valid_samples ?s \<noteq> []" "(50 :: rat) \<le> 95"
    and m: "Min (set (valid_samples ?s)) = Fin 1"
    unfolding v by (simp_all add: min_def)
  note spec = Percentile_spec [OF inv this(1-3)]
  show ?thesis using spec unfolding m by (elim conjE)
qed

text \<open>the reported percentiles (50, 95 and 99) are the exact nearest rank, the least rank that
  covers the percentage, for every number of samples the code can retain: the two roundings of
  \<open>(percent / 100.0) * count\<close> never move the rank.\<close>

theorem nearest_rank_exact:
  assumes "0 < n" and "n \<le> 1000000" and "p \<in> {50, 95, 99}"
  shows "percentile_index n (Fin (rat_of_nat p)) = nat \<lceil>rat_of_nat (p * n) / 100\<rceil> - 1"
proof -
  have p: "1 \<le> p" "p < 100" using assms(3) by auto
  have r: "rank_q n (rat_of_nat p) = nat \<lceil>rat_of_nat (p * n) / 100\<rceil>"
    using assms p by (intro rank_q_exact reported_percents_near)
  have "p * n \<le> 100 * n" using p by simp
  then have "rat_of_nat (p * n) \<le> rat_of_nat (100 * n)" by (rule of_nat_mono)
  then have "rat_of_nat (p * n) / 100 \<le> rat_of_nat n" by simp
  then have "\<lceil>rat_of_nat (p * n) / 100\<rceil> \<le> int n" by (simp add: ceiling_le_iff)
  then show ?thesis using assms p r by (simp add: percentile_index_rank)
qed

theorem nearest_rank_exact_witness: "percentile_index 20 (Fin 95) = 18"
  using nearest_rank_exact [of 20 95] by simp

text \<open>the standard deviation is a number and not negative whenever the two sums are finite:
  the square root never sees a negative argument, because a variance that rounding (or an
  overflowing squared mean) made negative is replaced by 0.\<close>

theorem StdDev_defined:
  assumes "Total s = Fin a" and "TotalSq s = Fin b" and "in_range b"
  shows "Stats_StdDev s \<noteq> NaN \<and> Fin 0 \<le> Stats_StdDev s"
proof (cases "Connects s = 0")
  case True
  then show ?thesis by (simp add: Stats_StdDev_def)
next
  case False
  then have "0 < unat (Connects s)" "unat (Connects s) < 2 ^ 64"
    using unsigned_less [of "Connects s"] by (auto simp: unat_gt_0)
  then obtain m where m: "1 \<le> m" "f64_of_nat (unat (Connects s)) = Fin m"
    using f64_of_nat64 by blast
  let ?mean = "to_f64 (a / m)"
  obtain b' where "fdiv (Fin b) (Fin m) = Fin b'"
    using m(1) to_f64_in_range [OF in_range_div [OF assms(3) m(1)]] by simp
  moreover have "fmul ?mean ?mean \<noteq> NaN" by (cases ?mean) auto
  ultimately have v: "fsub (fdiv (Fin b) (Fin m)) (fmul ?mean ?mean) \<noteq> NaN"
    by (cases "fmul ?mean ?mean") (simp_all add: fsub_def)
  show ?thesis
    using False m assms(1,2) v fsqrt_nonneg
    by (auto simp: Stats_StdDev_def Let_def flt_iff_less not_less)
qed

theorem StdDev_defined_witness:
  "Stats_StdDev (Stats_Init\<lparr>Connects := 2, Total := Fin 4, TotalSq := Fin 10\<rparr>) \<noteq> NaN"
  using StdDev_defined [of "Stats_Init\<lparr>Connects := 2, Total := Fin 4, TotalSq := Fin 10\<rparr>" 4 10]
  by (simp add: small_in_range)

end
