(* ===== verification/Clib.thy ===== *)
theory Clib
  imports Prelude
begin

text \<open>
  The part of the C standard library the program's parsers use, in the "C" locale: the character
  classes of \<open>ctype.h\<close>, \<open>strtol\<close> in base 10 with its end pointer and range error, splitting at a
  character as \<open>strchr\<close>/\<open>strrchr\<close> do, decimal printing (\<open>%u\<close>, \<open>%lu\<close>, \<open>%d\<close>), and reading a file
  line by line with \<open>fgets\<close>. Characters are bytes; \<open>long\<close> has 64 bits.
\<close>

section \<open>Character classes\<close>

definition code :: "char \<Rightarrow> nat" where
  "code c = of_char c"

definition isspace :: "char \<Rightarrow> bool" where
  "isspace c = ((9 \<le> code c \<and> code c \<le> 13) \<or> code c = 32)"

definition isdigit :: "char \<Rightarrow> bool" where
  "isdigit c = (48 \<le> code c \<and> code c \<le> 57)"

definition isalnum :: "char \<Rightarrow> bool" where
  "isalnum c = (isdigit c \<or> (65 \<le> code c \<and> code c \<le> 90) \<or> (97 \<le> code c \<and> code c \<le> 122))"

definition tolower :: "char \<Rightarrow> char" where
  "tolower c = (if 65 \<le> code c \<and> code c \<le> 90 then char_of (code c + 32) else c)"

lemma code_char_of [simp]: "n < 256 \<Longrightarrow> code (char_of n) = n"
  by (simp add: code_def)

lemma code_inject [simp]: "code c = code d \<longleftrightarrow> c = d"
  by (simp add: code_def)

lemma code_less: "code c < 256"
  by (simp add: code_def)

lemma char_of_code [simp]: "char_of (code c) = c"
  by (simp add: code_def)

section \<open>strtol\<close>

abbreviation LONG_MAX :: int where "LONG_MAX \<equiv> 9223372036854775807"
abbreviation LONG_MIN :: int where "LONG_MIN \<equiv> - 9223372036854775808"

text \<open>The digits a string starts with, read on top of an accumulator, and what follows them.\<close>

fun digits_value :: "nat \<Rightarrow> cstring \<Rightarrow> nat \<times> cstring" where
  "digits_value acc [] = (acc, [])"
| "digits_value acc (c # cs) =
     (if isdigit c then digits_value (10 * acc + (code c - 48)) cs else (acc, c # cs))"

text \<open>What one call tells its caller: the value, the text at \<open>*endptr\<close>, whether the end pointer
  moved past the start, and whether \<open>errno\<close> is \<open>ERANGE\<close>.\<close>

record long_parse =
  lp_value :: int
  lp_end :: cstring
  lp_moved :: bool
  lp_erange :: bool

definition clamp_long :: "int \<Rightarrow> int" where
  "clamp_long v = (if v > LONG_MAX then LONG_MAX else if v < LONG_MIN then LONG_MIN else v)"

definition strtol :: "cstring \<Rightarrow> long_parse" where
  "strtol s =
     (let t = dropWhile isspace s;
          neg = (t \<noteq> [] \<and> hd t = CHR ''-'');
          u = (if t \<noteq> [] \<and> (hd t = CHR ''-'' \<or> hd t = CHR ''+'') then tl t else t)
      in if u \<noteq> [] \<and> isdigit (hd u)
         then let (n, rest) = digits_value 0 u;
                  v = (if neg then - int n else int n)
              in \<lparr>lp_value = clamp_long v, lp_end = rest, lp_moved = True,
                  lp_erange = (clamp_long v \<noteq> v)\<rparr>
         else \<lparr>lp_value = 0, lp_end = s, lp_moved = False, lp_erange = False\<rparr>)"

lemma clamp_long_range: "LONG_MIN \<le> clamp_long v" "clamp_long v \<le> LONG_MAX"
  by (simp_all add: clamp_long_def)

lemma clamp_long_id [simp]: "LONG_MIN \<le> v \<Longrightarrow> v \<le> LONG_MAX \<Longrightarrow> clamp_long v = v"
  by (simp add: clamp_long_def)

lemma strtol_range: "LONG_MIN \<le> lp_value (strtol s) \<and> lp_value (strtol s) \<le> LONG_MAX"
  by (auto simp: strtol_def Let_def clamp_long_range split: prod.splits)

section \<open>Decimal printing\<close>

definition digit_char :: "nat \<Rightarrow> char" where
  "digit_char d = char_of (48 + d)"

fun dec :: "nat \<Rightarrow> cstring" where
  "dec n = (if n < 10 then [digit_char n] else dec (n div 10) @ [digit_char (n mod 10)])"

declare dec.simps [simp del]

lemma code_digit_char [simp]: "d < 10 \<Longrightarrow> code (digit_char d) = 48 + d"
  by (simp add: digit_char_def)

lemma isdigit_digit_char [simp]: "d < 10 \<Longrightarrow> isdigit (digit_char d)"
  by (simp add: isdigit_def)

lemma dec_digits: "c \<in> set (dec n) \<Longrightarrow> isdigit c"
proof (induction n rule: dec.induct)
  case (1 n)
  then show ?case by (subst (asm) dec.simps) (auto split: if_splits)
qed

lemma dec_nonempty [simp]: "dec n \<noteq> []"
  by (subst dec.simps) simp

lemma digits_value_append:
  "(\<And>c. c \<in> set xs \<Longrightarrow> isdigit c) \<Longrightarrow>
   digits_value acc (xs @ ys) = digits_value (fst (digits_value acc xs)) ys"
  by (induction xs arbitrary: acc) auto

lemma digits_value_dec_append:
  "digits_value 0 (dec n @ rest) = digits_value n rest"
proof (induction n arbitrary: rest rule: dec.induct)
  case (1 n)
  show ?case
  proof (cases "n < 10")
    case True
    then show ?thesis by (subst dec.simps) simp
  next
    case False
    then have "digits_value 0 (dec n @ rest) =
        digits_value (n div 10) (digit_char (n mod 10) # rest)"
      using 1 by (subst dec.simps) simp
    also have "\<dots> = digits_value (10 * (n div 10) + n mod 10) rest" by simp
    also have "10 * (n div 10) + n mod 10 = n" by simp
    finally show ?thesis .
  qed
qed

lemma digit_not_space: "isdigit c \<Longrightarrow> \<not> isspace c"
  by (auto simp: isdigit_def isspace_def)

lemma code_minus: "code (CHR ''-'') = 45" and code_plus: "code (CHR ''+'') = 43"
  by (simp_all add: code_def)

lemma digit_not_sign: "isdigit c \<Longrightarrow> c \<noteq> CHR ''-'' \<and> c \<noteq> CHR ''+''"
  by (auto simp: isdigit_def code_minus code_plus)

text \<open>Reading back what was printed: the value, and the rest untouched.\<close>

lemma strtol_dec_append:
  assumes "int n \<le> LONG_MAX" and "rest = [] \<or> \<not> isdigit (hd rest)"
  shows "strtol (dec n @ rest) = \<lparr>lp_value = int n, lp_end = rest, lp_moved = True, lp_erange = False\<rparr>"
proof -
  obtain c cs where c: "dec n = c # cs" by (cases "dec n") auto
  then have d: "isdigit c" using dec_digits [of c n] by simp
  have s: "dropWhile isspace (dec n @ rest) = c # cs @ rest"
    using c d digit_not_space by simp
  have "digits_value 0 (c # cs @ rest) = digits_value n rest"
    using digits_value_dec_append [of n rest] c by simp
  also have "\<dots> = (n, rest)" using assms(2) by (cases rest) auto
  finally have v: "digits_value 0 (c # cs @ rest) = (n, rest)" .
  show ?thesis
    unfolding strtol_def s Let_def using v d digit_not_sign [OF d] assms(1) by simp
qed

lemma strtol_dec: "int n \<le> LONG_MAX \<Longrightarrow> lp_value (strtol (dec n)) = int n"
  using strtol_dec_append [of n "[]"] by simp

text \<open>A text in single quotes, as the error messages have it.\<close>

definition quoted :: "cstring \<Rightarrow> cstring" where
  "quoted s = CHR 0x27 # s @ [CHR 0x27]"

section \<open>Splitting at a character\<close>

text \<open>\<open>strchr\<close> and \<open>strrchr\<close>, with the parts before and after the character found.\<close>

definition strchr :: "char \<Rightarrow> cstring \<Rightarrow> (cstring \<times> cstring) option" where
  "strchr c s =
     (if c \<in> set s then Some (takeWhile (\<lambda>x. x \<noteq> c) s, tl (dropWhile (\<lambda>x. x \<noteq> c) s)) else None)"

definition strrchr :: "char \<Rightarrow> cstring \<Rightarrow> (cstring \<times> cstring) option" where
  "strrchr c s =
     (case strchr c (rev s) of None \<Rightarrow> None | Some (a, b) \<Rightarrow> Some (rev b, rev a))"

lemma strchr_None [simp]: "strchr c s = None \<longleftrightarrow> c \<notin> set s"
  by (simp add: strchr_def)

lemma strchr_append [simp]: "c \<notin> set a \<Longrightarrow> strchr c (a @ c # b) = Some (a, b)"
proof -
  assume "c \<notin> set a"
  then have "\<And>x. x \<in> set a \<Longrightarrow> x \<noteq> c" by auto
  then show ?thesis by (simp add: strchr_def takeWhile_append2 dropWhile_append2)
qed

lemma strchr_Some: "strchr c s = Some (a, b) \<longleftrightarrow> s = a @ c # b \<and> c \<notin> set a"
proof
  assume h: "strchr c s = Some (a, b)"
  then have "c \<in> set s" by (metis option.distinct(1) strchr_None)
  then obtain a' b' where "s = a' @ c # b'" "c \<notin> set a'"
    using split_list_first by metis
  with h show "s = a @ c # b \<and> c \<notin> set a" by auto
qed auto

lemma strrchr_None [simp]: "strrchr c s = None \<longleftrightarrow> c \<notin> set s"
  using strchr_None [of c "rev s"] by (auto simp: strrchr_def simp del: strchr_None split: option.splits)

lemma strrchr_Some: "strrchr c s = Some (a, b) \<longleftrightarrow> s = a @ c # b \<and> c \<notin> set b"
proof -
  have "strrchr c s = Some (a, b) \<longleftrightarrow> strchr c (rev s) = Some (rev b, rev a)"
    by (force simp: strrchr_def simp del: strchr_None split: option.splits)
  also have "\<dots> \<longleftrightarrow> rev s = rev b @ c # rev a \<and> c \<notin> set b"
    by (simp add: strchr_Some)
  also have "rev s = rev b @ c # rev a \<longleftrightarrow> s = a @ c # b"
    by (metis append.assoc append_Cons append_Nil rev.simps(2) rev_append rev_rev_ident)
  finally show ?thesis by simp
qed

lemma strrchr_append [simp]: "c \<notin> set b \<Longrightarrow> strrchr c (a @ c # b) = Some (a, b)"
  by (simp add: strrchr_Some)

section \<open>Reading lines\<close>

abbreviation newline :: char where "newline \<equiv> CHR 0x0A"

text \<open>
  \<open>fgets\<close> into a buffer of \<open>n\<close> bytes: at most \<open>n - 1\<close> characters, up to and including the first
  newline; no line at the end of the file. \<open>file_lines\<close> is the \<open>while (fgets(...))\<close> loop; a line
  longer than the buffer comes back in pieces, as in C.
\<close>

definition fgets :: "nat \<Rightarrow> char list \<Rightarrow> (char list \<times> char list) option" where
  "fgets n content =
     (if content = [] \<or> n < 2 then None
      else let k = length (takeWhile (\<lambda>c. c \<noteq> newline) content);
               m = min (n - 1) (if k < length content then k + 1 else k)
           in Some (take m content, drop m content))"

lemma fgets_shrinks: "fgets n content = Some (l, rest) \<Longrightarrow> length rest < length content"
  by (cases content) (auto simp: fgets_def Let_def split: if_splits)

lemma fgets_append: "fgets n content = Some (l, rest) \<Longrightarrow> l @ rest = content"
  by (auto simp: fgets_def Let_def split: if_splits)

lemma fgets_fits: "fgets n content = Some (l, rest) \<Longrightarrow> length l \<le> n - 1"
  by (auto simp: fgets_def Let_def split: if_splits)

function file_lines :: "nat \<Rightarrow> char list \<Rightarrow> char list list" where
  "file_lines n content =
     (case fgets n content of None \<Rightarrow> [] | Some (l, rest) \<Rightarrow> l # file_lines n rest)"
  by pat_completeness auto
termination
  by (relation "measure (\<lambda>(n, content). length content)") (auto dest: fgets_shrinks)

declare file_lines.simps [simp del]

lemma file_lines_concat: "2 \<le> n \<Longrightarrow> concat (file_lines n content) = content"
proof (induction n content rule: file_lines.induct)
  case (1 n content)
  show ?case
  proof (cases "fgets n content")
    case None
    with 1 show ?thesis by (subst file_lines.simps) (auto simp: fgets_def Let_def split: if_splits)
  next
    case (Some p)
    then obtain l rest where p: "fgets n content = Some (l, rest)" by (cases p) auto
    with 1 have "concat (file_lines n rest) = rest" by simp
    with p show ?thesis by (subst file_lines.simps) (simp add: fgets_append)
  qed
qed

lemma file_lines_Nil [simp]: "file_lines n [] = []"
  by (subst file_lines.simps) (simp add: fgets_def)

lemma file_lines_line:
  assumes "newline \<notin> set l" and "length l + 1 < n"
  shows "file_lines n (l @ newline # rest) = (l @ [newline]) # file_lines n rest"
proof -
  have "takeWhile (\<lambda>c. c \<noteq> newline) (l @ newline # rest) = l"
    using assms(1) by (auto intro!: takeWhile_append2 [of l, THEN trans])
  then have "fgets n (l @ newline # rest) = Some (l @ [newline], rest)"
    using assms(2) by (simp add: fgets_def Let_def)
  then show ?thesis by (subst file_lines.simps) simp
qed

section \<open>Evaluation\<close>

text \<open>\<open>c_lib_simps\<close> evaluates the library above on closed strings and numerals.\<close>

lemma digit_char_numeral [c_lib_simps]:
  "digit_char 0 = CHR ''0''" "digit_char (Suc 0) = CHR ''1''" "digit_char 1 = CHR ''1''"
  "digit_char 2 = CHR ''2''" "digit_char 3 = CHR ''3''" "digit_char 4 = CHR ''4''"
  "digit_char 5 = CHR ''5''" "digit_char 6 = CHR ''6''" "digit_char 7 = CHR ''7''"
  "digit_char 8 = CHR ''8''" "digit_char 9 = CHR ''9''"
  by (simp_all add: digit_char_def char_of_def bit_0)

lemmas clib_eval [c_lib_simps] =
  strtol_def isspace_def isdigit_def isalnum_def code_def clamp_long_def strrchr_def strchr_def
  file_lines.simps fgets_def dec.simps cstr_def bounded_copy_def Let_def

end
