(* ===== verification/Print.thy ===== *)
theory Print
  imports Float64 Clib
begin

text \<open>
  Formatted output. The first part is what the program uses of \<open>printf\<close>: \<open>%lu\<close>, \<open>%d\<close>, \<open>%02d\<close>,
  \<open>%.<d>f\<close> and \<open>snprintf\<close> into a fixed buffer. The second part is \<open>print.c\<close>: a function that
  prints is modelled by the text it writes, and the global flag \<open>UseColor\<close> is its first argument.
\<close>

section \<open>Conversions of printf\<close>

definition fmt_int :: "int \<Rightarrow> cstring" where
  "fmt_int n = (if n < 0 then ''-'' @ dec (nat (- n)) else dec (nat n))"

definition fmt_pad :: "nat \<Rightarrow> cstring \<Rightarrow> cstring" where
  "fmt_pad w s = replicate (w - length s) (CHR ''0'') @ s"

text \<open>\<open>%<w>s\<close> for a text that is already converted: padded with blanks on the left.\<close>

definition fmt_width :: "nat \<Rightarrow> cstring \<Rightarrow> cstring" where
  "fmt_width w s = replicate (w - length s) (CHR '' '') @ s"

text \<open>\<open>%.<d>f\<close>: the exact value of the double rounded to \<open>d\<close> places, ties to even, as glibc does.\<close>

definition fixed_digits :: "nat \<Rightarrow> nat \<Rightarrow> cstring" where
  "fixed_digits d n =
     dec (n div 10 ^ d) @ (if d = 0 then [] else CHR ''.'' # fmt_pad d (dec (n mod 10 ^ d)))"

fun fmt_fixed :: "nat \<Rightarrow> f64 \<Rightarrow> cstring" where
  "fmt_fixed d (Fin q) =
     (if q < 0 then ''-'' else '''') @ fixed_digits d (nat (round_half_even (\<bar>q\<bar> * 10 ^ d)))"
| "fmt_fixed d (Inf s) = (if s then ''-inf'' else ''inf'')"
| "fmt_fixed d NaN = ''nan''"

lemma dec_length: "n < 10 ^ d \<Longrightarrow> 0 < d \<Longrightarrow> length (dec n) \<le> d"
proof (induction n arbitrary: d rule: dec.induct)
  case (1 n)
  show ?case
  proof (cases "n < 10")
    case True
    with 1 show ?thesis by (subst dec.simps) simp
  next
    case False
    obtain e where e: "d = Suc e" using 1(3) by (cases d) auto
    have "0 < e" using False 1(2) e by (cases e) auto
    moreover have "n div 10 < 10 ^ e" using 1(2) e by (simp add: less_mult_imp_div_less mult.commute)
    ultimately have "length (dec (n div 10)) \<le> e" using 1(1) False by blast
    with False e show ?thesis by (subst dec.simps) simp
  qed
qed

lemma fmt_pad_length: "length s \<le> w \<Longrightarrow> length (fmt_pad w s) = w"
  by (simp add: fmt_pad_def)

lemma fmt_pad_digits: "c \<in> set (fmt_pad w (dec n)) \<Longrightarrow> isdigit c"
  by (auto simp: fmt_pad_def isdigit_def code_def dest: dec_digits)

text \<open>The fraction always has exactly \<open>d\<close> digits.\<close>

lemma fixed_digits_fraction:
  "0 < d \<Longrightarrow> \<exists>a b. fixed_digits d n = a @ CHR ''.'' # b \<and> length b = d \<and> a \<noteq> [] \<and>
     (\<forall>c \<in> set a \<union> set b. isdigit c)"
  by (rule exI [of _ "dec (n div 10 ^ d)"], rule exI [of _ "fmt_pad d (dec (n mod 10 ^ d))"])
    (auto simp: fixed_digits_def fmt_pad_length dec_length dest: dec_digits fmt_pad_digits)

section \<open>print.c\<close>

datatype color = PRINT_NONE | PRINT_BLUE | PRINT_GREEN | PRINT_RED | PRINT_YELLOW | PRINT_WHITE

abbreviation ESC :: char where "ESC \<equiv> CHR 0x1B"

fun Print_GetAnsiCode :: "color \<Rightarrow> cstring" where
  "Print_GetAnsiCode PRINT_BLUE = ESC # ''[96m''"
| "Print_GetAnsiCode PRINT_GREEN = ESC # ''[92m''"
| "Print_GetAnsiCode PRINT_RED = ESC # ''[91m''"
| "Print_GetAnsiCode PRINT_YELLOW = ESC # ''[93m''"
| "Print_GetAnsiCode PRINT_WHITE = ESC # ''[97m''"
| "Print_GetAnsiCode PRINT_NONE = ''''"

definition FormattedPrint :: "bool \<Rightarrow> color \<Rightarrow> cstring \<Rightarrow> cstring" where
  "FormattedPrint UseColor color data =
     (if \<not> UseColor then data
      else let code = Print_GetAnsiCode color
           in if code \<noteq> [] then code @ data @ (ESC # ''[0m'') else data)"

definition ResetColor :: "bool \<Rightarrow> cstring" where
  "ResetColor UseColor = (if UseColor then ESC # ''[0m'' else [])"

text \<open>What a terminal shows: every sequence from an ESC to the next \<open>m\<close> removed.\<close>

function (sequential) strip_ansi :: "cstring \<Rightarrow> cstring" where
  "strip_ansi [] = []"
| "strip_ansi (c # cs) =
     (if c = ESC then strip_ansi (tl (dropWhile (\<lambda>x. x \<noteq> CHR ''m'') cs)) else c # strip_ansi cs)"
  by pat_completeness auto
termination
  by (relation "measure length") (auto simp: less_Suc_eq_le intro: order_trans [OF diff_le_self dropWhile_length_le])

lemma strip_ansi_plain [simp]: "ESC \<notin> set s \<Longrightarrow> strip_ansi (s @ t) = s @ strip_ansi t"
  by (induction s) auto

lemma strip_ansi_code [simp]: "strip_ansi (Print_GetAnsiCode c @ s) = strip_ansi s"
  by (cases c) simp_all

lemma strip_FormattedPrint [simp]:
  "ESC \<notin> set d \<Longrightarrow> strip_ansi (FormattedPrint u c d @ s) = d @ strip_ansi s"
  by (auto simp: FormattedPrint_def Let_def)

lemma strip_ResetColor [simp]: "strip_ansi (ResetColor u @ s) = strip_ansi s"
  by (simp add: ResetColor_def)

end
