(* ===== verification/Diag.thy ===== *)
theory Diag
  imports Stats Print
begin

text \<open>
  \<open>diag.c\<close>: the diagnostics of one target. \<open>diag_t\<close> is the record of \<open>diag.h\<close>; the counters are
  64-bit words. \<open>Diag_Observe\<close> returns the new state and the alerts it raises; \<open>Alert\<close> is the text
  an alert prints, nothing when the state is silent. The derived metrics (\<open>LossPercent\<close>,
  \<open>BufferbloatMs\<close>, \<open>QualityGrade\<close>, \<open>Verdict\<close>) read the statistics of \<open>Stats\<close>, and the two reports
  are the text they write. The lemmas compare a run with its history: a list with one entry per
  observation, whose maximal runs of failures are the outages.
\<close>

section \<open>State\<close>

record diag_t =
  DnsMs :: f64
  DnsFailed :: bool
  ConsecFails :: ulong
  LongestFailStreak :: ulong
  Outages :: ulong
  IsDown :: bool
  BaselineSec :: f64
  EwmaSec :: f64
  EwmaInit :: bool
  HighLatency :: bool
  Silent :: bool

abbreviation DIAG_DOWN_THRESHOLD :: ulong where "DIAG_DOWN_THRESHOLD \<equiv> 3"

definition DIAG_SLOW_DNS_MS :: f64 where "DIAG_SLOW_DNS_MS = Fin 300"
definition DIAG_EWMA_ALPHA :: f64 where "DIAG_EWMA_ALPHA = to_f64 (3 / 10)"
definition DIAG_LATENCY_SPIKE_FACTOR :: f64 where "DIAG_LATENCY_SPIKE_FACTOR = Fin 3"
definition DIAG_LATENCY_SPIKE_FLOOR_MS :: f64 where "DIAG_LATENCY_SPIKE_FLOOR_MS = Fin 20"

definition Diag_Init :: "bool \<Rightarrow> diag_t" where
  "Diag_Init silent =
     \<lparr>DnsMs = Fin 0, DnsFailed = False, ConsecFails = 0, LongestFailStreak = 0, Outages = 0,
      IsDown = False, BaselineSec = Fin dbl_max, EwmaSec = Fin 0, EwmaInit = False,
      HighLatency = False, Silent = silent\<rparr>"

definition Diag_SetDns :: "diag_t \<Rightarrow> f64 \<Rightarrow> bool \<Rightarrow> diag_t" where
  "Diag_SetDns d dns_ms failed = d\<lparr>DnsMs := dns_ms, DnsFailed := failed\<rparr>"

section \<open>Derived metrics\<close>

definition ms :: "f64 \<Rightarrow> f64" where
  "ms sec = fmul sec (Fin 1000)"

definition LossPercent :: "stats_t \<Rightarrow> f64" where
  "LossPercent s =
     (if Attempts s = 0 then Fin 0
      else fmul (fdiv (f64_of_nat (unat (Failures s))) (f64_of_nat (unat (Attempts s)))) (Fin 100))"

text \<open>\<open>ok\<close> is what \<open>malloc\<close> answers in \<open>Stats_Percentile\<close>.\<close>

definition BufferbloatMs :: "bool \<Rightarrow> stats_t \<Rightarrow> f64" where
  "BufferbloatMs ok s =
     (if Connects s = 0 \<or> SampleCount s < 5 then Fin (- 1)
      else ms (fsub (Stats_Percentile ok s (Fin 95)) (Minimum s)))"

definition QualityGrade :: "stats_t \<Rightarrow> nat" where
  "QualityGrade s =
     (let loss = LossPercent s; jitter_ms = ms (Stats_StdDev s); avg_ms = ms (Stats_Average s)
      in if flt (Fin 5) loss \<or> flt (Fin 50) jitter_ms \<or> flt (Fin 300) avg_ms then 2
         else if flt (Fin 1) loss \<or> flt (Fin 20) jitter_ms \<or> flt (Fin 150) avg_ms then 1 else 0)"

definition QualityName :: "nat \<Rightarrow> cstring" where
  "QualityName grade = (if grade = 2 then ''POOR'' else if grade = 1 then ''FAIR'' else ''GOOD'')"

definition BloatName :: "f64 \<Rightarrow> cstring" where
  "BloatName bloat_ms =
     (if flt bloat_ms (Fin 0) then ''n/a'' else if flt (Fin 100) bloat_ms then ''severe''
      else if flt (Fin 50) bloat_ms then ''mild'' else ''none'')"

definition Verdict :: "diag_t \<Rightarrow> stats_t \<Rightarrow> cstring" where
  "Verdict d s =
     (if IsDown d \<or> fle (Fin 100) (LossPercent s) then ''DOWN''
      else if QualityGrade s = 2 \<or> Outages d > 0 \<or> DnsFailed d then ''DEGRADED'' else ''HEALTHY'')"

section \<open>Observation and alerts\<close>

datatype alert =
    Recovered ulong
  | HighLatencyAlert f64 f64
  | LatencyNormal f64
  | Down

fun alert_text :: "alert \<Rightarrow> cstring" where
  "alert_text (Recovered n) =
     ''  + RECOVERED: link back up after '' @ dec (unat n) @ '' consecutive failures''"
| "alert_text (HighLatencyAlert ewma base) =
     ''  ~ HIGH LATENCY: ~'' @ fmt_fixed 1 ewma @ '' ms (baseline '' @ fmt_fixed 1 base @ '' ms)''"
| "alert_text (LatencyNormal ewma) = ''  + LATENCY NORMAL: ~'' @ fmt_fixed 1 ewma @ '' ms''"
| "alert_text Down =
     ''  ! DOWN: '' @ dec (unat DIAG_DOWN_THRESHOLD) @ '' consecutive failures (outage)''"

fun alert_color :: "alert \<Rightarrow> color" where
  "alert_color (Recovered n) = PRINT_GREEN"
| "alert_color (HighLatencyAlert e b) = PRINT_YELLOW"
| "alert_color (LatencyNormal e) = PRINT_GREEN"
| "alert_color Down = PRINT_RED"

definition Alert :: "bool \<Rightarrow> diag_t \<Rightarrow> alert \<Rightarrow> cstring" where
  "Alert UseColor d a =
     (if Silent d then []
      else FormattedPrint UseColor (alert_color a) (bounded_copy 160 (alert_text a)) @ [newline])"

text \<open>The four blocks of \<open>Diag_Observe\<close>, in its order.\<close>

definition observe_recovery :: "diag_t \<Rightarrow> diag_t \<times> alert list" where
  "observe_recovery d =
     (let (d1, al) = (if IsDown d then (d\<lparr>IsDown := False\<rparr>, [Recovered (ConsecFails d)]) else (d, []))
      in (d1\<lparr>ConsecFails := 0\<rparr>, al))"

definition observe_rtt :: "diag_t \<Rightarrow> f64 \<Rightarrow> diag_t" where
  "observe_rtt d rtt =
     (let d1 = (if flt rtt (BaselineSec d) then d\<lparr>BaselineSec := rtt\<rparr> else d)
      in if \<not> EwmaInit d1 then d1\<lparr>EwmaSec := rtt, EwmaInit := True\<rparr>
         else d1\<lparr>EwmaSec := fadd (fmul DIAG_EWMA_ALPHA rtt)
                              (fmul (fsub (Fin 1) DIAG_EWMA_ALPHA) (EwmaSec d1))\<rparr>)"

definition latency_threshold :: "f64 \<Rightarrow> f64" where
  "latency_threshold base_ms =
     (let spike_ms = fmul base_ms DIAG_LATENCY_SPIKE_FACTOR;
          floor_ms = fadd base_ms DIAG_LATENCY_SPIKE_FLOOR_MS
      in if flt floor_ms spike_ms then spike_ms else floor_ms)"

definition observe_latency :: "diag_t \<Rightarrow> diag_t \<times> alert list" where
  "observe_latency d =
     (let base_ms = ms (BaselineSec d); ewma_ms = ms (EwmaSec d)
      in if \<not> HighLatency d \<and> flt (latency_threshold base_ms) ewma_ms
         then (d\<lparr>HighLatency := True\<rparr>, [HighLatencyAlert ewma_ms base_ms])
         else if HighLatency d \<and> flt ewma_ms (fmul base_ms (Fin (3 / 2)))
         then (d\<lparr>HighLatency := False\<rparr>, [LatencyNormal ewma_ms])
         else (d, []))"

definition observe_failure :: "diag_t \<Rightarrow> diag_t \<times> alert list" where
  "observe_failure d =
     (let d1 = d\<lparr>ConsecFails := ConsecFails d + 1\<rparr>;
          d2 = (if ConsecFails d1 > LongestFailStreak d1
                then d1\<lparr>LongestFailStreak := ConsecFails d1\<rparr> else d1)
      in if ConsecFails d2 = DIAG_DOWN_THRESHOLD
         then (d2\<lparr>IsDown := True, Outages := Outages d2 + 1\<rparr>, [Down])
         else (d2, []))"

definition Diag_Observe :: "diag_t \<Rightarrow> bool \<Rightarrow> f64 \<Rightarrow> diag_t \<times> alert list" where
  "Diag_Observe d success rtt_sec =
     (if success then
        let (d1, a1) = observe_recovery d; (d2, a2) = observe_latency (observe_rtt d1 rtt_sec)
        in (d2, a1 @ a2)
      else observe_failure d)"

section \<open>Reports\<close>

definition pct_class :: "f64 \<Rightarrow> cstring" where
  "pct_class loss =
     (if flt (Fin 5) loss then ''severe'' else if flt (Fin 1) loss then ''elevated'' else ''none'')"

definition jitter_class :: "f64 \<Rightarrow> cstring" where
  "jitter_class j =
     (if flt (Fin 50) j then ''high'' else if flt (Fin 20) j then ''moderate'' else ''low'')"

definition verdict_color :: "cstring \<Rightarrow> color" where
  "verdict_color v =
     (if v ! 0 = CHR ''H'' then PRINT_GREEN
      else if v ! 0 = CHR ''D'' \<and> v ! 1 = CHR ''E'' then PRINT_YELLOW else PRINT_RED)"

definition Diag_PrintSummary :: "bool \<Rightarrow> bool \<Rightarrow> diag_t \<Rightarrow> stats_t \<Rightarrow> cstring" where
  "Diag_PrintSummary UseColor ok d s =
     (let loss = LossPercent s; jitter_ms = ms (Stats_StdDev s); bloat_ms = BufferbloatMs ok s;
          grade = QualityGrade s; verdict = Verdict d s;
          blue = (\<lambda>t. FormattedPrint UseColor PRINT_BLUE (bounded_copy 160 t))
      in FormattedPrint UseColor PRINT_YELLOW (''Diagnostics:'' @ [newline]) @ ResetColor UseColor @
         (if DnsFailed d
          then FormattedPrint UseColor PRINT_BLUE ''        DNS resolution = '' @
               FormattedPrint UseColor PRINT_RED (''FAILED'' @ [newline])
          else blue (''        DNS resolution = '' @ fmt_fixed 3 (DnsMs d) @ '' ms ('' @
                 (if flt DIAG_SLOW_DNS_MS (DnsMs d) then ''SLOW'' else ''ok'') @ '')'' @ [newline])) @
         blue (''        Link quality   = '' @ QualityName grade @ [newline]) @
         blue (''        Packet loss    = '' @ fmt_fixed 2 loss @ ''% ('' @ pct_class loss @ '')'' @ [newline]) @
         blue (''        Jitter (mdev)  = '' @ fmt_fixed 4 jitter_ms @ '' ms ('' @ jitter_class jitter_ms @
           '')'' @ [newline]) @
         (if flt bloat_ms (Fin 0)
          then FormattedPrint UseColor PRINT_BLUE
                 (''        Bufferbloat    = n/a (insufficient samples)'' @ [newline])
          else blue (''        Bufferbloat    = '' @ BloatName bloat_ms @ '' (+'' @ fmt_fixed 1 bloat_ms @
                 '' ms over baseline)'' @ [newline])) @
         blue (''        Stability      = '' @ dec (unat (Outages d)) @ '' outage(s), longest fail streak '' @
           dec (unat (LongestFailStreak d)) @ [newline]) @
         FormattedPrint UseColor PRINT_BLUE ''        Verdict        = '' @
         FormattedPrint UseColor (verdict_color verdict) (bounded_copy 160 (verdict @ [newline])))"

definition json_bool :: "bool \<Rightarrow> cstring" where
  "json_bool b = (if b then ''true'' else ''false'')"

definition Diag_PrintJson :: "bool \<Rightarrow> diag_t \<Rightarrow> stats_t \<Rightarrow> cstring" where
  "Diag_PrintJson ok d s =
     (let bloat_ms = BufferbloatMs ok s
      in ''{\"diagnostics\":{'' @
         ''\"dns_ms\":'' @ fmt_fixed 3 (DnsMs d) @ '',\"dns_ok\":'' @ json_bool (\<not> DnsFailed d) @ '','' @
         ''\"quality\":\"'' @ QualityName (QualityGrade s) @ ''\",'' @
         ''\"loss_pct\":'' @ fmt_fixed 2 (LossPercent s) @ '','' @
         ''\"jitter_ms\":'' @ fmt_fixed 4 (ms (Stats_StdDev s)) @ '','' @
         (if flt bloat_ms (Fin 0) then ''\"bufferbloat\":\"n/a\",\"bufferbloat_ms\":null,''
          else ''\"bufferbloat\":\"'' @ BloatName bloat_ms @ ''\",\"bufferbloat_ms\":'' @
               fmt_fixed 1 bloat_ms @ '','') @
         ''\"outages\":'' @ dec (unat (Outages d)) @ '',\"longest_fail_streak\":'' @
         dec (unat (LongestFailStreak d)) @ '',\"down\":'' @ json_bool (IsDown d) @ '','' @
         ''\"verdict\":\"'' @ Verdict d s @ ''\"}}'' @ [newline])"

section \<open>Histories\<close>

text \<open>
  The reference: a history has one Boolean per observation, in order (\<open>True\<close> a success).
  \<open>fail_runs\<close> lists the lengths of its maximal runs of failures, \<open>streak\<close> is the length of the run
  it ends with, and \<open>closed_runs\<close> leaves out the run a history ends with.
\<close>

function fail_runs :: "bool list \<Rightarrow> nat list" where
  "fail_runs [] = []"
| "fail_runs (True # h) = fail_runs h"
| "fail_runs (False # h) = Suc (length (takeWhile Not h)) # fail_runs (dropWhile Not h)"
  by pat_completeness auto
termination
  by (relation "measure length") (auto simp: le_imp_less_Suc)

definition streak :: "bool list \<Rightarrow> nat" where
  "streak h = length (takeWhile Not (rev h))"

definition closed_runs :: "bool list \<Rightarrow> nat list" where
  "closed_runs h = (if streak h = 0 then fail_runs h else butlast (fail_runs h))"

definition outage_alerts :: "bool list \<Rightarrow> alert list" where
  "outage_alerts h =
     concat (map (\<lambda>n. [Down, Recovered (of_nat n)]) (filter (\<lambda>n. 3 \<le> n) (closed_runs h))) @
     (if 3 \<le> streak h then [Down] else [])"

lemma while_all [simp]: "True \<notin> set h \<Longrightarrow> takeWhile Not h = h" "True \<notin> set h \<Longrightarrow> dropWhile Not h = []"
  by (induction h) auto

lemma takeWhile_Not_snoc:
  "takeWhile Not (h @ [x]) = (if True \<in> set h \<or> x then takeWhile Not h else h @ [x])"
  by (induction h) auto

lemma dropWhile_Not_snoc:
  "dropWhile Not (h @ [x]) = (if True \<in> set h \<or> x then dropWhile Not h @ [x] else [])"
  by (induction h) auto

lemma streak_snoc [simp]: "streak [] = 0" "streak (h @ [True]) = 0" "streak (h @ [False]) = Suc (streak h)"
  by (simp_all add: streak_def)

lemma streak_le: "streak h \<le> length h"
  using length_takeWhile_le [of Not "rev h"] by (simp add: streak_def)

lemma streak_Cons: "streak (x # h) = (if True \<in> set h \<or> x then streak h else Suc (length h))"
  by (simp add: streak_def takeWhile_Not_snoc)

lemma streak_dropWhile: "True \<in> set h \<Longrightarrow> streak (dropWhile Not h) = streak h"
  by (induction h) (auto simp: streak_Cons)

lemma fail_runs_True [simp]: "fail_runs (h @ [True]) = fail_runs h"
  by (induction h rule: fail_runs.induct) (auto simp: takeWhile_Not_snoc dropWhile_Not_snoc)

lemma streak_fail_runs: "streak h \<noteq> 0 \<Longrightarrow> fail_runs h \<noteq> []"
  by (induction h rule: fail_runs.induct) (auto simp: streak_Cons split: if_splits)

lemma fail_runs_False:
  "fail_runs (h @ [False]) =
     (if streak h = 0 then fail_runs h @ [1] else butlast (fail_runs h) @ [Suc (streak h)])"
proof (induction h rule: fail_runs.induct)
  case (2 h)
  have "streak (True # h) = streak h" by (simp add: streak_Cons)
  with 2 show ?case by simp
next
  case (3 h)
  show ?case
  proof (cases "True \<in> set h")
    case True
    then show ?thesis
      using 3 streak_dropWhile [OF True] streak_fail_runs [of "dropWhile Not h"]
      by (auto simp: streak_Cons takeWhile_Not_snoc dropWhile_Not_snoc)
  next
    case False
    then show ?thesis by (simp add: streak_Cons takeWhile_Not_snoc dropWhile_Not_snoc)
  qed
qed simp

lemma last_fail_runs: "streak h \<noteq> 0 \<Longrightarrow> last (fail_runs h) = streak h"
proof (induction h rule: rev_induct)
  case (snoc x h)
  then show ?case by (cases x) (simp_all add: fail_runs_False)
qed simp

lemma fail_runs_last: "streak h \<noteq> 0 \<Longrightarrow> fail_runs h = butlast (fail_runs h) @ [streak h]"
  by (metis append_butlast_last_id last_fail_runs streak_fail_runs)

lemma closed_runs_snoc:
  "closed_runs (h @ [False]) = closed_runs h"
  "closed_runs (h @ [True]) = closed_runs h @ (if streak h = 0 then [] else [streak h])"
  using fail_runs_last [of h] by (auto simp: closed_runs_def fail_runs_False)

lemma fail_runs_closed: "fail_runs h = closed_runs h @ (if streak h = 0 then [] else [streak h])"
  using fail_runs_last [of h] by (auto simp: closed_runs_def)

lemma fail_runs_length: "length (fail_runs h) \<le> length h"
  by (induction h rule: fail_runs.induct) (auto intro: order_trans [OF _ dropWhile_length_le])

lemma closed_runs_Nil [simp]: "closed_runs [] = []"
  by (simp add: closed_runs_def)

section \<open>Runs of the state machine\<close>

text \<open>Observing a list of results (success and round-trip time), collecting the alerts.\<close>

primrec observe_all :: "diag_t \<Rightarrow> (bool \<times> f64) list \<Rightarrow> diag_t \<times> alert list" where
  "observe_all d [] = (d, [])"
| "observe_all d (r # rs) =
     (let (d1, a1) = Diag_Observe d (fst r) (snd r); (d2, a2) = observe_all d1 rs in (d2, a1 @ a2))"

lemma observe_all_snoc:
  "fst (observe_all d (rs @ [r])) = fst (Diag_Observe (fst (observe_all d rs)) (fst r) (snd r))"
  "snd (observe_all d (rs @ [r])) =
     snd (observe_all d rs) @ snd (Diag_Observe (fst (observe_all d rs)) (fst r) (snd r))"
  by (induction rs arbitrary: d) (simp_all add: Let_def split_beta)

fun link_alert :: "alert \<Rightarrow> bool" where
  "link_alert (Recovered n) = True"
| "link_alert Down = True"
| "link_alert (HighLatencyAlert e b) = False"
| "link_alert (LatencyNormal e) = False"

text \<open>The part of the state that tracks outages is a function of the history.\<close>

definition tracks :: "diag_t \<Rightarrow> bool list \<Rightarrow> bool" where
  "tracks d h \<longleftrightarrow> unat (ConsecFails d) = streak h \<and>
     unat (LongestFailStreak d) = Max (insert 0 (set (fail_runs h))) \<and>
     unat (Outages d) = length (filter (\<lambda>n. 3 \<le> n) (fail_runs h)) \<and>
     IsDown d = (3 \<le> streak h)"

lemma observe_rtt_frame [simp]:
  "ConsecFails (observe_rtt d rtt) = ConsecFails d"
  "LongestFailStreak (observe_rtt d rtt) = LongestFailStreak d"
  "Outages (observe_rtt d rtt) = Outages d" "IsDown (observe_rtt d rtt) = IsDown d"
  "HighLatency (observe_rtt d rtt) = HighLatency d" "Silent (observe_rtt d rtt) = Silent d"
  by (simp_all add: observe_rtt_def Let_def)

lemma observe_latency_frame [simp]:
  "ConsecFails (fst (observe_latency d)) = ConsecFails d"
  "LongestFailStreak (fst (observe_latency d)) = LongestFailStreak d"
  "Outages (fst (observe_latency d)) = Outages d" "IsDown (fst (observe_latency d)) = IsDown d"
  "filter link_alert (snd (observe_latency d)) = []"
  by (simp_all add: observe_latency_def Let_def)

lemma observe_recovery_simps [simp]:
  "ConsecFails (fst (observe_recovery d)) = 0"
  "LongestFailStreak (fst (observe_recovery d)) = LongestFailStreak d"
  "Outages (fst (observe_recovery d)) = Outages d" "IsDown (fst (observe_recovery d)) = False"
  "HighLatency (fst (observe_recovery d)) = HighLatency d"
  "snd (observe_recovery d) = (if IsDown d then [Recovered (ConsecFails d)] else [])"
  by (cases "IsDown d"; simp add: observe_recovery_def)+

lemma Observe_success:
  "Diag_Observe d True rtt =
     (fst (observe_latency (observe_rtt (fst (observe_recovery d)) rtt)),
      snd (observe_recovery d) @ snd (observe_latency (observe_rtt (fst (observe_recovery d)) rtt)))"
  by (simp add: Diag_Observe_def Let_def split_beta)

lemma fail_runs_parts:
  "Max (insert 0 (set (fail_runs h))) = max (Max (insert 0 (set (closed_runs h)))) (streak h)"
  "length (filter (\<lambda>n. 3 \<le> n) (fail_runs h)) =
     length (filter (\<lambda>n. 3 \<le> n) (closed_runs h)) + (if 3 \<le> streak h then 1 else 0)"
  by (cases "closed_runs h = []"; auto simp: fail_runs_closed [of h] max.commute)+

lemma tracks_success: "tracks d h \<Longrightarrow> tracks (fst (Diag_Observe d True rtt)) (h @ [True])"
  by (simp add: tracks_def Observe_success)

lemma tracks_failure:
  assumes "tracks d h" and "length h + 1 < 2 ^ 64"
  shows "tracks (fst (Diag_Observe d False rtt)) (h @ [False]) \<and>
    snd (Diag_Observe d False rtt) = (if Suc (streak h) = 3 then [Down] else [])"
proof -
  have c: "unat (ConsecFails d + 1) = Suc (streak h)"
    using assms streak_le [of h] by (simp add: tracks_def unat_Suc64)
  have "unat (Outages d) \<le> length h"
    using assms(1) order_trans [OF length_filter_le fail_runs_length, of _ h] by (simp add: tracks_def)
  then have o: "unat (Outages d + 1) = unat (Outages d) + 1"
    using assms(2) by (intro unat_Suc64) simp
  have three: "ConsecFails d + 1 = 3 \<longleftrightarrow> Suc (streak h) = 3"
    using c by (simp add: word_unat_eq_iff)
  have less: "LongestFailStreak d < ConsecFails d + 1 \<longleftrightarrow> unat (LongestFailStreak d) < Suc (streak h)"
    using c by (simp add: word_less_nat_alt)
  let ?d = "fst (Diag_Observe d False rtt)"
  note step = Diag_Observe_def observe_failure_def Let_def three less c
  have d: "unat (ConsecFails ?d) = Suc (streak h)"
    "unat (LongestFailStreak ?d) = max (unat (LongestFailStreak d)) (Suc (streak h))"
    "unat (Outages ?d) = unat (Outages d) + (if Suc (streak h) = 3 then 1 else 0)"
    "IsDown ?d = (IsDown d \<or> Suc (streak h) = 3)"
    "snd (Diag_Observe d False rtt) = (if Suc (streak h) = 3 then [Down] else [])"
    using o by (simp_all add: step max_def)
  have "max (max m (streak h)) (Suc (streak h)) = max m (Suc (streak h))" for m
    by (simp add: max.assoc)
  with d assms(1) show ?thesis
    by (auto simp: tracks_def fail_runs_parts closed_runs_snoc)
qed

lemma observe_all_tracks:
  "length rs < 2 ^ 64 \<Longrightarrow> tracks (fst (observe_all (Diag_Init s) rs)) (map fst rs)"
proof (induction rs rule: rev_induct)
  case Nil
  then show ?case by (simp add: tracks_def Diag_Init_def)
next
  case (snoc r rs)
  then have "tracks (fst (observe_all (Diag_Init s) rs)) (map fst rs)" by simp
  then show ?case
    using snoc.prems tracks_success tracks_failure
    by (cases "fst r") (simp_all add: observe_all_snoc)
qed

lemma observe_all_alerts:
  "length rs < 2 ^ 64 \<Longrightarrow>
   filter link_alert (snd (observe_all (Diag_Init s) rs)) = outage_alerts (map fst rs)"
proof (induction rs rule: rev_induct)
  case Nil
  then show ?case by (simp add: outage_alerts_def)
next
  case (snoc r rs)
  let ?d = "fst (observe_all (Diag_Init s) rs)"
  have t: "tracks ?d (map fst rs)" using snoc.prems by (intro observe_all_tracks) simp
  have IH: "filter link_alert (snd (observe_all (Diag_Init s) rs)) = outage_alerts (map fst rs)"
    using snoc by simp
  show ?case
  proof (cases "fst r")
    case True
    have "unat (ConsecFails ?d) = streak (map fst rs)" using t by (simp add: tracks_def)
    then have "ConsecFails ?d = of_nat (streak (map fst rs))" by (metis of_nat_unat ucast_id)
    moreover have "IsDown ?d = (3 \<le> streak (map fst rs))" using t by (simp add: tracks_def)
    ultimately have c: "IsDown ?d = (3 \<le> streak (map fst rs))" "ConsecFails ?d = of_nat (streak (map fst rs))"
      by auto
    from True IH c show ?thesis
      by (auto simp: observe_all_snoc Observe_success outage_alerts_def closed_runs_snoc)
  next
    case False
    with t have "snd (Diag_Observe ?d False (snd r)) = (if Suc (streak (map fst rs)) = 3 then [Down] else [])"
      using tracks_failure snoc.prems by simp
    with False IH show ?thesis
      by (auto simp: observe_all_snoc outage_alerts_def closed_runs_snoc)
  qed
qed

section \<open>Bounds of the derived metrics\<close>

lemma round_q_hundred: "round_q 100 = 100"
  using round_q_of_nat [of 100] by simp

text \<open>The percentage of two counters, in exact terms.\<close>

lemma percent_exact:
  assumes "0 < a" and "a < 2 ^ 53" and "f \<le> a"
  shows "fmul (fdiv (f64_of_nat f) (f64_of_nat a)) (Fin 100) =
    Fin (round_q (round_q (rat_of_nat f / rat_of_nat a) * 100))"
proof -
  let ?q = "rat_of_nat f / rat_of_nat a"
  have q: "0 \<le> ?q" "?q \<le> 1" using assms by auto
  then have r: "0 \<le> round_q ?q" "round_q ?q \<le> 1"
    using r64.rnd_le_nat [of ?q 1] by (auto intro: round_q_nonneg)
  have "to_f64 ?q = Fin (round_q ?q)"
    using q by (intro to_f64_in_range small_in_range) simp
  moreover have "to_f64 (round_q ?q * 100) = Fin (round_q (round_q ?q * 100))"
    using r by (intro to_f64_in_range small_in_range) simp
  ultimately show ?thesis using assms by (simp add: f64_of_nat_exact)
qed

lemma percent_below:
  assumes "a < 2 ^ 53" and "f < a"
  shows "flt (fmul (fdiv (f64_of_nat f) (f64_of_nat a)) (Fin 100)) (Fin 100)"
proof -
  have "rat_of_nat (f + 1) \<le> rat_of_nat a" "rat_of_nat a \<le> rat_of_nat (2 ^ 53)"
    using assms by (intro of_nat_mono; simp)+
  then have fa: "rat_of_nat f + 1 \<le> rat_of_nat a" "rat_of_nat a \<le> 2 ^ 53" by simp_all
  have "0 < rat_of_nat a" using assms by simp
  with fa have "rat_of_nat f / rat_of_nat a \<le> (2 ^ 53 - 1) * 2 powi (- 53)"
    by (simp add: field_simps power_int_minus)
  then have "round_q (rat_of_nat f / rat_of_nat a) \<le> round_q ((2 ^ 53 - 1) * 2 powi (- 53))"
    by (rule round_q_mono)
  also have "\<dots> = (2 ^ 53 - 1) * 2 powi (- 53)"
    using round_q_representable_pos [of "2 ^ 53 - 1" "- 53"] by simp
  finally have "round_q (round_q (rat_of_nat f / rat_of_nat a) * 100) \<le>
      round_q ((2 ^ 53 - 1) * 2 powi (- 53) * 100)"
    by (intro round_q_mono) simp
  also have "\<dots> < 100" by (simp add: f64_eval)
  finally show ?thesis using percent_exact [of a f] assms by simp
qed

lemma percent_range:
  assumes "0 < a" and "a < 2 ^ 53" and "f \<le> a"
  shows "Fin 0 \<le> fmul (fdiv (f64_of_nat f) (f64_of_nat a)) (Fin 100) \<and>
    fmul (fdiv (f64_of_nat f) (f64_of_nat a)) (Fin 100) \<le> Fin 100"
proof -
  define q where "q = rat_of_nat f / rat_of_nat a"
  have "0 \<le> q" "q \<le> 1" using assms by (simp_all add: q_def)
  then have "0 \<le> round_q q" "round_q q \<le> 1"
    using r64.rnd_le_nat [of q 1] by (auto intro: round_q_nonneg)
  then have "0 \<le> round_q (round_q q * 100)" "round_q (round_q q * 100) \<le> round_q 100"
    by (intro round_q_nonneg round_q_mono; simp)+
  then show ?thesis using percent_exact [OF assms] by (simp add: q_def round_q_hundred)
qed

lemma Loss_range:
  assumes "unat (Attempts s) < 2 ^ 53" and "unat (Failures s) \<le> unat (Attempts s)"
  shows "Fin 0 \<le> LossPercent s \<and> LossPercent s \<le> Fin 100"
  using assms percent_range [of "unat (Attempts s)" "unat (Failures s)"]
  by (simp add: LossPercent_def unat_gt_0)

lemma Loss_full:
  assumes "unat (Attempts s) < 2 ^ 53" and "unat (Failures s) \<le> unat (Attempts s)"
  shows "fle (Fin 100) (LossPercent s) \<longleftrightarrow> Attempts s \<noteq> 0 \<and> Failures s = Attempts s"
proof (cases "Attempts s = 0 \<or> Failures s = Attempts s")
  case True
  have "fmul (fdiv (f64_of_nat a) (f64_of_nat a)) (Fin 100) = Fin 100" if "0 < a" "a < 2 ^ 53" for a
    using that percent_exact [of a a] round_q_of_nat [of 1] by (simp add: round_q_hundred)
  with True assms show ?thesis by (auto simp: LossPercent_def fle_def unat_gt_0)
next
  case False
  then have "unat (Failures s) < unat (Attempts s)" using assms(2) by (simp add: le_neq_implies_less word_unat_eq_iff)
  then have "flt (LossPercent s) (Fin 100)"
    using percent_below [OF assms(1)] False by (simp add: LossPercent_def)
  then show ?thesis using False by (auto simp: fle_def flt_iff_less)
qed

lemma nonneg_to_f64: "0 \<le> q \<Longrightarrow> Fin 0 \<le> to_f64 q \<and> to_f64 q \<noteq> NaN"
  by (simp add: to_f64_nonneg)

lemma fsub_nonneg:
  "Fin b \<le> a \<Longrightarrow> a \<noteq> NaN \<Longrightarrow> Fin 0 \<le> fsub a (Fin b) \<and> fsub a (Fin b) \<noteq> NaN"
  using nonneg_to_f64 [of "case a of Fin q \<Rightarrow> q - b | _ \<Rightarrow> 0"]
  by (cases a) (auto simp: fsub_def less_eq_f64_def)

lemma ms_nonneg: "Fin 0 \<le> x \<Longrightarrow> x \<noteq> NaN \<Longrightarrow> Fin 0 \<le> ms x \<and> ms x \<noteq> NaN"
  using nonneg_to_f64 [of "case x of Fin q \<Rightarrow> q * 1000 | _ \<Rightarrow> 0"]
  by (cases x) (auto simp: ms_def less_eq_f64_def)

section \<open>Latency alerts\<close>

text \<open>The latency alerts alternate, starting from the flag \<open>HighLatency\<close>; the result is the flag
  after them, or \<open>None\<close> when they do not alternate or an alert is below its threshold.\<close>

fun latency_flag :: "bool \<Rightarrow> alert list \<Rightarrow> bool option" where
  "latency_flag b [] = Some b"
| "latency_flag b (HighLatencyAlert ewma base # al) =
     (if \<not> b \<and> flt (latency_threshold base) ewma then latency_flag True al else None)"
| "latency_flag b (LatencyNormal ewma # al) = (if b then latency_flag False al else None)"
| "latency_flag b (_ # al) = latency_flag b al"

lemma latency_flag_append:
  "latency_flag b (xs @ ys) = Option.bind (latency_flag b xs) (\<lambda>c. latency_flag c ys)"
  by (induction b xs rule: latency_flag.induct) auto

lemma latency_flag_Observe:
  "latency_flag (HighLatency d) (snd (Diag_Observe d x rtt)) = Some (HighLatency (fst (Diag_Observe d x rtt)))"
proof (cases x)
  case True
  then show ?thesis by (auto simp: Observe_success latency_flag_append observe_latency_def Let_def)
next
  case False
  then show ?thesis by (simp add: Diag_Observe_def observe_failure_def Let_def)
qed

section \<open>Properties\<close>

text \<open>C7: outage detection. After any history of fewer than \<open>2 ^ 64\<close> observations, the counters
  and the DOWN/RECOVERED alerts are those of the maximal runs of failures of the history: an outage
  for each run of at least three, the longest streak is the longest run, the link is down while the
  last run has at least three, and each declared outage raises one DOWN, then (when it ends) one
  RECOVERED with its length.\<close>

theorem outages_of_history:
  assumes "length rs < 2 ^ 64"
  shows "unat (Outages (fst (observe_all (Diag_Init s) rs))) =
      length (filter (\<lambda>n. 3 \<le> n) (fail_runs (map fst rs))) \<and>
    unat (LongestFailStreak (fst (observe_all (Diag_Init s) rs))) =
      Max (insert 0 (set (fail_runs (map fst rs)))) \<and>
    IsDown (fst (observe_all (Diag_Init s) rs)) = (3 \<le> streak (map fst rs)) \<and>
    filter link_alert (snd (observe_all (Diag_Init s) rs)) = outage_alerts (map fst rs)"
  using observe_all_tracks [OF assms, of s] observe_all_alerts [OF assms, of s]
  unfolding tracks_def by blast

theorem outages_of_history_witness:
  "unat (Outages (fst (observe_all (Diag_Init True)
     (map (\<lambda>b. (b, Fin 1)) [False, False, True, False, False, False, False, True])))) = 1"
  using outages_of_history [of "map (\<lambda>b. (b, Fin 1)) [False, False, True, False, False, False, False, True]" True]
  by simp

text \<open>C26: latency alerts. In every run, HIGH LATENCY and LATENCY NORMAL alerts alternate, starting
  with HIGH LATENCY, each HIGH LATENCY alert reports a smoothed latency above the threshold of the
  baseline it reports, and \<open>HighLatency\<close> tells which of the two came last.\<close>

theorem latency_alerts_alternate:
  "latency_flag False (snd (observe_all (Diag_Init s) rs)) =
     Some (HighLatency (fst (observe_all (Diag_Init s) rs)))"
proof (induction rs rule: rev_induct)
  case Nil
  show ?case by (simp add: Diag_Init_def)
next
  case (snoc r rs)
  then show ?case by (simp add: observe_all_snoc latency_flag_append latency_flag_Observe)
qed



text \<open>bufferbloat. On well-formed statistics whose minimum is below the retained samples, the
  estimate is negative, hence reported as n/a, exactly when there are too few samples: a real
  spread is never taken for the sentinel \<open>-1\<close>.\<close>

theorem Bufferbloat_sentinel:
  assumes "stats_inv s" and "NaN \<notin> set (valid_samples s)" and "Minimum s = Fin m"
    and "\<And>v. v \<in> set (valid_samples s) \<Longrightarrow> Fin m \<le> v"
  shows "BloatName (BufferbloatMs True s) = ''n/a'' \<longleftrightarrow> Connects s = 0 \<or> SampleCount s < 5"
proof (cases "Connects s = 0 \<or> SampleCount s < 5")
  case True
  then show ?thesis by (simp add: BufferbloatMs_def BloatName_def)
next
  case False
  let ?p = "Stats_Percentile True s (Fin 95)"
  have count: "length (valid_samples s) = SampleCount s" using assms(1) by (rule valid_samples_count)
  then have ne: "valid_samples s \<noteq> []" "0 < length (valid_samples s)" using False by auto
  have "?p \<in> set (valid_samples s)"
    unfolding Percentile_eq [OF assms(1,2) ne(1)]
    using percentile_index_less [OF ne(2)] by (metis length_sort nth_mem set_sort)
  then have "Fin m \<le> ?p" "?p \<noteq> NaN" using assms(2,4) by auto
  then have "Fin 0 \<le> ms (fsub ?p (Fin m))" by (intro ms_nonneg [THEN conjunct1]) (simp_all add: fsub_nonneg)
  then have "\<not> flt (BufferbloatMs True s) (Fin 0)"
    using False assms(3) by (simp add: BufferbloatMs_def flt_iff_less not_less)
  then show ?thesis using False by (simp add: BloatName_def)
qed

theorem Bufferbloat_sentinel_witness:
  "BloatName (BufferbloatMs True (Stats_Init\<lparr>Connects := 2, Minimum := Fin 1\<rparr>)) = ''n/a''"
proof -
  let ?s = "Stats_Init\<lparr>Connects := 2, Minimum := Fin 1\<rparr>"
  have s: "SampleCount ?s = 0" "Connects ?s = 2" "Minimum ?s = Fin 1" "stats_inv ?s" "valid_samples ?s = []"
    by (simp_all add: Stats_Init_def Stats_Reset_def stats_inv_def valid_samples_def cap_ok_def)
  show ?thesis using Bufferbloat_sentinel [OF s(4) _ s(3)] s by simp
qed

end
