(* ===== verification/Standard.thy ===== *)
theory Standard
  imports Clib
begin

text \<open>
  \<open>standard.h\<close>: the result codes, the protocol numbers and \<open>host_t\<close>. A socket address is its family
  with the address as one word in host order and the port, so \<open>AddrFamilies\<close>, \<open>AddrLens\<close> and
  \<open>AddrCount\<close> of \<open>host_t\<close> are read off the list \<open>Addrs\<close> of its valid entries. Values of \<open>int32_t\<close> are
  integers; a conversion from \<open>long\<close> wraps (\<open>int32\<close>, \<open>uint32\<close>, \<open>uint16\<close>).
\<close>

abbreviation SUCCESS :: int where "SUCCESS \<equiv> 0"
abbreviation PINGDD_OUTOFMEMORY :: int where "PINGDD_OUTOFMEMORY \<equiv> 100"
abbreviation PINGDD_SOCKET_TIMEOUT :: int where "PINGDD_SOCKET_TIMEOUT \<equiv> 101"
abbreviation PINGDD_SOCKET_RESOLVE :: int where "PINGDD_SOCKET_RESOLVE \<equiv> 102"
abbreviation PINGDD_SOCKET_FAILURE :: int where "PINGDD_SOCKET_FAILURE \<equiv> 103"
abbreviation PINGDD_SOCKET_CLOSED :: int where "PINGDD_SOCKET_CLOSED \<equiv> 104"
abbreviation PINGDD_SOCKET_UNREACH :: int where "PINGDD_SOCKET_UNREACH \<equiv> 105"
abbreviation PINGDD_UDP_OPENFILTERED :: int where "PINGDD_UDP_OPENFILTERED \<equiv> 106"
abbreviation PINGDD_INTERRUPTED :: int where "PINGDD_INTERRUPTED \<equiv> 107"
abbreviation PINGDD_INVALID_ARGS :: int where "PINGDD_INVALID_ARGS \<equiv> 200"

abbreviation IPPROTO_ICMP :: int where "IPPROTO_ICMP \<equiv> 1"
abbreviation IPPROTO_TCP :: int where "IPPROTO_TCP \<equiv> 6"
abbreviation IPPROTO_UDP :: int where "IPPROTO_UDP \<equiv> 17"

abbreviation MAX_RESOLVED_ADDRS :: nat where "MAX_RESOLVED_ADDRS \<equiv> 16"
abbreviation INT32_MAX :: int where "INT32_MAX \<equiv> 2147483647"

definition int32 :: "int \<Rightarrow> int" where
  "int32 v = (v + 2147483648) mod 4294967296 - 2147483648"

definition uint32 :: "int \<Rightarrow> u32" where
  "uint32 v = word_of_int v"

definition uint16 :: "int \<Rightarrow> u16" where
  "uint16 v = word_of_int v"

datatype sockaddr =
    Inet u32 u16
  | Inet6 "128 word" u16
  | OtherFamily int

record host_t =
  IPAddress :: cstring
  Hostname :: cstring
  ReverseName :: cstring
  Asn :: cstring
  AsnOrg :: cstring
  Addrs :: "sockaddr list"
  HostPort :: u16
  HostType :: int

definition blank_host :: host_t where
  "blank_host =
     \<lparr>IPAddress = [], Hostname = [], ReverseName = [], Asn = [], AsnOrg = [], Addrs = [],
      HostPort = 0, HostType = 0\<rparr>"

lemma int32_id [simp]: "- 2147483648 \<le> v \<Longrightarrow> v \<le> 2147483647 \<Longrightarrow> int32 v = v"
  by (simp add: int32_def)

lemma uint_uint32 [simp]: "0 \<le> v \<Longrightarrow> v < 4294967296 \<Longrightarrow> uint (uint32 v) = v"
  by (simp add: uint32_def uint_word_of_int)

lemma uint_uint16 [simp]: "0 \<le> v \<Longrightarrow> v < 65536 \<Longrightarrow> uint (uint16 v) = v"
  by (simp add: uint16_def uint_word_of_int)

end
