(* ===== verification/Arguments.thy ===== *)
theory Arguments
  imports Standard
begin

text \<open>
  \<open>arguments.h\<close>: the record of the parsed options and its defaults. A pointer that may be null is an
  option; the arrays \<open>Hosts\<close> and \<open>TargetSpecs\<close> are the lists of their valid entries, so
  \<open>HostCount\<close> and \<open>TargetSpecCount\<close> are lengths.
\<close>

record arguments_t =
  ArgPort :: u16
  Timeout :: u32
  Count :: int
  Continuous :: bool
  UseColor :: bool
  CSVOutput :: bool
  Destination :: "cstring option"
  ArgType :: int
  Rate :: u32
  Deadline :: u32
  Quiet :: bool
  Audible :: bool
  Json :: bool
  JsonFile :: bool
  ForceColor :: bool
  Monitor :: bool
  LoadTest :: bool
  Resilience :: bool
  Concurrency :: u32
  DurationMs :: u32
  Hosts :: "cstring list"
  PortSpec :: "cstring option"
  ProtoSpec :: "cstring option"
  TargetSpecs :: "cstring list"
  TargetsFile :: "cstring option"
  Interface :: "cstring option"
  Concurrent :: bool
  ResolveOpt :: bool
  Tos :: int
  Prometheus :: bool
  Traceroute :: bool
  MaxHops :: int
  Queries :: int
  HttpUrl :: "cstring option"
  HttpMethod :: cstring
  HttpStatus :: int

abbreviation MAX_HOSTS :: nat where "MAX_HOSTS \<equiv> 64"
abbreviation MAX_TARGET_SPECS :: nat where "MAX_TARGET_SPECS \<equiv> 64"

definition InitDefaults :: arguments_t where
  "InitDefaults =
     \<lparr>ArgPort = 0, Timeout = 1000, Count = - 1, Continuous = True, UseColor = True,
      CSVOutput = False, Destination = None, ArgType = IPPROTO_TCP, Rate = 0, Deadline = 0,
      Quiet = False, Audible = False, Json = False, JsonFile = False, ForceColor = False,
      Monitor = False, LoadTest = False, Resilience = False, Concurrency = 10, DurationMs = 0,
      Hosts = [], PortSpec = None, ProtoSpec = None, TargetSpecs = [], TargetsFile = None,
      Interface = None, Concurrent = False, ResolveOpt = False, Tos = - 1, Prometheus = False,
      Traceroute = False, MaxHops = 30, Queries = 3, HttpUrl = None, HttpMethod = ''GET'',
      HttpStatus = 0\<rparr>"

text \<open>\<open>ParseLong\<close> of \<open>arguments.c\<close>, and \<open>ParseLongValue\<close> of \<open>config.c\<close>, which has the same body.\<close>

definition ParseLong :: "cstring \<Rightarrow> int option" where
  "ParseLong text =
     (if text = [] then None
      else let p = strtol text
           in if lp_erange p \<or> \<not> lp_moved p \<or> lp_end p \<noteq> [] then None else Some (lp_value p))"

definition ParseLongValue :: "cstring \<Rightarrow> int option" where
  "ParseLongValue text =
     (if text = [] then None
      else let p = strtol text
           in if lp_erange p \<or> \<not> lp_moved p \<or> lp_end p \<noteq> [] then None else Some (lp_value p))"

lemma ParseLongValue_eq [simp]: "ParseLongValue = ParseLong"
  by (simp add: fun_eq_iff ParseLongValue_def ParseLong_def)

lemma ParseLong_dec: "int n \<le> LONG_MAX \<Longrightarrow> ParseLong (dec n) = Some (int n)"
  using strtol_dec_append [of n "[]"] by (simp add: ParseLong_def Let_def)

text \<open>The values the parsers accept: what every layer keeps.\<close>

definition args_ok :: "arguments_t \<Rightarrow> bool" where
  "args_ok a \<longleftrightarrow>
     1 \<le> uint (Timeout a) \<and> uint (Timeout a) \<le> 3600000 \<and>
     - 1 \<le> Count a \<and> Count a \<le> INT32_MAX \<and>
     uint (Rate a) \<le> 3600000 \<and> uint (Deadline a) \<le> 86400000 \<and>
     1 \<le> uint (Concurrency a) \<and> uint (Concurrency a) \<le> 256 \<and>
     uint (DurationMs a) \<le> 3600000 \<and> uint (DurationMs a) mod 1000 = 0 \<and>
     - 1 \<le> Tos a \<and> Tos a \<le> 255 \<and>
     1 \<le> MaxHops a \<and> MaxHops a \<le> 255 \<and> 1 \<le> Queries a \<and> Queries a \<le> 10 \<and>
     (HttpStatus a = 0 \<or> 100 \<le> HttpStatus a \<and> HttpStatus a \<le> 599) \<and>
     length (Hosts a) \<le> MAX_HOSTS \<and> length (TargetSpecs a) \<le> MAX_TARGET_SPECS \<and>
     Destination a = (if Hosts a = [] then None else Some (hd (Hosts a)))"

lemma InitDefaults_ok [inv_intros]: "args_ok InitDefaults"
  by (simp add: args_ok_def InitDefaults_def)

end
