(* ===== verification/Config.thy ===== *)
theory Config
  imports Arguments
begin

text \<open>
  \<open>config.c\<close>: the configuration file. \<open>fopen\<close> is an argument, from paths to contents; the static
  storage \<open>StoreString\<close> copies into is the string it holds, cut to the size of its buffer. An error
  is the message \<open>PrintError\<close> receives (\<open>Inl\<close>), a success the new arguments (\<open>Inr\<close>).
\<close>

section \<open>Operations\<close>

definition Trim :: "cstring \<Rightarrow> cstring" where
  "Trim s = rev (dropWhile isspace (rev (dropWhile isspace s)))"

definition ParseBool :: "cstring \<Rightarrow> bool option" where
  "ParseBool text =
     (if text \<in> {''true'', ''yes'', ''on'', ''1''} then Some True
      else if text \<in> {''false'', ''no'', ''off'', ''0''} then Some False else None)"

definition StoreString :: "nat \<Rightarrow> cstring \<Rightarrow> cstring option" where
  "StoreString buf_size val = Some (bounded_copy buf_size val)"

text \<open>The two shapes of a checked value: a number in a range, and a Boolean.\<close>

definition config_long :: "cstring \<Rightarrow> int \<Rightarrow> int \<Rightarrow> cstring \<Rightarrow> (int \<Rightarrow> arguments_t) \<Rightarrow> cstring + arguments_t" where
  "config_long value lo hi msg upd =
     (case ParseLongValue value of None \<Rightarrow> Inl msg
      | Some n \<Rightarrow> if n < lo \<or> n > hi then Inl msg else Inr (upd n))"

definition config_bool :: "cstring \<Rightarrow> cstring \<Rightarrow> (bool \<Rightarrow> arguments_t) \<Rightarrow> cstring + arguments_t" where
  "config_bool value msg upd = (case ParseBool value of None \<Rightarrow> Inl msg | Some b \<Rightarrow> Inr (upd b))"

definition ApplyKeyValue :: "cstring \<Rightarrow> cstring \<Rightarrow> arguments_t \<Rightarrow> cstring + arguments_t" where
  "ApplyKeyValue key value args =
     (if key = ''port'' then Inr (args\<lparr>PortSpec := StoreString 64 value\<rparr>)
      else if key = ''protocol'' then Inr (args\<lparr>ProtoSpec := StoreString 64 value\<rparr>)
      else if key = ''interface'' then Inr (args\<lparr>Interface := StoreString 128 value\<rparr>)
      else if key = ''timeout'' then
        config_long value 1 3600000 ''Config: 'timeout' must be 1..3600000''
          (\<lambda>n. args\<lparr>Timeout := uint32 n\<rparr>)
      else if key = ''count'' then
        config_long value (- 1) INT32_MAX ''Config: 'count' must be -1 or >= 0''
          (\<lambda>n. args\<lparr>Count := int32 n\<rparr>)
      else if key = ''rate'' then
        config_long value 0 3600000 ''Config: 'rate' must be 0..3600000''
          (\<lambda>n. args\<lparr>Rate := uint32 n\<rparr>)
      else if key = ''deadline'' then
        config_long value 1 86400000 ''Config: 'deadline' must be 1..86400000''
          (\<lambda>n. args\<lparr>Deadline := uint32 n\<rparr>)
      else if key = ''color'' then
        config_bool value ''Config: 'color' must be a boolean''
          (\<lambda>b. args\<lparr>UseColor := b, ForceColor := b\<rparr>)
      else if key = ''quiet'' then
        config_bool value ''Config: 'quiet' must be a boolean'' (\<lambda>b. args\<lparr>Quiet := b\<rparr>)
      else if key = ''audible'' then
        config_bool value ''Config: 'audible' must be a boolean'' (\<lambda>b. args\<lparr>Audible := b\<rparr>)
      else if key = ''json'' then
        config_bool value ''Config: 'json' must be a boolean''
          (\<lambda>b. if b then args\<lparr>Json := b, UseColor := False\<rparr> else args\<lparr>Json := b\<rparr>)
      else if key = ''csv'' then
        config_bool value ''Config: 'csv' must be a boolean'' (\<lambda>b. args\<lparr>CSVOutput := b\<rparr>)
      else if key = ''concurrent'' then
        config_bool value ''Config: 'concurrent' must be a boolean'' (\<lambda>b. args\<lparr>Concurrent := b\<rparr>)
      else if key = ''tos'' then
        config_long value 0 255 ''Config: 'tos' must be 0..255'' (\<lambda>n. args\<lparr>Tos := int32 n\<rparr>)
      else if key = ''resolve'' then
        config_bool value ''Config: 'resolve' must be a boolean'' (\<lambda>b. args\<lparr>ResolveOpt := b\<rparr>)
      else Inl (bounded_copy 160 (''Config: unknown key '' @ quoted key)))"

definition Config_DefaultPath :: "cstring option \<Rightarrow> nat \<Rightarrow> cstring option" where
  "Config_DefaultPath home out_size =
     (if out_size = 0 then None
      else case home of None \<Rightarrow> None
        | Some h \<Rightarrow> if h = [] then None else Some (bounded_copy out_size (h @ ''/.pingdd'')))"

text \<open>The inline-comment step: the text before the first \<open>#\<close> or \<open>;\<close>, whichever comes first.\<close>

definition strip_comment :: "cstring \<Rightarrow> cstring" where
  "strip_comment line =
     (case strchr CHR ''#'' line of
        Some (before_hash, _) \<Rightarrow>
          (case strchr CHR '';'' line of
             None \<Rightarrow> before_hash
           | Some (before_semi, _) \<Rightarrow>
               if length before_hash < length before_semi then before_hash else before_semi)
      | None \<Rightarrow> (case strchr CHR '';'' line of None \<Rightarrow> line | Some (before_semi, _) \<Rightarrow> before_semi))"

definition config_line :: "nat \<Rightarrow> cstring \<Rightarrow> arguments_t \<Rightarrow> cstring + arguments_t" where
  "config_line lineno line args =
     (let trimmed = Trim (strip_comment line)
      in if trimmed = [] then Inr args
         else case strchr CHR ''='' trimmed of
             None \<Rightarrow> Inl (''Config: line '' @ dec lineno @ '' is not '' @ quoted ''key = value'')
           | Some (k, v) \<Rightarrow>
               (let key = Trim k; value = Trim v
                in if key = [] \<or> value = []
                   then Inl (''Config: line '' @ dec lineno @ '' has an empty key or value'')
                   else ApplyKeyValue key value args))"

fun config_lines :: "nat \<Rightarrow> cstring list \<Rightarrow> arguments_t \<Rightarrow> cstring + arguments_t" where
  "config_lines lineno [] args = Inr args"
| "config_lines lineno (line # rest) args =
     (case config_line (lineno + 1) (cstr line) args of
        Inl msg \<Rightarrow> Inl msg
      | Inr args' \<Rightarrow> config_lines (lineno + 1) rest args')"

definition Config_Load ::
  "(cstring \<Rightarrow> char list option) \<Rightarrow> cstring \<Rightarrow> arguments_t \<Rightarrow> bool \<Rightarrow> cstring + arguments_t" where
  "Config_Load fopen path arguments required =
     (case fopen path of
        None \<Rightarrow> if required then Inl (bounded_copy 256 (''Error: cannot open config file '' @ quoted path))
                else Inr arguments
      | Some content \<Rightarrow> config_lines 0 (file_lines 512 content) arguments)"

section \<open>Trimming, comments and lines\<close>

lemma Trim_space [simp]: "(\<And>c. c \<in> set s \<Longrightarrow> isspace c) \<Longrightarrow> Trim s = []"
proof -
  assume "\<And>c. c \<in> set s \<Longrightarrow> isspace c"
  then have s: "dropWhile isspace s = []" by simp
  show "Trim s = []" unfolding Trim_def s by simp
qed

lemma Trim_Nil [simp]: "Trim [] = []"
  by (simp add: Trim_def)

lemma Trim_ends:
  assumes "Trim s \<noteq> []"
  shows "\<not> isspace (hd (Trim s)) \<and> \<not> isspace (last (Trim s))"
proof -
  let ?u = "dropWhile isspace s"
  have r: "dropWhile isspace (rev ?u) \<noteq> []" using assms by (simp add: Trim_def)
  then have last: "\<not> isspace (last (Trim s))" by (metis Trim_def hd_dropWhile last_rev)
  obtain p where p: "rev ?u = p @ dropWhile isspace (rev ?u)" by (metis takeWhile_dropWhile_id)
  then have "?u = Trim s @ rev p" by (metis Trim_def rev_append rev_rev_ident)
  moreover have "?u \<noteq> []" using r by (cases ?u) simp_all
  then have "\<not> isspace (hd ?u)" by (rule hd_dropWhile)
  ultimately show ?thesis using last assms by (metis hd_append2)
qed

lemma Trim_id: "s = [] \<or> (\<not> isspace (hd s) \<and> \<not> isspace (last s)) \<Longrightarrow> Trim s = s"
  by (auto simp: Trim_def dropWhile_id hd_rev)

lemma Trim_pad:
  assumes "\<And>c. c \<in> set a \<union> set b \<Longrightarrow> isspace c" and "s \<noteq> []" and "\<not> isspace (hd s)" and "\<not> isspace (last s)"
  shows "Trim (a @ s @ b) = s"
proof -
  have "dropWhile isspace (a @ s @ b) = s @ b"
    using assms by (cases s) (auto simp: dropWhile_append)
  moreover have "dropWhile isspace (rev b @ rev s) = rev s"
    using assms by (cases s rule: rev_cases) (auto simp: dropWhile_append)
  ultimately show ?thesis by (simp add: Trim_def)
qed

lemma set_Trim: "set (Trim s) \<subseteq> set s"
  by (auto simp: Trim_def dest!: set_dropWhileD)

lemma strip_comment_takeWhile: "strip_comment line = takeWhile (\<lambda>c. c \<noteq> CHR ''#'' \<and> c \<noteq> CHR '';'') line"
proof (induction line)
  case (Cons c cs)
  then show ?case
    by (auto simp: strip_comment_def strchr_def split: option.splits if_splits)
qed (simp add: strip_comment_def strchr_def)

section \<open>Accepted values\<close>

lemma config_long_Inr:
  "config_long v lo hi msg upd = Inr a \<longleftrightarrow> (\<exists>n. ParseLong v = Some n \<and> lo \<le> n \<and> n \<le> hi \<and> a = upd n)"
  by (auto simp: config_long_def split: option.splits)

lemma config_bool_Inr: "config_bool v msg upd = Inr a \<longleftrightarrow> (\<exists>b. ParseBool v = Some b \<and> a = upd b)"
  by (auto simp: config_bool_def split: option.splits)

lemmas config_value_simps = config_long_Inr config_bool_Inr

lemma ApplyKeyValue_ok [inv_intros]:
  "ApplyKeyValue key value args = Inr args' \<Longrightarrow> args_ok args \<Longrightarrow> args_ok args'"
  by (auto simp: ApplyKeyValue_def config_value_simps split: if_splits; simp add: args_ok_def)

lemma config_line_ok: "config_line n line args = Inr args' \<Longrightarrow> args_ok args \<Longrightarrow> args_ok args'"
  by (auto simp: config_line_def Let_def intro: ApplyKeyValue_ok split: if_splits option.splits)

lemma config_lines_ok: "config_lines n ls args = Inr args' \<Longrightarrow> args_ok args \<Longrightarrow> args_ok args'"
  by (induction ls arbitrary: n args) (auto split: sum.splits intro: config_line_ok)

lemma Config_Load_ok [inv_intros]:
  "Config_Load fopen path args required = Inr args' \<Longrightarrow> args_ok args \<Longrightarrow> args_ok args'"
  by (auto simp: Config_Load_def split: option.splits if_splits intro: config_lines_ok)

text \<open>What no configuration file can change.\<close>

definition cli_only :: "arguments_t \<Rightarrow> arguments_t \<Rightarrow> bool" where
  "cli_only a b \<longleftrightarrow> Hosts a = Hosts b \<and> Destination a = Destination b \<and> TargetSpecs a = TargetSpecs b \<and>
     TargetsFile a = TargetsFile b \<and> HttpUrl a = HttpUrl b \<and> HttpMethod a = HttpMethod b \<and>
     HttpStatus a = HttpStatus b \<and> Monitor a = Monitor b \<and> LoadTest a = LoadTest b \<and>
     Resilience a = Resilience b \<and> Traceroute a = Traceroute b \<and> MaxHops a = MaxHops b \<and>
     Queries a = Queries b \<and> Concurrency a = Concurrency b \<and> DurationMs a = DurationMs b \<and>
     JsonFile a = JsonFile b \<and> Prometheus a = Prometheus b"

lemma cli_only_refl [simp]: "cli_only a a"
  by (simp add: cli_only_def)

lemma ApplyKeyValue_cli: "ApplyKeyValue key value args = Inr args' \<Longrightarrow> cli_only args' args"
  by (auto simp: ApplyKeyValue_def cli_only_def config_value_simps split: if_splits)

lemma config_lines_cli: "config_lines n ls args = Inr args' \<Longrightarrow> cli_only args' args"
proof (induction ls arbitrary: n args)
  case (Cons l ls)
  then obtain a where a: "config_line (n + 1) (cstr l) args = Inr a" "config_lines (n + 1) ls a = Inr args'"
    by (auto split: sum.splits)
  then have "cli_only a args"
    by (auto simp: config_line_def Let_def dest: ApplyKeyValue_cli split: if_splits option.splits)
  with Cons.IH [OF a(2)] show ?case by (simp add: cli_only_def)
qed simp

section \<open>Writing and reading a file\<close>

text \<open>
  The grammar of the file: settings, comment lines and blank lines. A setting is well formed when its
  key and value are trimmed and free of the characters with a meaning, and fits the line buffer.
\<close>

datatype cfg_line =
    Setting cstring cstring
  | Comment cstring
  | Blank cstring

fun cfg_ok :: "cfg_line \<Rightarrow> bool" where
  "cfg_ok (Setting k v) = (k \<noteq> [] \<and> v \<noteq> [] \<and>
     set k \<inter> set [CHR ''#'', CHR '';'', CHR ''='', newline, CHR 0x00] = {} \<and>
     set v \<inter> set [CHR ''#'', CHR '';'', newline, CHR 0x00] = {} \<and>
     \<not> isspace (hd k) \<and> \<not> isspace (last k) \<and> \<not> isspace (hd v) \<and> \<not> isspace (last v) \<and>
     length k + length v \<le> 500)"
| "cfg_ok (Comment c) = (newline \<notin> set c \<and> CHR 0x00 \<notin> set c \<and> length c \<le> 500)"
| "cfg_ok (Blank w) = ((\<forall>c \<in> set w. isspace c \<and> c \<noteq> newline) \<and> length w \<le> 500)"

fun cfg_text :: "cfg_line \<Rightarrow> cstring" where
  "cfg_text (Setting k v) = k @ '' = '' @ v"
| "cfg_text (Comment c) = CHR ''#'' # c"
| "cfg_text (Blank w) = w"

fun cfg_apply :: "cfg_line \<Rightarrow> arguments_t \<Rightarrow> cstring + arguments_t" where
  "cfg_apply (Setting k v) a = ApplyKeyValue k v a"
| "cfg_apply _ a = Inr a"

fun cfg_fold :: "cfg_line list \<Rightarrow> arguments_t \<Rightarrow> cstring + arguments_t" where
  "cfg_fold [] a = Inr a"
| "cfg_fold (l # ls) a = (case cfg_apply l a of Inl m \<Rightarrow> Inl m | Inr a' \<Rightarrow> cfg_fold ls a')"

lemma isspace_newline [simp]: "isspace newline" "isspace CHR '' ''"
  by (simp_all add: isspace_def code_def)

lemma config_line_text:
  assumes "cfg_ok l"
  shows "config_line n (cfg_text l @ [newline]) a = cfg_apply l a"
proof (cases l)
  case (Setting k v)
  let ?t = "k @ '' = '' @ v"
  have "CHR ''#'' \<notin> set (?t @ [newline])" "CHR '';'' \<notin> set (?t @ [newline])"
    using assms Setting by auto
  then have "strip_comment (?t @ [newline]) = ?t @ [newline]"
    unfolding strip_comment_takeWhile by (intro takeWhile_eq_all_conv [THEN iffD2]) auto
  moreover have "Trim (?t @ [newline]) = ?t"
    using Trim_pad [of "[]" "[newline]" ?t] assms Setting by auto
  moreover have "strchr CHR ''='' (k @ '' = '' @ v) = Some (k @ '' '', CHR '' '' # v)"
    using strchr_append [of "CHR ''=''" "k @ '' ''" "CHR '' '' # v"] assms Setting by auto
  moreover have "Trim (k @ '' '') = k" "Trim (CHR '' '' # v) = v"
    using Trim_pad [of "[]" "'' ''" k] Trim_pad [of "'' ''" "[]" v] assms Setting by auto
  ultimately show ?thesis using assms Setting by (simp add: config_line_def Let_def)
next
  case (Comment c)
  then show ?thesis by (simp add: config_line_def strip_comment_takeWhile Let_def)
next
  case (Blank w)
  have w: "\<forall>c \<in> set w. isspace c" using assms Blank by simp
  have "isspace c" if "c \<in> set (takeWhile P (w @ [newline]))" for c P
  proof -
    have "c \<in> set w \<or> c = newline" using set_takeWhileD [OF that] by auto
    then show ?thesis using w by (elim disjE) simp_all
  qed
  then have "Trim (strip_comment (w @ [newline])) = []"
    unfolding strip_comment_takeWhile by (intro Trim_space)
  then show ?thesis unfolding Blank config_line_def cfg_text.simps Let_def by simp
qed

lemma cfg_text_ok: "cfg_ok l \<Longrightarrow> newline \<notin> set (cfg_text l) \<and> CHR 0x00 \<notin> set (cfg_text l) \<and> length (cfg_text l) \<le> 503"
proof (cases l)
  case (Blank w)
  moreover assume "cfg_ok l"
  moreover have "\<not> isspace CHR 0x00" by (simp add: isspace_def code_def)
  ultimately show ?thesis by auto
qed auto

lemma config_lines_file:
  "\<forall>l \<in> set ls. cfg_ok l \<Longrightarrow>
   config_lines n (file_lines 512 (concat (map (\<lambda>l. cfg_text l @ [newline]) ls))) a = cfg_fold ls a"
proof (induction ls arbitrary: n a)
  case (Cons l ls)
  have ok: "newline \<notin> set (cfg_text l)" "CHR 0x00 \<notin> set (cfg_text l)" "length (cfg_text l) + 1 < 512"
    using cfg_text_ok [of l] Cons.prems by auto
  then have "cstr (cfg_text l @ [newline]) = cfg_text l @ [newline]" by (intro cstr_id) simp
  with Cons ok show ?case
    by (simp add: file_lines_line config_line_text split: sum.split)
qed simp

section \<open>Properties\<close>

text \<open>C12: the configuration file. A file made of settings, comment lines and blank lines, each within
  the line buffer, loads as its settings applied in order to the given arguments, the first rejected
  setting stopping the load with its message; what it leaves stays within the documented ranges.\<close>

theorem Config_Load_file:
  assumes "\<forall>l \<in> set ls. cfg_ok l"
    and "fopen path = Some (concat (map (\<lambda>l. cfg_text l @ [newline]) ls))"
  shows "Config_Load fopen path a required = cfg_fold ls a \<and>
    (args_ok a \<longrightarrow> (case Config_Load fopen path a required of Inl _ \<Rightarrow> True | Inr a' \<Rightarrow> args_ok a'))"
  using config_lines_file [OF assms(1)] Config_Load_ok [of fopen path a required] assms(2)
  by (auto simp: Config_Load_def split: sum.splits)

theorem Config_Load_file_witness:
  "Config_Load (\<lambda>p. Some (''timeout = 250'' @ [newline] @ ''# slow link'' @ [newline])) ''rc'' InitDefaults True =
     Inr (InitDefaults\<lparr>Timeout := 250\<rparr>)"
proof -
  let ?ls = "[Setting ''timeout'' ''250'', Comment '' slow link'']"
  have ok: "\<forall>l \<in> set ?ls. cfg_ok l" by (simp add: isspace_def code_def)
  have f: "(\<lambda>p. Some (''timeout = 250'' @ [newline] @ ''# slow link'' @ [newline])) ''rc'' =
      Some (concat (map (\<lambda>l. cfg_text l @ [newline]) ?ls))" by simp
  have "cfg_fold ?ls InitDefaults = Inr (InitDefaults\<lparr>Timeout := 250\<rparr>)"
    using ParseLong_dec [of 250]
    by (simp add: ApplyKeyValue_def config_long_def uint32_def c_lib_simps ParseLong_def)
  then show ?thesis using Config_Load_file [OF ok, where path = "''rc''"] f by simp
qed

text \<open>precedence. Loading any configuration file, well formed or not, never changes what only the
  command line sets (destinations, HTTP options, modes and their parameters), and keeps the
  arguments within the documented ranges.\<close>

theorem Config_Load_frame:
  assumes "Config_Load fopen path a required = Inr a'" and "args_ok a"
  shows "cli_only a' a \<and> args_ok a'"
  using assms Config_Load_ok config_lines_cli
  by (auto simp: Config_Load_def split: option.splits if_splits)

theorem Config_Load_frame_witness:
  "\<exists>a'. Config_Load (\<lambda>p. Some ''csv = on'') ''rc'' InitDefaults True = Inr a' \<and> cli_only a' InitDefaults"
proof -
  have "Config_Load (\<lambda>p. Some ''csv = on'') ''rc'' InitDefaults True = Inr (InitDefaults\<lparr>CSVOutput := True\<rparr>)"
    by (simp add: Config_Load_def c_lib_simps config_line_def Trim_def strip_comment_def
        ApplyKeyValue_def config_bool_def ParseBool_def)
  then show ?thesis using Config_Load_frame [OF _ InitDefaults_ok] by blast
qed

end
