(* ===== verification/CommandLine.thy ===== *)
theory CommandLine
  imports Config
begin

text \<open>
  \<open>arguments.c\<close>: the command line. An argument vector is the list of its strings without the program
  name. The loop of \<open>ProcessArguments\<close> is \<open>parse_args\<close>; the chain of comparisons of its body is
  split into the options without a value (\<open>flag_option\<close>), the options with one
  (\<open>missing_value\<close>, \<open>apply_value\<close>) and the positional arguments. The outcomes are the parsed
  arguments, the two early exits, and a rejection with the message \<open>PrintError\<close> receives.
\<close>

section \<open>Options\<close>

datatype outcome =
    Parsed arguments_t
  | HelpExit
  | VersionExit
  | Invalid cstring

definition flag_option :: "cstring \<Rightarrow> arguments_t \<Rightarrow> arguments_t option" where
  "flag_option arg a =
     (if arg = ''--concurrent'' then Some (a\<lparr>Concurrent := True\<rparr>)
      else if arg = ''--no-config'' then Some a
      else if arg = ''--resolve'' then Some (a\<lparr>ResolveOpt := True\<rparr>)
      else if arg = ''--traceroute'' then Some (a\<lparr>Traceroute := True\<rparr>)
      else if arg = ''-q'' \<or> arg = ''--quiet'' then Some (a\<lparr>Quiet := True\<rparr>)
      else if arg = ''-a'' \<or> arg = ''--audible'' then Some (a\<lparr>Audible := True\<rparr>)
      else if arg = ''--json'' then Some (a\<lparr>Json := True, UseColor := False\<rparr>)
      else if arg = ''--json-file'' then Some (a\<lparr>JsonFile := True\<rparr>)
      else if arg = ''--prometheus'' then Some (a\<lparr>Prometheus := True, UseColor := False\<rparr>)
      else if arg = ''--color'' then Some (a\<lparr>ForceColor := True\<rparr>)
      else if arg = ''--monitor'' then Some (a\<lparr>Monitor := True\<rparr>)
      else if arg = ''--load-test'' then Some (a\<lparr>LoadTest := True\<rparr>)
      else if arg = ''--resilience'' then Some (a\<lparr>Resilience := True\<rparr>)
      else if arg = ''--no-color'' then Some (a\<lparr>UseColor := False\<rparr>)
      else if arg = ''--csv'' then Some (a\<lparr>CSVOutput := True\<rparr>)
      else None)"

text \<open>The options that take a value, with the message for a missing one.\<close>

definition missing_value :: "cstring \<Rightarrow> cstring option" where
  "missing_value arg =
     (if arg = ''-p'' \<or> arg = ''--port'' then Some ''Error: -p/--port requires a port, list, or range''
      else if arg = ''-t'' \<or> arg = ''--timeout'' then Some ''Error: -t/--timeout requires value''
      else if arg = ''-c'' \<or> arg = ''--count'' then Some ''Error: -c/--count requires value''
      else if arg = ''-w'' \<or> arg = ''--deadline'' then Some ''Error: -w/--deadline requires value''
      else if arg = ''-P'' \<or> arg = ''--protocol''
        then Some ''Error: -P/--protocol requires a value (TCP, UDP, or ICMP)''
      else if arg = ''--target'' then Some ''Error: --target requires a spec (host:port/proto)''
      else if arg = ''--targets'' then Some ''Error: --targets requires a file path''
      else if arg = ''-I'' \<or> arg = ''--interface''
        then Some ''Error: -I/--interface requires an IP or interface name''
      else if arg = ''--config'' then Some ''Error: --config requires a file path''
      else if arg = ''--http''
        then Some ''Error: --http requires a URL (http(s)://host[:port][/path])''
      else if arg = ''--http-method'' then Some ''Error: --http-method requires a value (e.g. GET, HEAD)''
      else if arg = ''--http-status'' then Some ''Error: --http-status requires a value (100..599)''
      else if arg = ''--max-hops'' then Some ''Error: --max-hops requires a value (1..255)''
      else if arg = ''--queries'' then Some ''Error: --queries requires a value (1..10)''
      else if arg = ''--tos'' then Some ''Error: --tos requires a value (0..255)''
      else if arg = ''--dscp'' then Some ''Error: --dscp requires a value (0..63)''
      else if arg = ''--concurrency'' then Some ''Error: --concurrency requires value''
      else if arg = ''--duration'' then Some ''Error: --duration requires value (seconds)''
      else if arg = ''-r'' \<or> arg = ''--rate'' then Some ''Error: -r/--rate requires value''
      else None)"

definition long_option :: "cstring \<Rightarrow> int \<Rightarrow> int \<Rightarrow> cstring \<Rightarrow> (int \<Rightarrow> arguments_t) \<Rightarrow> cstring + arguments_t" where
  "long_option value lo hi msg upd =
     (case ParseLong value of None \<Rightarrow> Inl msg
      | Some n \<Rightarrow> if n < lo \<or> n > hi then Inl msg else Inr (upd n))"

definition add_target_spec :: "cstring \<Rightarrow> arguments_t \<Rightarrow> cstring + arguments_t" where
  "add_target_spec v a =
     (if length (TargetSpecs a) \<ge> MAX_TARGET_SPECS then Inl ''Error: too many --target specs''
      else Inr (a\<lparr>TargetSpecs := TargetSpecs a @ [v]\<rparr>))"

text \<open>The options with a number from \<open>--http-status\<close> on; the last one is \<open>--rate\<close>.\<close>

definition apply_tuning :: "cstring \<Rightarrow> cstring \<Rightarrow> arguments_t \<Rightarrow> cstring + arguments_t" where
  "apply_tuning arg v a =
     (if arg = ''--http-status'' then
        long_option v 100 599 ''Error: --http-status must be an integer in 100..599''
          (\<lambda>n. a\<lparr>HttpStatus := int32 n\<rparr>)
      else if arg = ''--max-hops'' then
        long_option v 1 255 ''Error: --max-hops must be an integer in 1..255''
          (\<lambda>n. a\<lparr>MaxHops := int32 n\<rparr>)
      else if arg = ''--queries'' then
        long_option v 1 10 ''Error: --queries must be an integer in 1..10''
          (\<lambda>n. a\<lparr>Queries := int32 n\<rparr>)
      else if arg = ''--tos'' then
        long_option v 0 255 ''Error: --tos must be an integer in 0..255'' (\<lambda>n. a\<lparr>Tos := int32 n\<rparr>)
      else if arg = ''--dscp'' then
        long_option v 0 63 ''Error: --dscp must be an integer in 0..63''
          (\<lambda>n. a\<lparr>Tos := int32 (push_bit 2 n)\<rparr>)
      else if arg = ''--concurrency'' then
        long_option v 1 256 ''Error: --concurrency must be an integer in 1..256''
          (\<lambda>n. a\<lparr>Concurrency := uint32 n\<rparr>)
      else if arg = ''--duration'' then
        long_option v 1 3600 ''Error: --duration must be an integer in 1..3600 seconds''
          (\<lambda>n. a\<lparr>DurationMs := uint32 n * 1000\<rparr>)
      else long_option v 0 3600000 ''Error: -r/--rate must be an integer in 0..3600000 ms''
          (\<lambda>n. a\<lparr>Rate := uint32 n\<rparr>))"

definition apply_value :: "cstring \<Rightarrow> cstring \<Rightarrow> arguments_t \<Rightarrow> cstring + arguments_t" where
  "apply_value arg v a =
     (if arg = ''-p'' \<or> arg = ''--port'' then Inr (a\<lparr>PortSpec := Some v\<rparr>)
      else if arg = ''-t'' \<or> arg = ''--timeout'' then
        long_option v 1 3600000 ''Error: -t/--timeout must be an integer in 1..3600000 ms''
          (\<lambda>n. a\<lparr>Timeout := uint32 n\<rparr>)
      else if arg = ''-c'' \<or> arg = ''--count'' then
        long_option v (- 1) INT32_MAX ''Error: -c/--count must be -1 (infinite) or >= 0''
          (\<lambda>n. a\<lparr>Count := int32 n\<rparr>)
      else if arg = ''-w'' \<or> arg = ''--deadline'' then
        long_option v 1 86400000 ''Error: -w/--deadline must be an integer in 1..86400000 ms''
          (\<lambda>n. a\<lparr>Deadline := uint32 n\<rparr>)
      else if arg = ''-P'' \<or> arg = ''--protocol'' then Inr (a\<lparr>ProtoSpec := Some v\<rparr>)
      else if arg = ''--target'' then add_target_spec v a
      else if arg = ''--targets'' then Inr (a\<lparr>TargetsFile := Some v\<rparr>)
      else if arg = ''-I'' \<or> arg = ''--interface'' then Inr (a\<lparr>Interface := Some v\<rparr>)
      else if arg = ''--config'' then Inr a
      else if arg = ''--http'' then Inr (a\<lparr>HttpUrl := Some v\<rparr>)
      else if arg = ''--http-method'' then Inr (a\<lparr>HttpMethod := v\<rparr>)
      else apply_tuning arg v a)"

definition add_host :: "cstring \<Rightarrow> arguments_t \<Rightarrow> arguments_t" where
  "add_host arg a =
     (let a1 = (if Destination a = None then a\<lparr>Destination := Some arg\<rparr> else a)
      in a1\<lparr>Hosts := Hosts a1 @ [arg]\<rparr>)"

section \<open>The loop\<close>

text \<open>One iteration: go on with the remaining arguments, or stop.\<close>

datatype parse_step =
    Next "cstring list" arguments_t
  | Stop outcome

definition parse_step :: "cstring \<Rightarrow> cstring list \<Rightarrow> arguments_t \<Rightarrow> parse_step" where
  "parse_step arg rest a =
     (if arg = ''-?'' \<or> arg = ''--help'' then Stop HelpExit
      else if arg = ''-V'' \<or> arg = ''--version'' then Stop VersionExit
      else case missing_value arg of
          Some msg \<Rightarrow>
            (case rest of
               [] \<Rightarrow> Stop (Invalid msg)
             | v # rest' \<Rightarrow> (case apply_value arg v a of Inl m \<Rightarrow> Stop (Invalid m) | Inr a' \<Rightarrow> Next rest' a'))
        | None \<Rightarrow>
            (case flag_option arg a of
               Some a' \<Rightarrow> Next rest a'
             | None \<Rightarrow>
                 if arg \<noteq> [] \<and> hd arg = CHR ''-'' \<and> tl arg \<noteq> []
                 then Stop (Invalid (bounded_copy 128 (''Error: unknown option '' @ quoted arg)))
                 else if length (Hosts a) < MAX_HOSTS then Next rest (add_host arg a)
                 else Stop (Invalid ''Error: too many hosts'')))"

lemma parse_step_shrinks: "parse_step arg rest a = Next rest' a' \<Longrightarrow> length rest' \<le> length rest"
  by (auto simp: parse_step_def split: if_splits option.splits list.splits sum.splits)

function parse_args :: "cstring list \<Rightarrow> arguments_t \<Rightarrow> outcome" where
  "parse_args [] a = Parsed a"
| "parse_args (arg # rest) a =
     (case parse_step arg rest a of Next rest' a' \<Rightarrow> parse_args rest' a' | Stop r \<Rightarrow> r)"
  by pat_completeness auto
termination
  by (relation "measure (\<lambda>(argv, a). length argv)") (auto dest: parse_step_shrinks)

text \<open>The checks after the loop.\<close>

definition mode_count :: "arguments_t \<Rightarrow> nat" where
  "mode_count a = of_bool (Monitor a) + of_bool (LoadTest a) + of_bool (Resilience a) + of_bool (Traceroute a)"

definition default_protocol :: "arguments_t \<Rightarrow> arguments_t" where
  "default_protocol a = (if Traceroute a \<and> ProtoSpec a = None then a\<lparr>ProtoSpec := Some ''ICMP''\<rparr> else a)"

definition finish_args :: "arguments_t \<Rightarrow> outcome" where
  "finish_args a =
     (if Hosts a = [] \<and> TargetSpecs a = [] \<and> TargetsFile a = None \<and> HttpUrl a = None
      then Invalid ''Error: Missing destination (host, --target, --targets, or --http URL)''
      else let a1 = default_protocol a
           in if mode_count a1 > 1
              then Invalid ''Error: choose only one of --monitor, --load-test, --resilience, --traceroute''
              else if (LoadTest a1 \<or> Resilience a1) \<and> DurationMs a1 = 0
              then Invalid ''Error: --load-test/--resilience require --duration <seconds>''
              else Parsed a1)"

text \<open>Where the configuration comes from: a path and whether it must exist.\<close>

fun SelectConfigPath :: "cstring list \<Rightarrow> cstring option \<Rightarrow> (cstring \<times> bool) option" where
  "SelectConfigPath [] dflt = (case dflt of None \<Rightarrow> None | Some p \<Rightarrow> Some (p, False))"
| "SelectConfigPath (arg # rest) dflt =
     (if arg = ''--no-config'' then None
      else if arg = ''--config'' \<and> rest \<noteq> [] then Some (hd rest, True)
      else SelectConfigPath rest dflt)"

definition load_config ::
  "cstring option \<Rightarrow> (cstring \<Rightarrow> char list option) \<Rightarrow> cstring list \<Rightarrow> cstring + arguments_t" where
  "load_config home fopen argv =
     (case SelectConfigPath argv (Config_DefaultPath home 512) of
        None \<Rightarrow> Inr InitDefaults
      | Some (path, required) \<Rightarrow> Config_Load fopen path InitDefaults required)"

definition ProcessArguments ::
  "cstring option \<Rightarrow> (cstring \<Rightarrow> char list option) \<Rightarrow> cstring list \<Rightarrow> outcome" where
  "ProcessArguments home fopen argv =
     (case load_config home fopen argv of
        Inl msg \<Rightarrow> Invalid msg
      | Inr a \<Rightarrow> (case parse_args argv a of Parsed a' \<Rightarrow> finish_args a' | r \<Rightarrow> r))"

section \<open>Accepted values\<close>

lemma long_option_Inr [simp]:
  "long_option v lo hi msg upd = Inr a \<longleftrightarrow> (\<exists>n. ParseLong v = Some n \<and> lo \<le> n \<and> n \<le> hi \<and> a = upd n)"
  by (auto simp: long_option_def split: option.splits)

lemma duration_ms: "1 \<le> n \<Longrightarrow> n \<le> 3600 \<Longrightarrow> uint (uint32 n * 1000) = n * 1000"
  by (simp add: uint_word_ariths)

text \<open>The branches of a chain of comparisons, without their conditions.\<close>

lemma if_branches: "(if c then x else y) = z \<Longrightarrow> (x = z \<Longrightarrow> P) \<Longrightarrow> (y = z \<Longrightarrow> P) \<Longrightarrow> P"
  by (auto split: if_splits)

lemma flag_option_ok: "flag_option arg a = Some a' \<Longrightarrow> args_ok a \<Longrightarrow> args_ok a'"
  unfolding flag_option_def
  by (elim if_branches; simp only: option.inject option.distinct; hypsubst; simp add: args_ok_def)

lemma long_option_ok:
  "long_option v lo hi msg upd = Inr a \<Longrightarrow> (\<And>n. lo \<le> n \<Longrightarrow> n \<le> hi \<Longrightarrow> args_ok (upd n)) \<Longrightarrow> args_ok a"
  by auto

lemma add_target_spec_ok: "add_target_spec v a = Inr a' \<Longrightarrow> args_ok a \<Longrightarrow> args_ok a'"
  unfolding add_target_spec_def by (simp split: if_splits; hypsubst; simp add: args_ok_def)

lemma apply_value_ok: "apply_value arg v a = Inr a' \<Longrightarrow> args_ok a \<Longrightarrow> args_ok a'"
  unfolding apply_value_def apply_tuning_def
  apply (elim if_branches)
  apply ((erule add_target_spec_ok, assumption) |
    ((erule long_option_ok | (drule Inr_inject, hypsubst)),
      simp add: args_ok_def duration_ms push_bit_eq_mult))+
  done

lemma add_host_ok: "args_ok a \<Longrightarrow> length (Hosts a) < MAX_HOSTS \<Longrightarrow> args_ok (add_host arg a)"
  by (auto simp: add_host_def args_ok_def hd_append Let_def)

lemma parse_step_ok: "parse_step arg rest a = Next rest' a' \<Longrightarrow> args_ok a \<Longrightarrow> args_ok a'"
  by (auto simp: parse_step_def intro: flag_option_ok apply_value_ok add_host_ok
      split: if_splits option.splits list.splits sum.splits)

lemma parse_step_not_Parsed: "parse_step arg rest a \<noteq> Stop (Parsed a')"
  by (auto simp: parse_step_def split: option.split list.split sum.split)

lemma parse_args_ok: "parse_args argv a = Parsed a' \<Longrightarrow> args_ok a \<Longrightarrow> args_ok a'"
  by (induction argv a rule: parse_args.induct)
    (auto split: parse_step.splits intro: parse_step_ok simp: parse_step_not_Parsed)

text \<open>Hosts never look like options.\<close>

definition hosts_plain :: "arguments_t \<Rightarrow> bool" where
  "hosts_plain a = (\<forall>h \<in> set (Hosts a). h = [] \<or> hd h \<noteq> CHR ''-'' \<or> tl h = [])"

lemma flag_option_Hosts: "flag_option arg a = Some a' \<Longrightarrow> Hosts a' = Hosts a"
  unfolding flag_option_def
  by (elim if_branches; simp only: option.inject option.distinct; hypsubst; simp)

lemma apply_value_Hosts: "apply_value arg v a = Inr a' \<Longrightarrow> Hosts a' = Hosts a"
  unfolding apply_value_def apply_tuning_def add_target_spec_def
  by (elim if_branches) (auto split: if_splits)

lemma parse_step_Hosts:
  "parse_step arg rest a = Next rest' a' \<Longrightarrow> Hosts a' = Hosts a \<or>
     Hosts a' = Hosts a @ [arg] \<and> (arg = [] \<or> hd arg \<noteq> CHR ''-'' \<or> tl arg = [])"
  by (auto simp: parse_step_def add_host_def Let_def dest: flag_option_Hosts apply_value_Hosts
      split: if_splits option.splits list.splits sum.splits)

lemma parse_step_hosts: "parse_step arg rest a = Next rest' a' \<Longrightarrow> hosts_plain a \<Longrightarrow> hosts_plain a'"
  using parse_step_Hosts [of arg rest a rest' a'] by (auto simp: hosts_plain_def)

lemma parse_args_hosts: "parse_args argv a = Parsed a' \<Longrightarrow> hosts_plain a \<Longrightarrow> hosts_plain a'"
  by (induction argv a rule: parse_args.induct)
    (auto split: parse_step.splits intro: parse_step_hosts simp: parse_step_not_Parsed)

lemma load_config_ok: "load_config home fopen argv = Inr a \<Longrightarrow> args_ok a \<and> hosts_plain a"
proof -
  assume h: "load_config home fopen argv = Inr a"
  then have "args_ok a"
    by (auto simp: load_config_def InitDefaults_ok split: option.splits intro: Config_Load_ok)
  moreover from h have "cli_only a InitDefaults"
    by (auto simp: load_config_def Config_Load_def split: option.splits if_splits intro: config_lines_cli)
  ultimately show ?thesis by (simp add: cli_only_def hosts_plain_def InitDefaults_def)
qed

lemma ProtoSpec_frame [simp]:
  "args_ok (a\<lparr>ProtoSpec := x\<rparr>) = args_ok a" "hosts_plain (a\<lparr>ProtoSpec := x\<rparr>) = hosts_plain a"
  "mode_count (a\<lparr>ProtoSpec := x\<rparr>) = mode_count a"
  by (simp_all add: args_ok_def hosts_plain_def mode_count_def)

lemma default_protocol_frame [simp]:
  "args_ok (default_protocol a) = args_ok a" "hosts_plain (default_protocol a) = hosts_plain a"
  "Hosts (default_protocol a) = Hosts a" "TargetSpecs (default_protocol a) = TargetSpecs a"
  "TargetsFile (default_protocol a) = TargetsFile a" "HttpUrl (default_protocol a) = HttpUrl a"
  by (simp_all add: default_protocol_def)

lemma default_protocol_traceroute: "Traceroute (default_protocol a) \<Longrightarrow> ProtoSpec (default_protocol a) \<noteq> None"
  by (auto simp: default_protocol_def split: if_splits)

lemma finish_args_checks:
  "finish_args a1 = Parsed a \<Longrightarrow> a = default_protocol a1 \<and> mode_count a \<le> 1 \<and>
     \<not> ((LoadTest a \<or> Resilience a) \<and> DurationMs a = 0) \<and>
     \<not> (Hosts a1 = [] \<and> TargetSpecs a1 = [] \<and> TargetsFile a1 = None \<and> HttpUrl a1 = None)"
  unfolding finish_args_def Let_def by (simp only: outcome.inject outcome.distinct split: if_split_asm) simp

section \<open>Composition\<close>

lemma parse_step_append:
  "parse_step arg rest a = Next rest' a' \<Longrightarrow> parse_step arg (rest @ ys) a = Next (rest' @ ys) a'"
  by (auto simp: parse_step_def split: if_splits option.splits list.splits sum.splits)

lemma parse_args_append:
  "parse_args xs a0 = Parsed a \<Longrightarrow> parse_args (xs @ ys) a0 = parse_args ys a"
proof (induction xs a0 rule: parse_args.induct)
  case (2 arg rest a0)
  then obtain rest' a1 where n: "parse_step arg rest a0 = Next rest' a1" "parse_args rest' a1 = Parsed a"
    by (auto simp: parse_step_not_Parsed split: parse_step.splits)
  then show ?case using 2(1) [OF n] parse_step_append [OF n(1), of ys] by simp
qed simp

lemma long_option_dec:
  "int n \<le> LONG_MAX \<Longrightarrow> long_option (dec n) lo hi msg upd =
     (if int n < lo \<or> int n > hi then Inl msg else Inr (upd (int n)))"
  by (simp add: long_option_def ParseLong_dec)

section \<open>Properties\<close>

text \<open>C11: accepted arguments. Whatever the command line, the configuration file and the environment
  hold, arguments that are accepted are within the documented ranges, name at least one
  destination, select at most one mode, have a duration when the mode needs one and a protocol for a
  traceroute; and no host is an unrecognised option.\<close>

theorem ProcessArguments_sound:
  assumes "ProcessArguments home fopen argv = Parsed a"
  shows "args_ok a \<and> length (filter id [Monitor a, LoadTest a, Resilience a, Traceroute a]) \<le> 1 \<and>
    (LoadTest a \<or> Resilience a \<longrightarrow> DurationMs a \<noteq> 0) \<and>
    (Traceroute a \<longrightarrow> ProtoSpec a \<noteq> None) \<and>
    (Hosts a \<noteq> [] \<or> TargetSpecs a \<noteq> [] \<or> TargetsFile a \<noteq> None \<or> HttpUrl a \<noteq> None) \<and>
    (\<forall>h \<in> set (Hosts a). h = [] \<or> hd h \<noteq> CHR ''-'' \<or> tl h = [])"
proof -
  obtain a0 a1 where a: "load_config home fopen argv = Inr a0" "parse_args argv a0 = Parsed a1"
    "finish_args a1 = Parsed a"
    using assms by (auto simp: ProcessArguments_def split: sum.splits outcome.splits)
  have "args_ok a1" "hosts_plain a1"
    using load_config_ok [OF a(1)] parse_args_ok [OF a(2)] parse_args_hosts [OF a(2)] by auto
  moreover have f: "a = default_protocol a1" using finish_args_checks [OF a(3)] by blast
  ultimately have "args_ok a" "hosts_plain a" by simp_all
  moreover have "Hosts a \<noteq> [] \<or> TargetSpecs a \<noteq> [] \<or> TargetsFile a \<noteq> None \<or> HttpUrl a \<noteq> None"
    using finish_args_checks [OF a(3)] unfolding f by simp
  moreover have "Traceroute a \<longrightarrow> ProtoSpec a \<noteq> None"
    unfolding f using default_protocol_traceroute by blast
  moreover have "length (filter id [Monitor a, LoadTest a, Resilience a, Traceroute a]) \<le> 1"
    using finish_args_checks [OF a(3)] by (auto simp: mode_count_def split: if_splits)
  ultimately show ?thesis using finish_args_checks [OF a(3)] unfolding hosts_plain_def by blast
qed

theorem ProcessArguments_sound_witness:
  "\<exists>a. ProcessArguments None (\<lambda>p. None) [''-c'', ''3'', ''example.org''] = Parsed a \<and> Count a = 3 \<and> args_ok a"
proof -
  have v: "missing_value ''-c'' = Some ''Error: -c/--count requires value''"
    "missing_value ''example.org'' = None" "flag_option ''example.org'' a = None" for a
    by (simp_all add: missing_value_def flag_option_def)
  have "ParseLong ''3'' = Some 3" using ParseLong_dec [of 3] by (simp add: c_lib_simps)
  then have c: "apply_value ''-c'' ''3'' a = Inr (a\<lparr>Count := 3\<rparr>)" for a
    by (simp add: apply_value_def apply_tuning_def long_option_def)
  have "ProcessArguments None (\<lambda>p. None) [''-c'', ''3'', ''example.org''] =
      Parsed (add_host ''example.org'' (InitDefaults\<lparr>Count := 3\<rparr>))"
    by (simp add: ProcessArguments_def load_config_def Config_DefaultPath_def parse_step_def v c
        add_host_def finish_args_def default_protocol_def mode_count_def InitDefaults_def)
  moreover have "Count (add_host ''example.org'' (InitDefaults\<lparr>Count := 3\<rparr>)) = 3"
    by (simp add: add_host_def InitDefaults_def)
  ultimately show ?thesis using ProcessArguments_sound by blast
qed



text \<open>one table of values. For the options that exist both as a configuration key and on the
  command line, the two parsers accept the same texts and compute the same arguments.\<close>

theorem config_matches_options:
  assumes "(key, opt) \<in> {(''timeout'', ''-t''), (''count'', ''-c''), (''rate'', ''-r''), (''deadline'', ''-w''), (''tos'', ''--tos'')}"
  shows "ApplyKeyValue key v a = Inr a' \<longleftrightarrow> apply_value opt v a = Inr a'"
  using assms
  by (elim insertE emptyE; simp add: ApplyKeyValue_def apply_value_def apply_tuning_def config_long_Inr)

theorem config_matches_options_witness:
  "(ApplyKeyValue ''tos'' ''300'' InitDefaults = Inr InitDefaults) =
   (apply_value ''--tos'' ''300'' InitDefaults = Inr InitDefaults)"
  by (rule config_matches_options) simp

text \<open>\<open>--no-config\<close>. When it comes before any \<open>--config\<close>, no configuration file and no
  environment can influence the outcome.\<close>

theorem no_config_isolates:
  assumes "''--no-config'' \<in> set xs" and "''--config'' \<notin> set xs"
  shows "ProcessArguments home fopen (xs @ ys) = ProcessArguments home' fopen' (xs @ ys)"
proof -
  have "SelectConfigPath (xs @ ys) d = None" for d
    using assms by (induction xs) auto
  then show ?thesis by (simp add: ProcessArguments_def load_config_def)
qed

theorem no_config_isolates_witness:
  "ProcessArguments (Some ''/root'') (\<lambda>p. Some ''junk'') ([''--no-config''] @ [''-V'']) =
   ProcessArguments None (\<lambda>p. None) ([''--no-config''] @ [''-V''])"
  by (rule no_config_isolates) simp_all

end
