(* ===== verification/Usage.thy ===== *)
theory Usage
  imports CommandLine Print
begin

text \<open>
  The texts of \<open>arguments.c\<close>: error messages, the version, the help, and what \<open>ProcessArguments\<close> prints
  before it gives up or leaves the program.
\<close>

definition PrintError :: "bool \<Rightarrow> cstring \<Rightarrow> cstring" where
  "PrintError color message = FormattedPrint color PRINT_RED message @ [newline]"

definition PrintVersion :: "bool \<Rightarrow> cstring" where
  "PrintVersion color =
     FormattedPrint color PRINT_BLUE (bounded_copy 128 (''PingDD 2.1.0'' @ [newline])) @ ResetColor color"

definition usage_lines :: "cstring list" where
  "usage_lines =
     [''PingDD is a cross-platform TCP/UDP/ICMP reachability & diagnostics tool.'',
      ''Syntax: pingdd [options] host [host ...]'',
      ''Ports may be lists/ranges (-p 80,443,8000-8010); protocols a list (-P TCP,UDP).'',
      '''',
      ''Options:'',
      ''  -p, --port N       set port N (required for TCP/UDP)'',
      ''  -t, --timeout N    per-probe timeout in milliseconds (default 1000)'',
      ''  -c, --count N      number of checks (default infinite)'',
      ''  -r, --rate N       delay between checks in ms (default 50)'',
      ''  -w, --deadline N   stop after N milliseconds total (default none)'',
      ''  -P, --protocol P   protocol list: TCP (default), UDP, ICMP (comma-separated)'',
      ''  -I, --interface X  bind probes to a source IP or interface name'',
      ''  --target SPEC      add a target host:port/proto (repeatable)'',
      ''  --targets FILE     read targets from a file (one per line)'',
      ''  --concurrent       probe all targets in parallel each cycle'',
      ''  --resolve          annotate addresses with reverse DNS + ASN'',
      ''  --tos N            set IP ToS byte on probes (0..255)'',
      ''  --dscp N           set DSCP class on probes (0..63)'',
      ''  --config FILE      load options from FILE (default ~/.pingdd)'',
      ''  --no-config        ignore the implicit ~/.pingdd config file'',
      ''  -q, --quiet        suppress per-probe output, show summary only'',
      ''  -a, --audible      ring the terminal bell on each success'',
      ''  --json             emit machine-readable JSON (implies --no-color)'',
      ''  --json-file        log NDJSON to an auto-named .json file'',
      ''  --prometheus       print a Prometheus/OpenMetrics report at the end'',
      ''  --csv              enable CSV logging'',
      ''  --color            force colored output'',
      ''  --no-color         disable color output'',
      ''  -V, --version      display version'',
      ''  -?, --help         display this help'',
      '''',
      ''Monitoring & testing:'',
      ''  --monitor          continuous availability monitoring + alerts'',
      ''  --load-test        sustained concurrent load'',
      ''  --resilience       ramp concurrency and report the degradation point'',
      ''  --traceroute       trace the network path to a single target'',
      ''  --max-hops N       traceroute: maximum hops (default 30)'',
      ''  --queries N        traceroute: probes per hop (default 3)'',
      ''  --http URL         probe an HTTP(S) URL (status + latency, TLS info)'',
      ''  --http-method M    HTTP method for --http (default GET)'',
      ''  --http-status N    require HTTP status N (default any 2xx/3xx)'',
      ''  --concurrency N    concurrent workers for load/resilience (1..256, default 10)'',
      ''  --duration N       run duration in seconds for load/resilience (1..3600)'']"

definition PrintUsage :: "bool \<Rightarrow> cstring" where
  "PrintUsage color =
     FormattedPrint color PRINT_YELLOW (concat (map (\<lambda>line. line @ [newline]) usage_lines)) @ ResetColor color"

text \<open>The two messages that the help follows.\<close>

definition usage_follows :: "cstring \<Rightarrow> bool" where
  "usage_follows msg \<longleftrightarrow>
     take 22 msg = ''Error: unknown option '' \<or>
     msg = ''Error: Missing destination (host, --target, --targets, or --http URL)''"

text \<open>The exit status of the program and its output when the arguments are not accepted. The colours are
  those of the start of the program, whatever the options say.\<close>

fun argument_exit :: "outcome \<Rightarrow> (int \<times> cstring) option" where
  "argument_exit (Parsed a) = None"
| "argument_exit HelpExit = Some (0, PrintUsage True)"
| "argument_exit VersionExit = Some (0, PrintVersion True)"
| "argument_exit (Invalid msg) =
     Some (1, PrintError True msg @ (if usage_follows msg then PrintUsage True else []))"

end
