(* ===== verification/Timer.thy ===== *)
theory Timer
  imports Float64
begin

text \<open>
  \<open>timer.c\<close>, in its POSIX variant: a monotonic stopwatch. The clock is an argument: what
  \<open>clock_gettime(CLOCK_MONOTONIC)\<close> answers, as seconds and nanoseconds. \<open>Timer_Stop\<close> clears the flag
  \<open>hasValue\<close> but keeps the origin, which is what \<open>ElapsedMs\<close> of \<open>main.c\<close> relies on to read a running
  timer.
\<close>

record timespec =
  tv_sec :: int
  tv_nsec :: int

record pingdd_timer_t =
  hasValue :: bool
  start :: timespec

definition Timer_Start :: "timespec \<Rightarrow> pingdd_timer_t \<Rightarrow> pingdd_timer_t" where
  "Timer_Start now t = t\<lparr>hasValue := True, start := now\<rparr>"

definition f64_of_int :: "int \<Rightarrow> f64" where
  "f64_of_int n = to_f64 (of_int n)"

definition elapsed_sec :: "timespec \<Rightarrow> timespec \<Rightarrow> f64" where
  "elapsed_sec t0 t1 =
     (let sec_diff = tv_sec t1 - tv_sec t0; nsec_diff = tv_nsec t1 - tv_nsec t0
      in fadd (f64_of_int sec_diff) (fdiv (f64_of_int nsec_diff) (Fin 1000000000)))"

definition Timer_Stop :: "timespec \<Rightarrow> pingdd_timer_t \<Rightarrow> f64 \<times> pingdd_timer_t" where
  "Timer_Stop now t =
     (if \<not> hasValue t then (Fin 0, t) else (elapsed_sec (start t) now, t\<lparr>hasValue := False\<rparr>))"

definition ElapsedMs :: "timespec \<Rightarrow> pingdd_timer_t \<Rightarrow> f64 \<times> pingdd_timer_t" where
  "ElapsedMs now t =
     (let (seconds, t1) = Timer_Stop now t in (fmul seconds (Fin 1000), t1\<lparr>hasValue := True\<rparr>))"

text \<open>A reading of the clock, the order of two readings, and the time since the epoch of the clock
  that the doubles of the program can hold exactly.\<close>

definition reading :: "timespec \<Rightarrow> bool" where
  "reading t \<longleftrightarrow> 0 \<le> tv_sec t \<and> tv_sec t < 2 ^ 52 \<and> 0 \<le> tv_nsec t \<and> tv_nsec t < 1000000000"

definition not_later :: "timespec \<Rightarrow> timespec \<Rightarrow> bool" where
  "not_later a b \<longleftrightarrow> tv_sec a < tv_sec b \<or> (tv_sec a = tv_sec b \<and> tv_nsec a \<le> tv_nsec b)"

lemma f64_of_int_exact:
  assumes "\<bar>n\<bar> < 2 ^ 53"
  shows "f64_of_int n = Fin (of_int n)"
proof -
  have r: "round_q (of_int n) = of_int n"
  proof (cases "0 \<le> n")
    case True
    then show ?thesis using round_q_of_nat [of "nat n"] assms by (simp add: nat_less_iff)
  next
    case False
    then have "round_q (of_int (- n)) = of_int (- n)"
      using round_q_of_nat [of "nat (- n)"] assms by (simp add: nat_less_iff)
    then show ?thesis using round_q_minus [of "of_int (- n)"] by simp
  qed
  have "of_int \<bar>n\<bar> \<le> rat_of_int (2 ^ 53)" using assms by (simp only: of_int_le_iff)
  then have "in_range (of_int n)" by (intro small_in_range) simp
  with r show ?thesis by (simp add: f64_of_int_def to_f64_in_range)
qed

text \<open>The elapsed time as a rational: one rounded quotient, one rounded sum.\<close>

lemma elapsed_sec_eq:
  assumes "reading a" and "reading b"
  shows "elapsed_sec a b =
    Fin (round_q (of_int (tv_sec b - tv_sec a) + round_q (of_int (tv_nsec b - tv_nsec a) / 1000000000)))"
proof -
  let ?s = "tv_sec b - tv_sec a" and ?n = "tv_nsec b - tv_nsec a"
  have s: "\<bar>?s\<bar> < 2 ^ 53" and n: "\<bar>?n\<bar> < 1000000000" using assms by (auto simp: reading_def)
  have "rat_of_int \<bar>?n\<bar> \<le> rat_of_int 1000000000" using n by (simp only: of_int_le_iff)
  then have q: "\<bar>rat_of_int ?n / 1000000000\<bar> \<le> 1" by simp
  then have "\<bar>round_q (rat_of_int ?n / 1000000000)\<bar> \<le> 1"
    using r64.rnd_le_nat [of "rat_of_int ?n / 1000000000" 1]
      r64.rnd_le_nat [of "- (rat_of_int ?n / 1000000000)" 1] round_q_minus [of "rat_of_int ?n / 1000000000"]
    by (simp add: abs_le_iff)
  moreover have "rat_of_int \<bar>?s\<bar> \<le> rat_of_int (2 ^ 53)" using s by (simp only: of_int_le_iff)
  ultimately have "in_range (of_int ?s + round_q (of_int ?n / 1000000000))"
    by (intro small_in_range) (simp add: abs_le_iff)
  moreover have "in_range (rat_of_int ?n / 1000000000)" using q by (intro small_in_range) simp
  ultimately show ?thesis
    using s n by (simp add: elapsed_sec_def Let_def f64_of_int_exact to_f64_in_range)
qed

text \<open>The rounding error of the nanosecond quotient is far below a nanosecond.\<close>

lemma quotient_error_pos:
  assumes "0 < n" and "n < 1000000000"
  shows "\<bar>round_q (of_int n / 1000000000) - of_int n / 1000000000\<bar> \<le> 1 / 4000000000"
proof -
  let ?q = "rat_of_int n / 1000000000"
  have "rat_of_int 1 \<le> rat_of_int n" "rat_of_int n \<le> rat_of_int 1000000000"
    using assms by (simp_all only: of_int_le_iff)
  then have q: "1 / 1000000000 \<le> ?q" "?q \<le> 1" by simp_all
  then have "- 30 \<le> ilog2 ?q" by (intro ilog2_ge) (simp add: power_int_minus)
  then have "2 ^ 53 * \<bar>round_q ?q - ?q\<bar> \<le> ?q" using q by (intro round_q_error) auto
  then show ?thesis using q by simp
qed

lemma quotient_error:
  assumes "\<bar>n\<bar> < 1000000000"
  shows "\<bar>round_q (of_int n / 1000000000) - of_int n / 1000000000\<bar> \<le> 1 / 4000000000"
proof -
  consider "n = 0" | "0 < n" | "n < 0" by linarith
  then show ?thesis
  proof cases
    case 3
    have "\<bar>round_q (of_int (- n) / 1000000000) - of_int (- n) / 1000000000\<bar> \<le> 1 / 4000000000"
      using 3 assms by (intro quotient_error_pos) auto
    then show ?thesis using round_q_minus [of "of_int n / 1000000000"] by (simp add: abs_minus_commute)
  qed (use assms quotient_error_pos in auto)
qed

lemma elapsed_le:
  assumes "reading a" and "reading b" and "reading c" and "not_later b c"
  shows "elapsed_sec a b \<le> elapsed_sec a c"
proof -
  define g where "g x = of_int (tv_sec x - tv_sec a) + round_q (of_int (tv_nsec x - tv_nsec a) / 1000000000)" for x :: timespec
  have "g b \<le> g c"
  proof (cases "tv_sec b = tv_sec c")
    case True
    then have "tv_nsec b \<le> tv_nsec c" using assms(4) by (simp add: not_later_def)
    then have "rat_of_int (tv_nsec b - tv_nsec a) \<le> of_int (tv_nsec c - tv_nsec a)"
      by (simp only: of_int_le_iff)
    then show ?thesis using True by (simp add: g_def round_q_mono divide_right_mono)
  next
    case False
    let ?nb = "tv_nsec b - tv_nsec a" and ?nc = "tv_nsec c - tv_nsec a"
    have s: "tv_sec b - tv_sec a + 1 \<le> tv_sec c - tv_sec a" using False assms(4) by (simp add: not_later_def)
    then have "rat_of_int (tv_sec b - tv_sec a + 1) \<le> of_int (tv_sec c - tv_sec a)"
      by (simp only: of_int_le_iff)
    then have s': "rat_of_int (tv_sec b - tv_sec a) + 1 \<le> of_int (tv_sec c - tv_sec a)" by simp
    have "?nb \<le> ?nc + 999999999" using assms by (simp add: reading_def)
    then have "rat_of_int ?nb \<le> of_int (?nc + 999999999)" by (simp only: of_int_le_iff)
    then have n: "rat_of_int ?nb / 1000000000 \<le> of_int ?nc / 1000000000 + 999999999 / 1000000000"
      by (simp add: field_simps)
    have "\<bar>round_q (of_int ?nb / 1000000000) - of_int ?nb / 1000000000\<bar> \<le> 1 / 4000000000"
      "\<bar>round_q (of_int ?nc / 1000000000) - of_int ?nc / 1000000000\<bar> \<le> 1 / 4000000000"
      using assms by (intro quotient_error; simp add: reading_def abs_less_iff)+
    then have "round_q (of_int ?nb / 1000000000) \<le> of_int ?nb / 1000000000 + 1 / 4000000000"
      "of_int ?nc / 1000000000 \<le> round_q (of_int ?nc / 1000000000) + 1 / 4000000000"
      unfolding abs_le_iff by linarith+
    with s' n show ?thesis unfolding g_def by linarith
  qed
  then have "round_q (g b) \<le> round_q (g c)" by (rule round_q_mono)
  then show ?thesis
    unfolding elapsed_sec_eq [OF assms(1,2)] elapsed_sec_eq [OF assms(1,3)] g_def by simp
qed

section \<open>Properties\<close>

text \<open>elapsed time. For readings of a monotonic clock, the elapsed seconds are a number, not
  negative in spite of a negative nanosecond difference and of rounding, and later readings never
  give less; reading a running timer with \<open>ElapsedMs\<close> leaves it as it was.\<close>

theorem elapsed_monotone:
  assumes "reading a" and "reading b" and "reading c" and "not_later a b" and "not_later b c"
  shows "Fin 0 \<le> elapsed_sec a b \<and> elapsed_sec a b \<noteq> NaN \<and> elapsed_sec a b \<le> elapsed_sec a c \<and>
    (hasValue t \<longrightarrow> snd (ElapsedMs b t) = t)"
proof -
  have "elapsed_sec a a = Fin 0" using elapsed_sec_eq [OF assms(1,1)] by simp
  then have "Fin 0 \<le> elapsed_sec a b" using elapsed_le [OF assms(1,1,2,4)] by simp
  moreover have "elapsed_sec a b \<noteq> NaN" using elapsed_sec_eq [OF assms(1,2)] by simp
  moreover have "elapsed_sec a b \<le> elapsed_sec a c" by (rule elapsed_le [OF assms(1,2,3,5)])
  moreover have "hasValue t \<longrightarrow> snd (ElapsedMs b t) = t"
    by (simp add: ElapsedMs_def Timer_Stop_def)
  ultimately show ?thesis by blast
qed

theorem elapsed_monotone_witness:
  "elapsed_sec \<lparr>tv_sec = 1, tv_nsec = 999999999\<rparr> \<lparr>tv_sec = 2, tv_nsec = 0\<rparr> \<le>
   elapsed_sec \<lparr>tv_sec = 1, tv_nsec = 999999999\<rparr> \<lparr>tv_sec = 2, tv_nsec = 1\<rparr>"
  by (rule elapsed_monotone [THEN conjunct2, THEN conjunct2, THEN conjunct1])
    (simp_all add: reading_def not_later_def)

end
