(* ===== verification/Checksum.thy ===== *)
theory Checksum
  imports Prelude
begin

unbundle bit_operations_syntax

text \<open>
  The Internet checksum, which the program has twice: \<open>IcmpChecksum\<close> in \<open>socket.c\<close> and
  \<open>TraceChecksum\<close> in \<open>traceroute.c\<close>. The sum is a 32-bit word. The lemmas relate it to the residue
  modulo 65535 of the 16-bit words of the packet.
\<close>

section \<open>The two routines\<close>

text \<open>The loop over the pairs of bytes, and the last byte of an odd length.\<close>

fun word_sum :: "u8 list \<Rightarrow> u32 \<Rightarrow> u32" where
  "word_sum (a # b # rest) acc = word_sum rest (acc + (push_bit 8 (ucast a) OR ucast b))"
| "word_sum [a] acc = acc + push_bit 8 (ucast a)"
| "word_sum [] acc = acc"

text \<open>The loop \<open>while ((acc >> 16) != 0)\<close>.\<close>

function fold_carries :: "u32 \<Rightarrow> u32" where
  "fold_carries s = (if drop_bit 16 s = 0 then s else fold_carries ((s AND 0xFFFF) + drop_bit 16 s))"
  by pat_completeness auto

lemma drop16: "unat (drop_bit 16 (s :: u32)) = unat s div 65536"
  unfolding unat_drop_bit_eq by (simp add: drop_bit_eq_div)

lemma low16: "unat (s AND 0xFFFF :: u32) = unat s mod 65536"
proof -
  have "s AND 0xFFFF = take_bit 16 s" by (simp add: take_bit_eq_mask mask_numeral)
  then have "unat (s AND 0xFFFF) = take_bit 16 (unat s)" by (simp add: unsigned_take_bit_eq)
  then show ?thesis by (simp add: take_bit_eq_mod)
qed

lemma fold_step: "unat ((s AND 0xFFFF) + drop_bit 16 (s :: u32)) = unat s mod 65536 + unat s div 65536"
proof -
  have "unat s < 2 ^ 32" using unsigned_less [of s] by simp
  then have "unat s div 65536 < 65536" by (simp add: less_mult_imp_div_less)
  moreover have "unat s mod 65536 < 65536" by simp
  ultimately show ?thesis by (subst unat_add_lem [THEN iffD1]) (auto simp: drop16 low16)
qed

termination fold_carries
proof (relation "measure unat")
  fix s :: u32
  assume "drop_bit 16 s \<noteq> 0"
  then have "0 < unat s div 65536" using drop16 [of s] by (metis gr0I unat_eq_zero)
  moreover have "unat s = 65536 * (unat s div 65536) + unat s mod 65536" by simp
  ultimately have "unat s mod 65536 + unat s div 65536 < unat s" by linarith
  then show "((s AND 0xFFFF) + drop_bit 16 s, s) \<in> measure unat" by (simp add: fold_step)
qed simp

declare fold_carries.simps [simp del]

definition IcmpChecksum :: "u8 list \<Rightarrow> u16" where
  "IcmpChecksum data = ucast (NOT (fold_carries (word_sum data 0)))"

definition TraceChecksum :: "u8 list \<Rightarrow> u16" where
  "TraceChecksum data = ucast (NOT (fold_carries (word_sum data 0)))"

lemma TraceChecksum_eq [simp]: "TraceChecksum = IcmpChecksum"
  by (simp add: fun_eq_iff TraceChecksum_def IcmpChecksum_def)

section \<open>Arithmetic\<close>

fun nat_sum :: "u8 list \<Rightarrow> nat" where
  "nat_sum (a # b # rest) = 256 * unat a + unat b + nat_sum rest"
| "nat_sum [a] = 256 * unat a"
| "nat_sum [] = 0"

lemma byte_less: "unat (a :: u8) < 256"
  using unsigned_less [of a] by simp

lemma unat_ucast_u8: "unat (ucast (a :: u8) :: u32) = unat a"
  using byte_less [of a] by (simp add: unsigned_ucast_eq take_bit_eq_mod)

lemma pair_value: "unat (push_bit 8 (ucast (a :: u8)) OR ucast b :: u32) = 256 * unat a + unat (b :: u8)"
proof -
  have "push_bit 8 (ucast a :: u32) AND ucast b = 0"
    by (rule bit_word_eqI) (auto simp: bit_simps dest: bit_imp_le_length)
  then have "push_bit 8 (ucast a :: u32) OR ucast b = push_bit 8 (ucast a) + ucast b"
    by (simp add: disjunctive_add bit_eq_iff bit_simps)
  moreover have "unat (push_bit 8 (ucast a :: u32)) = 256 * unat a"
  proof -
    have "unat (push_bit 8 (ucast a :: u32)) = take_bit 32 (push_bit 8 (unat a))"
      using unat_ucast_u8 [of a] by (simp add: unsigned_push_bit_eq)
    then show ?thesis using byte_less [of a] by (simp add: take_bit_eq_mod push_bit_eq_mult)
  qed
  moreover have "unat (push_bit 8 (ucast a :: u32) + ucast b) = unat (push_bit 8 (ucast a :: u32)) + unat (ucast b :: u32)"
    using byte_less [of a] byte_less [of b] calculation(2) unat_ucast_u8 [of b]
    by (intro unat_add_lem [THEN iffD1]) simp
  ultimately show ?thesis using unat_ucast_u8 [of b] by simp
qed

lemma single_value: "unat (push_bit 8 (ucast (a :: u8)) :: u32) = 256 * unat a"
  using pair_value [of a 0] by simp

lemma nat_sum_bound: "2 * nat_sum data \<le> 65536 * (length data + 1)"
proof (induction data rule: nat_sum.induct)
  case (1 a b rest)
  then show ?case using byte_less [of a] byte_less [of b] by simp
next
  case (2 a)
  then show ?case using byte_less [of a] by simp
qed simp

lemma word_sum_value:
  "unat acc + nat_sum data < 2 ^ 32 \<Longrightarrow> unat (word_sum data acc) = unat acc + nat_sum data"
proof (induction data acc rule: word_sum.induct)
  case (1 a b rest acc)
  let ?w = "push_bit 8 (ucast a) OR ucast b :: u32"
  have "unat (acc + ?w) = unat acc + (256 * unat a + unat b)"
    using 1(2) by (subst unat_add_lem [THEN iffD1]) (auto simp: pair_value)
  then show ?case using 1 by simp
next
  case (2 a acc)
  then show ?case by (simp add: single_value unat_add_lem [THEN iffD1])
qed simp

text \<open>Folding keeps the residue modulo 65535, ends below 65536, and is 0 only for 0.\<close>

lemma fold_carries_spec:
  "unat (fold_carries s) < 65536 \<and> unat (fold_carries s) mod 65535 = unat s mod 65535 \<and>
   (unat (fold_carries s) = 0 \<longleftrightarrow> unat s = 0)"
proof (induction s rule: fold_carries.induct)
  case (1 s)
  show ?case
  proof (cases "drop_bit 16 s = 0")
    case True
    then have "unat s div 65536 = 0" using drop16 [of s] by simp
    then show ?thesis using True by (subst (1 2 3) fold_carries.simps) (simp add: div_eq_0_iff)
  next
    case False
    let ?t = "(s AND 0xFFFF) + drop_bit 16 s"
    have d: "unat s = 65536 * (unat s div 65536) + unat s mod 65536" by simp
    have "unat s = unat ?t + 65535 * (unat s div 65536)" using d unfolding fold_step by linarith
    then have "unat ?t mod 65535 = unat s mod 65535" by (metis mod_mult_self2)
    moreover have "unat ?t = 0 \<longleftrightarrow> unat s = 0" unfolding fold_step using d by arith
    ultimately show ?thesis using 1 [OF False] False by (subst (1 2 3) fold_carries.simps) simp
  qed
qed

lemma complement16:
  assumes "unat (f :: u32) < 65536"
  shows "unat (ucast (NOT f) :: u16) = 65535 - unat f"
proof -
  let ?w = "ucast f :: u16"
  have "unat ?w = unat f" using assms by (simp add: unsigned_ucast_eq take_bit_eq_mod)
  moreover have "(ucast (NOT f) :: u16) = NOT ?w"
    by (rule bit_word_eqI) (auto simp: bit_simps)
  moreover have "NOT ?w = - 1 - ?w" by (simp add: not_eq_complement)
  moreover have "unat (- 1 - ?w) = unat (- 1 :: u16) - unat ?w" by (rule unat_sub) simp
  moreover have "unat (- 1 :: u16) = 65535" unfolding unsigned_minus_1_eq_mask by (simp add: mask_eq_exp_minus_1)
  ultimately show ?thesis by simp
qed

text \<open>The checksum as a number.\<close>

lemma IcmpChecksum_value:
  assumes "nat_sum data < 2 ^ 32"
  shows "\<exists>f. unat (IcmpChecksum data) = 65535 - f \<and> f < 65536 \<and> f mod 65535 = nat_sum data mod 65535 \<and>
    (f = 0 \<longleftrightarrow> nat_sum data = 0)"
proof -
  let ?f = "fold_carries (word_sum data 0)"
  have "unat (word_sum data 0) = nat_sum data" using word_sum_value [of 0 data] assms by simp
  with fold_carries_spec [of "word_sum data 0"] show ?thesis
    by (intro exI [of _ "unat ?f"]) (simp add: IcmpChecksum_def complement16)
qed

lemma nat_sum_append_even: "even (length xs) \<Longrightarrow> nat_sum (xs @ ys) = nat_sum xs + nat_sum ys"
  by (induction xs rule: nat_sum.induct) auto


lemma checksum_zero:
  assumes "even (length pre)" and "length pre + length post + 2 \<le> 65536"
    and "nat_sum pre + nat_sum post \<noteq> 0"
    and "c = IcmpChecksum (pre @ 0 # 0 # post)"
  shows "IcmpChecksum (pre @ ucast (drop_bit 8 c) # ucast (c AND 0xFF) # post) = 0"
proof -
  define n where "n = nat_sum pre + nat_sum post"
  have even: "nat_sum (pre @ a # b # post) = n + 256 * unat a + unat b" for a b
    using assms(1) by (simp add: nat_sum_append_even n_def)
  have "2 * nat_sum pre \<le> 65536 * (length pre + 1)" "2 * nat_sum post \<le> 65536 * (length post + 1)"
    by (rule nat_sum_bound)+
  then have small: "n + 65536 < 2 ^ 32" using assms(2) by (simp add: n_def)
  then obtain f where f: "unat c = 65535 - f" "f < 65536" "f mod 65535 = n mod 65535"
    using IcmpChecksum_value [of "pre @ 0 # 0 # post"] assms(4) by (auto simp: even)
  have "unat c = 256 * unat (ucast (drop_bit 8 c) :: u8) + unat (ucast (c AND 0xFF) :: u8)"
  proof -
    have lo: "c AND 0xFF = take_bit 8 c" by (simp add: take_bit_eq_mask mask_numeral)
    have "unat c < 65536" using unsigned_less [of c] by simp
    then have "unat c div 256 < 256" by (simp add: less_mult_imp_div_less)
    then have "unat (ucast (drop_bit 8 c) :: u8) = unat c div 256"
      unfolding unsigned_ucast_eq unat_drop_bit_eq by (simp add: take_bit_eq_mod drop_bit_eq_div)
    moreover have "unat (ucast (c AND 0xFF) :: u8) = unat c mod 256"
      unfolding lo unsigned_ucast_eq unsigned_take_bit_eq by (simp add: take_bit_eq_mod)
    ultimately show ?thesis by simp
  qed
  then have total: "nat_sum (pre @ ucast (drop_bit 8 c) # ucast (c AND 0xFF) # post) = n + (65535 - f)"
    using f(1) by (simp add: even)
  have "(n + (65535 - f)) mod 65535 = (f + (65535 - f)) mod 65535" using f(3) by (metis mod_add_left_eq)
  also have "\<dots> = 0" using f(2) by simp
  finally have r: "(n + (65535 - f)) mod 65535 = 0" .
  let ?full = "pre @ ucast (drop_bit 8 c) # ucast (c AND 0xFF) # post"
  have "nat_sum ?full < 2 ^ 32" using small by (simp add: total)
  then obtain g where g: "unat (IcmpChecksum ?full) = 65535 - g" "g < 65536"
    "g mod 65535 = nat_sum ?full mod 65535" "g = 0 \<longleftrightarrow> nat_sum ?full = 0"
    using IcmpChecksum_value by blast
  have "g mod 65535 = 0" "g \<noteq> 0" using g(3,4) assms(3) r unfolding total n_def by auto
  then have "g = 65535" using g(2) by (auto elim!: dvdE simp: mod_eq_0_iff_dvd)
  with g(1) show ?thesis by (simp add: unat_eq_zero)
qed

section \<open>Properties\<close>

text \<open>the receiver accepts. Take any even-length packet whose checksum field is zero (two zero
  bytes at an even offset), fill the field with the big-endian checksum of the packet, and the
  checksum of the result is 0, the value by which a receiver accepts it. Lengths up to the 64 KiB of
  an IP datagram never overflow the 32-bit sum.\<close>

theorem checksum_verifies:
  assumes "even (length pre)" and "length pre + length post + 2 \<le> 65536"
    and "nat_sum pre + nat_sum post \<noteq> 0"
    and "c = IcmpChecksum (pre @ 0 # 0 # post)"
  shows "IcmpChecksum (pre @ ucast (drop_bit 8 c) # ucast (c AND 0xFF) # post) = 0"
  using assms by (rule checksum_zero)

theorem checksum_verifies_witness:
  "IcmpChecksum ([8, 0] @ ucast (drop_bit 8 (IcmpChecksum [8, 0, 0, 0, 0x12, 0x34] :: u16)) #
     ucast (IcmpChecksum [8, 0, 0, 0, 0x12, 0x34] AND 0xFF) # [0x12, 0x34]) = 0"
  using checksum_verifies [of "[8, 0]" "[0x12, 0x34]"] by simp

end
