(* ===== verification/Socket.thy ===== *)
theory Socket
  imports Standard Timer Checksum
begin

unbundle bit_operations_syntax

text \<open>
  \<open>socket.c\<close>, in its POSIX variant. The static variables of the file are the record \<open>sock_state\<close>. What
  the operating system answers to one probe is the record \<open>probe_env\<close>, and a probe returns its result,
  the time it measured and the calls it made on its descriptor, in order. \<open>getaddrinfo\<close>,
  \<open>inet_ntop\<close>, \<open>inet_pton\<close> and \<open>getifaddrs\<close> are arguments.
\<close>

section \<open>Result codes and names\<close>

datatype errno =
  ECONNREFUSED | ETIMEDOUT | EHOSTUNREACH | ENETUNREACH | EINPROGRESS | EINTR | EAGAIN | OtherErrno int

definition MapConnectError :: "errno \<Rightarrow> int" where
  "MapConnectError err =
     (case err of ECONNREFUSED \<Rightarrow> PINGDD_SOCKET_CLOSED
      | ETIMEDOUT \<Rightarrow> PINGDD_SOCKET_TIMEOUT
      | EHOSTUNREACH \<Rightarrow> PINGDD_SOCKET_UNREACH
      | ENETUNREACH \<Rightarrow> PINGDD_SOCKET_UNREACH
      | _ \<Rightarrow> PINGDD_SOCKET_FAILURE)"

definition GetFriendlyTypeName :: "int \<Rightarrow> cstring" where
  "GetFriendlyTypeName type =
     (if type = SUCCESS then ''Success''
      else if type = PINGDD_SOCKET_TIMEOUT then ''Connection timeout''
      else if type = PINGDD_SOCKET_RESOLVE then ''Cannot resolve hostname''
      else if type = PINGDD_SOCKET_FAILURE then ''Socket general failure''
      else if type = PINGDD_SOCKET_CLOSED then ''Connection refused (closed port)''
      else if type = PINGDD_SOCKET_UNREACH then ''Destination unreachable''
      else if type = PINGDD_UDP_OPENFILTERED then ''No response (open|filtered)''
      else if type = PINGDD_INTERRUPTED then ''Interrupted''
      else if type = PINGDD_INVALID_ARGS then ''Invalid arguments''
      else ''Unknown error'')"

definition SetPortAndType :: "u16 \<Rightarrow> int \<Rightarrow> host_t \<Rightarrow> host_t" where
  "SetPortAndType port type host = host\<lparr>HostPort := port, HostType := type\<rparr>"

abbreviation SOCK_STREAM :: int where "SOCK_STREAM \<equiv> 1"
abbreviation SOCK_DGRAM :: int where "SOCK_DGRAM \<equiv> 2"
abbreviation SOCK_RAW :: int where "SOCK_RAW \<equiv> 3"
abbreviation IPPROTO_ICMPV6 :: int where "IPPROTO_ICMPV6 \<equiv> 58"

definition GetSocketType :: "int \<Rightarrow> int" where
  "GetSocketType type = (if type = IPPROTO_UDP then SOCK_DGRAM else SOCK_STREAM)"

section \<open>Addresses\<close>

fun is_v6 :: "sockaddr \<Rightarrow> bool" where
  "is_v6 (Inet6 a p) = True"
| "is_v6 _ = False"

fun SetSockAddrPort :: "sockaddr \<Rightarrow> u16 \<Rightarrow> sockaddr" where
  "SetSockAddrPort (Inet6 a p) port = Inet6 a port"
| "SetSockAddrPort (Inet a p) port = Inet a port"
| "SetSockAddrPort (OtherFamily f) port = OtherFamily f"

text \<open>\<open>inet_ntop\<close> leaves the buffer empty when the text does not fit.\<close>

definition SockAddrToString :: "(sockaddr \<Rightarrow> cstring) \<Rightarrow> sockaddr \<Rightarrow> nat \<Rightarrow> cstring" where
  "SockAddrToString ntop addr out_size = (if length (ntop addr) < out_size then ntop addr else [])"

text \<open>The loop over the list \<open>getaddrinfo\<close> returns: entries with the length of their address.\<close>

fun collect_addrs :: "(sockaddr \<times> nat) list \<Rightarrow> sockaddr list \<Rightarrow> sockaddr list" where
  "collect_addrs [] acc = acc"
| "collect_addrs ((a, len) # rest) acc =
     (if length acc \<ge> MAX_RESOLVED_ADDRS then acc
      else case a of
          OtherFamily f \<Rightarrow> collect_addrs rest acc
        | _ \<Rightarrow> if len > 128 then collect_addrs rest acc else collect_addrs rest (acc @ [a]))"

text \<open>\<open>gai\<close> is \<open>getaddrinfo\<close>, from the name, the socket type and the protocol of the hints.\<close>

definition Resolve ::
  "(cstring \<Rightarrow> int \<Rightarrow> int \<Rightarrow> (sockaddr \<times> nat) list option) \<Rightarrow> (sockaddr \<Rightarrow> cstring) \<Rightarrow>
   cstring \<Rightarrow> host_t \<Rightarrow> int \<times> host_t" where
  "Resolve gai ntop destination host =
     (let (socktype, protocol) =
            (if HostType host = IPPROTO_ICMP then (0, 0)
             else (GetSocketType (HostType host), HostType host))
      in case gai destination socktype protocol of
          None \<Rightarrow> (PINGDD_SOCKET_RESOLVE, host)
        | Some result \<Rightarrow>
            (let addrs = collect_addrs result []; h1 = host\<lparr>Addrs := addrs\<rparr>
             in if addrs = [] then (PINGDD_SOCKET_RESOLVE, h1)
                else (SUCCESS, h1\<lparr>Hostname := bounded_copy 256 destination,
                                  IPAddress := SockAddrToString ntop (hd addrs) 64,
                                  ReverseName := []\<rparr>)))"

text \<open>\<open>getnameinfo\<close> is an argument; \<open>None\<close> when there is no name (or it does not fit).\<close>

definition ReverseResolve :: "(sockaddr \<Rightarrow> cstring option) \<Rightarrow> sockaddr \<Rightarrow> nat \<Rightarrow> int \<times> cstring" where
  "ReverseResolve nameinfo addr out_size =
     (if out_size = 0 then (PINGDD_INVALID_ARGS, [])
      else case nameinfo addr of
          None \<Rightarrow> (PINGDD_SOCKET_RESOLVE, [])
        | Some name \<Rightarrow> if length name < out_size then (SUCCESS, name) else (PINGDD_SOCKET_RESOLVE, []))"

text \<open>Byte \<open>k\<close> of an IPv6 address, from the most significant one.\<close>

definition v6_byte :: "128 word \<Rightarrow> nat \<Rightarrow> u8" where
  "v6_byte a k = ucast (drop_bit (8 * (15 - k)) a)"

fun IsPrivateAddress :: "sockaddr \<Rightarrow> bool" where
  "IsPrivateAddress (Inet h p) =
     (drop_bit 24 h = 127 \<or> drop_bit 24 h = 10 \<or> h AND 0xFFF00000 = 0xAC100000 \<or>
      h AND 0xFFFF0000 = 0xC0A80000 \<or> h AND 0xFFFF0000 = 0xA9FE0000 \<or> h AND 0xFFC00000 = 0x64400000)"
| "IsPrivateAddress (Inet6 a p) =
     (let is_loopback = list_all (\<lambda>k. v6_byte a k = 0) [0..<15]
      in (is_loopback \<and> v6_byte a 15 = 1) \<or> v6_byte a 0 AND 0xFE = 0xFC \<or>
         (v6_byte a 0 = 0xFE \<and> v6_byte a 1 AND 0xC0 = 0x80))"
| "IsPrivateAddress (OtherFamily f) = False"

section \<open>Static state\<close>

record sock_state =
  g_src4 :: "u32 option"
  g_src6 :: "128 word option"
  g_tos :: int
  icmp_seq :: u16

definition SetTos :: "int \<Rightarrow> sock_state \<Rightarrow> sock_state" where
  "SetTos tos st = st\<lparr>g_tos := tos\<rparr>"

definition is_linklocal :: "128 word \<Rightarrow> bool" where
  "is_linklocal a = (drop_bit 118 a = 0x3FA)"

text \<open>The scan of \<open>getifaddrs\<close>: name and address of each entry, either of which may be null.\<close>

fun scan_ifaddrs ::
  "cstring \<Rightarrow> (cstring option \<times> sockaddr option) list \<Rightarrow> sock_state \<times> bool \<Rightarrow> sock_state \<times> bool" where
  "scan_ifaddrs spec [] r = r"
| "scan_ifaddrs spec ((name, addr) # rest) (st, found) =
     (case (addr, name) of
        (Some a, Some n) \<Rightarrow>
          if n \<noteq> spec then scan_ifaddrs spec rest (st, found)
          else (case a of
              Inet h p \<Rightarrow> scan_ifaddrs spec rest (st\<lparr>g_src4 := Some h\<rparr>, True)
            | Inet6 h p \<Rightarrow>
                if \<not> is_linklocal h \<or> g_src6 st = None
                then scan_ifaddrs spec rest (st\<lparr>g_src6 := Some h\<rparr>, True)
                else scan_ifaddrs spec rest (st, found)
            | OtherFamily f \<Rightarrow> scan_ifaddrs spec rest (st, found))
      | _ \<Rightarrow> scan_ifaddrs spec rest (st, found))"

definition SetSourceInterface ::
  "(cstring \<Rightarrow> u32 option) \<Rightarrow> (cstring \<Rightarrow> 128 word option) \<Rightarrow>
   (cstring option \<times> sockaddr option) list option \<Rightarrow> cstring \<Rightarrow> nat \<Rightarrow> sock_state \<Rightarrow>
   int \<times> cstring \<times> sock_state" where
  "SetSourceInterface pton4 pton6 ifaddrs spec err_size st =
     (if spec = [] then (PINGDD_INVALID_ARGS, [], st)
      else case pton4 spec of
          Some a4 \<Rightarrow> (SUCCESS, [], st\<lparr>g_src4 := Some a4\<rparr>)
        | None \<Rightarrow>
            (case pton6 spec of
               Some a6 \<Rightarrow> (SUCCESS, [], st\<lparr>g_src6 := Some a6\<rparr>)
             | None \<Rightarrow>
                 (case ifaddrs of
                    None \<Rightarrow> (PINGDD_INVALID_ARGS, bounded_copy err_size ''getifaddrs failed'', st)
                  | Some l \<Rightarrow>
                      (let (st1, found) = scan_ifaddrs spec l (st, False)
                       in if \<not> found
                          then (PINGDD_INVALID_ARGS,
                                bounded_copy err_size (''no address found for interface '' @ quoted spec), st1)
                          else (SUCCESS, [], st1)))))"

section \<open>Waiting\<close>

text \<open>
  One wait is a run of \<open>poll\<close> calls: each iteration has the value of \<open>g_interrupted\<close> and the seconds
  the timer shows, and ends with \<open>EINTR\<close> or with a final answer. \<open>WaitEvent\<close> returns the result of
  the wait and the timeouts it passed to \<open>poll\<close>.
\<close>

datatype poll_outcome = PollReady | PollTimeout | PollError

datatype poll_run =
    Eintr bool f64 poll_run
  | Final bool f64 poll_outcome

fun f64_to_long :: "f64 \<Rightarrow> int" where
  "f64_to_long (Fin q) = (if q \<ge> 0 then \<lfloor>q\<rfloor> else \<lceil>q\<rceil>)"
| "f64_to_long _ = 0"

definition remaining_ms :: "u32 \<Rightarrow> f64 \<Rightarrow> int" where
  "remaining_ms timeout_ms sec = uint timeout_ms - f64_to_long (fmul sec (Fin 1000))"

fun WaitEvent :: "u32 \<Rightarrow> poll_run \<Rightarrow> int \<times> int list" where
  "WaitEvent timeout_ms (Eintr interrupted sec run) =
     (if interrupted then (- 2, [])
      else let (r, ts) = WaitEvent timeout_ms run in (r, max 0 (remaining_ms timeout_ms sec) # ts))"
| "WaitEvent timeout_ms (Final interrupted sec outcome) =
     (if interrupted then (- 2, [])
      else (case outcome of PollError \<Rightarrow> - 1 | PollReady \<Rightarrow> 1 | PollTimeout \<Rightarrow> 0,
            [max 0 (remaining_ms timeout_ms sec)]))"

section \<open>Probes\<close>

text \<open>The calls of a probe on its descriptor, and the answers it gets.\<close>

datatype call =
    OpenCall int int
  | NonBlockCall
  | BindCall sockaddr
  | TosCall int
  | ConnectCall sockaddr
  | SendCall "u8 list"
  | WaitCall
  | SoErrorCall
  | RecvCall
  | CloseCall

text \<open>One turn of the ICMP receive loop: the seconds on the budget timer, the wait, and what
  \<open>recvfrom\<close> gives when the wait is over.\<close>

datatype icmp_turn = Turn f64 poll_run "errno + u8 list"

record probe_env =
  pe_socket :: bool
  pe_raw :: bool
  pe_nonblock :: bool
  pe_bind :: bool
  pe_connect :: "errno option"
  pe_send :: "errno option"
  pe_poll :: poll_run
  pe_soerror :: "errno option option"
  pe_recv :: "errno option"
  pe_elapsed :: f64
  pe_pid :: u16
  pe_turns :: "icmp_turn list"

definition BindSource :: "sock_state \<Rightarrow> probe_env \<Rightarrow> sockaddr \<Rightarrow> bool \<times> call list" where
  "BindSource st e addr =
     (case addr of
        Inet6 a p \<Rightarrow> (case g_src6 st of None \<Rightarrow> (True, []) | Some a6 \<Rightarrow> (pe_bind e, [BindCall (Inet6 a6 0)]))
      | Inet a p \<Rightarrow> (case g_src4 st of None \<Rightarrow> (True, []) | Some a4 \<Rightarrow> (pe_bind e, [BindCall (Inet a4 0)]))
      | OtherFamily f \<Rightarrow> (True, []))"

definition ApplyTos :: "sock_state \<Rightarrow> call list" where
  "ApplyTos st = (if g_tos st < 0 then [] else [TosCall (g_tos st)])"

text \<open>The steps every probe makes before it talks: non-blocking mode, source address, ToS.\<close>

definition prepare_fd :: "sock_state \<Rightarrow> probe_env \<Rightarrow> sockaddr \<Rightarrow> bool \<times> call list" where
  "prepare_fd st e addr =
     (if \<not> pe_nonblock e then (False, [NonBlockCall])
      else let (bound, calls) = BindSource st e addr
           in if \<not> bound then (False, NonBlockCall # calls)
              else (True, NonBlockCall # calls @ ApplyTos st))"

definition tcp_verdict :: "probe_env \<Rightarrow> u32 \<Rightarrow> int \<times> f64 \<times> call list" where
  "tcp_verdict e timeout_ms =
     (let w = fst (WaitEvent timeout_ms (pe_poll e))
      in if w = - 2 then (PINGDD_INTERRUPTED, Fin 0, [WaitCall, CloseCall])
         else if w = 0 then (PINGDD_SOCKET_TIMEOUT, Fin 0, [WaitCall, CloseCall])
         else if w < 0 then (PINGDD_SOCKET_FAILURE, Fin 0, [WaitCall, CloseCall])
         else (case pe_soerror e of
               None \<Rightarrow> (PINGDD_SOCKET_FAILURE, pe_elapsed e, [WaitCall, SoErrorCall, CloseCall])
             | Some (Some err) \<Rightarrow> (MapConnectError err, pe_elapsed e, [WaitCall, SoErrorCall, CloseCall])
             | Some None \<Rightarrow> (SUCCESS, pe_elapsed e, [WaitCall, SoErrorCall, CloseCall])))"

definition ProbeTcp :: "sock_state \<Rightarrow> probe_env \<Rightarrow> sockaddr \<Rightarrow> u32 \<Rightarrow> int \<times> f64 \<times> call list" where
  "ProbeTcp st e addr timeout_ms =
     (if \<not> pe_socket e then (PINGDD_SOCKET_FAILURE, Fin 0, [OpenCall SOCK_STREAM 0])
      else let (ready, setup) = prepare_fd st e addr; before = OpenCall SOCK_STREAM 0 # setup
      in if \<not> ready then (PINGDD_SOCKET_FAILURE, Fin 0, before @ [CloseCall])
         else if pe_connect e \<noteq> None \<and> the (pe_connect e) \<noteq> EINPROGRESS
         then (MapConnectError (the (pe_connect e)), pe_elapsed e, before @ [ConnectCall addr, CloseCall])
         else let (r, rtt, calls) = tcp_verdict e timeout_ms
              in (r, rtt, before @ [ConnectCall addr] @ calls))"

definition udp_verdict :: "probe_env \<Rightarrow> u32 \<Rightarrow> int \<times> f64 \<times> call list" where
  "udp_verdict e timeout_ms =
     (let w = fst (WaitEvent timeout_ms (pe_poll e))
      in if w = - 2 then (PINGDD_INTERRUPTED, Fin 0, [WaitCall, CloseCall])
         else if w = 0 then (PINGDD_UDP_OPENFILTERED, Fin 0, [WaitCall, CloseCall])
         else if w < 0 then (PINGDD_SOCKET_FAILURE, Fin 0, [WaitCall, CloseCall])
         else (case pe_recv e of
               Some err \<Rightarrow> (MapConnectError err, pe_elapsed e, [WaitCall, RecvCall, CloseCall])
             | None \<Rightarrow> (SUCCESS, pe_elapsed e, [WaitCall, RecvCall, CloseCall])))"

definition ProbeUdp :: "sock_state \<Rightarrow> probe_env \<Rightarrow> sockaddr \<Rightarrow> u32 \<Rightarrow> int \<times> f64 \<times> call list" where
  "ProbeUdp st e addr timeout_ms =
     (if \<not> pe_socket e then (PINGDD_SOCKET_FAILURE, Fin 0, [OpenCall SOCK_DGRAM 0])
      else let (ready, setup) = prepare_fd st e addr; before = OpenCall SOCK_DGRAM 0 # setup
      in if \<not> ready then (PINGDD_SOCKET_FAILURE, Fin 0, before @ [CloseCall])
         else if pe_connect e \<noteq> None
         then (PINGDD_SOCKET_FAILURE, Fin 0, before @ [ConnectCall addr, CloseCall])
         else (case pe_send e of
               Some err \<Rightarrow> (MapConnectError err, pe_elapsed e,
                 before @ [ConnectCall addr, SendCall [0], CloseCall])
             | None \<Rightarrow>
                 (let (r, rtt, calls) = udp_verdict e timeout_ms
                  in (r, rtt, before @ [ConnectCall addr, SendCall [0]] @ calls))))"

section \<open>ICMP echo\<close>

definition hi_byte :: "u16 \<Rightarrow> u8" where "hi_byte w = ucast (drop_bit 8 w)"
definition lo_byte :: "u16 \<Rightarrow> u8" where "lo_byte w = ucast (w AND 0xFF)"

definition be16 :: "u8 \<Rightarrow> u8 \<Rightarrow> u16" where
  "be16 a b = push_bit 8 (ucast a) OR ucast b"

text \<open>The 16-byte packet: header, identifier, sequence number, then \<open>ABCDEFGH\<close>. The checksum field
  is filled for IPv4 only.\<close>

definition icmp_packet :: "bool \<Rightarrow> u16 \<Rightarrow> u16 \<Rightarrow> u8 list" where
  "icmp_packet v6 ident seq =
     (let pkt = [if v6 then 128 else 8, 0, 0, 0, hi_byte ident, lo_byte ident, hi_byte seq, lo_byte seq] @
                map (\<lambda>j. of_nat (65 + j)) [0..<8];
          cks = IcmpChecksum pkt
      in if v6 then pkt else pkt[2 := hi_byte cks, 3 := lo_byte cks])"

text \<open>Where the ICMP header starts in a received packet, and whether it answers our request.\<close>

definition icmp_offset :: "bool \<Rightarrow> bool \<Rightarrow> u8 list \<Rightarrow> nat" where
  "icmp_offset is_raw v6 data =
     (if is_raw \<and> \<not> v6 \<and> data \<noteq> [] then unat ((data ! 0 AND 0x0F) * 4) else 0)"

definition echo_match :: "bool \<Rightarrow> bool \<Rightarrow> u16 \<Rightarrow> u16 \<Rightarrow> u8 list \<Rightarrow> bool" where
  "echo_match is_raw v6 ident seq data =
     (let off = icmp_offset is_raw v6 data
      in if length data < off + 8 then False
         else if data ! off \<noteq> (if v6 then 129 else 0) then False
         else be16 (data ! (off + 6)) (data ! (off + 7)) = seq \<and>
              \<not> (is_raw \<and> be16 (data ! (off + 4)) (data ! (off + 5)) \<noteq> ident))"

definition reply_ttl :: "bool \<Rightarrow> bool \<Rightarrow> u8 list \<Rightarrow> int \<Rightarrow> int" where
  "reply_ttl is_raw v6 data ttl =
     (if is_raw \<and> \<not> v6 \<and> length data \<ge> 9 then uint (data ! 8) else ttl)"

text \<open>The receive loop, over the turns it goes through; \<open>None\<close> when the turns run out before it
  returns. Result: code, time, TTL and calls.\<close>

fun icmp_loop ::
  "u32 \<Rightarrow> bool \<Rightarrow> bool \<Rightarrow> u16 \<Rightarrow> u16 \<Rightarrow> f64 \<Rightarrow> int \<Rightarrow> icmp_turn list \<Rightarrow> (int \<times> f64 \<times> int \<times> call list) option" where
  "icmp_loop timeout_ms is_raw v6 ident seq elapsed ttl [] = None"
| "icmp_loop timeout_ms is_raw v6 ident seq elapsed ttl (Turn sec run recv # rest) =
     (let remaining = remaining_ms timeout_ms sec
      in if remaining \<le> 0 then Some (PINGDD_SOCKET_TIMEOUT, Fin 0, ttl, [CloseCall])
         else let w = fst (WaitEvent (uint32 remaining) run)
         in if w = - 2 then Some (PINGDD_INTERRUPTED, Fin 0, ttl, [WaitCall, CloseCall])
            else if w = 0 then Some (PINGDD_SOCKET_TIMEOUT, Fin 0, ttl, [WaitCall, CloseCall])
            else if w < 0 then Some (PINGDD_SOCKET_FAILURE, Fin 0, ttl, [WaitCall, CloseCall])
            else (case recv of
                Inl err \<Rightarrow>
                  if err = EINTR \<or> err = EAGAIN
                  then map_option (\<lambda>(r, rtt, t, cs). (r, rtt, t, WaitCall # RecvCall # cs))
                         (icmp_loop timeout_ms is_raw v6 ident seq elapsed ttl rest)
                  else Some (MapConnectError err, Fin 0, ttl, [WaitCall, RecvCall, CloseCall])
              | Inr data \<Rightarrow>
                  if echo_match is_raw v6 ident seq data
                  then Some (SUCCESS, elapsed, reply_ttl is_raw v6 data ttl, [WaitCall, RecvCall, CloseCall])
                  else map_option (\<lambda>(r, rtt, t, cs). (r, rtt, t, WaitCall # RecvCall # cs))
                         (icmp_loop timeout_ms is_raw v6 ident seq elapsed ttl rest)))"

text \<open>The static sequence counter is incremented first; the descriptor is a datagram socket, or a raw
  one when that is refused.\<close>

definition ProbeIcmp ::
  "sock_state \<Rightarrow> probe_env \<Rightarrow> sockaddr \<Rightarrow> u32 \<Rightarrow> int \<Rightarrow> (int \<times> f64 \<times> int \<times> call list) option" where
  "ProbeIcmp st e addr timeout_ms ttl =
     (let v6 = is_v6 addr; proto = (if v6 then IPPROTO_ICMPV6 else IPPROTO_ICMP);
          ident = pe_pid e; seq = icmp_seq st;
          is_raw = (\<not> pe_socket e);
          opened = (if pe_socket e then [OpenCall SOCK_DGRAM proto]
                    else [OpenCall SOCK_DGRAM proto, OpenCall SOCK_RAW proto])
      in if is_raw \<and> \<not> pe_raw e then Some (PINGDD_SOCKET_FAILURE, Fin 0, ttl, opened)
         else let (ready, setup) = prepare_fd st e addr; before = opened @ setup
         in if \<not> ready then Some (PINGDD_SOCKET_FAILURE, Fin 0, ttl, before @ [CloseCall])
            else let pkt = icmp_packet v6 ident seq
            in (case pe_send e of
                  Some err \<Rightarrow> Some (MapConnectError err, Fin 0, ttl, before @ [SendCall pkt, CloseCall])
                | None \<Rightarrow>
                    map_option (\<lambda>(r, rtt, t, cs). (r, rtt, t, before @ SendCall pkt # cs))
                      (icmp_loop timeout_ms is_raw v6 ident seq (pe_elapsed e) ttl (pe_turns e))))"

definition next_icmp_seq :: "sock_state \<Rightarrow> sock_state" where
  "next_icmp_seq st = st\<lparr>icmp_seq := icmp_seq st + 1\<rparr>"

section \<open>Connect\<close>

text \<open>One address: the probe of the protocol of the host. Result: code, time, TTL, new state, calls.\<close>

definition probe_addr ::
  "sock_state \<Rightarrow> probe_env \<Rightarrow> host_t \<Rightarrow> sockaddr \<Rightarrow> u32 \<Rightarrow> int \<Rightarrow>
   (int \<times> f64 \<times> int \<times> sock_state \<times> call list) option" where
  "probe_addr st e host addr timeout_ms ttl =
     (if HostType host = IPPROTO_ICMP then
        let st1 = next_icmp_seq st
        in map_option (\<lambda>(r, rtt, t, cs). (r, rtt, t, st1, cs)) (ProbeIcmp st1 e addr timeout_ms ttl)
      else if HostType host = IPPROTO_UDP then
        let (r, rtt, cs) = ProbeUdp st e (SetSockAddrPort addr (HostPort host)) timeout_ms
        in Some (r, rtt, ttl, st, cs)
      else let (r, rtt, cs) = ProbeTcp st e (SetSockAddrPort addr (HostPort host)) timeout_ms
        in Some (r, rtt, ttl, st, cs))"

record connect_result =
  cr_code :: int
  cr_rtt :: f64
  cr_addr :: sockaddr
  cr_ttl :: int
  cr_state :: sock_state
  cr_log :: "(int \<times> call list) list"

text \<open>The fail-over loop: \<open>probe\<close> is one address at its index; the result of the last address stands
  when none ends the loop. \<open>cr_addr\<close> is the address reported in \<open>out_ip\<close>, \<open>cr_log\<close> has the
  code and the calls of each probe.\<close>

fun connect_loop ::
  "(nat \<Rightarrow> sockaddr \<Rightarrow> int \<Rightarrow> sock_state \<Rightarrow> (int \<times> f64 \<times> int \<times> sock_state \<times> call list) option) \<Rightarrow>
   nat \<Rightarrow> sockaddr list \<Rightarrow> int \<Rightarrow> sock_state \<Rightarrow> (int \<times> call list) list \<Rightarrow> connect_result option" where
  "connect_loop probe i [] ttl st lg = None"
| "connect_loop probe i (addr # rest) ttl st lg =
     (case probe i addr ttl st of
        None \<Rightarrow> None
      | Some (r, rtt, ttl', st', cs) \<Rightarrow>
          if r = SUCCESS \<or> r = PINGDD_INTERRUPTED \<or> rest = []
          then Some \<lparr>cr_code = r, cr_rtt = rtt, cr_addr = addr, cr_ttl = ttl', cr_state = st',
                     cr_log = lg @ [(r, cs)]\<rparr>
          else connect_loop probe (i + 1) rest ttl' st' (lg @ [(r, cs)]))"

definition Connect ::
  "(sockaddr \<Rightarrow> cstring) \<Rightarrow> (nat \<Rightarrow> probe_env) \<Rightarrow> host_t \<Rightarrow> u32 \<Rightarrow> nat \<Rightarrow> sock_state \<Rightarrow>
   (int \<times> f64 \<times> cstring option \<times> int \<times> sock_state) option" where
  "Connect ntop envs host timeout_ms out_ip_size st =
     (if Addrs host = [] then Some (PINGDD_INVALID_ARGS, Fin 0, None, - 1, st)
      else map_option (\<lambda>c. (cr_code c, cr_rtt c, Some (SockAddrToString ntop (cr_addr c) out_ip_size),
                            cr_ttl c, cr_state c))
             (connect_loop (\<lambda>i addr ttl st'. probe_addr st' (envs i) host addr timeout_ms ttl)
               0 (Addrs host) (- 1) st []))"

section \<open>Descriptors\<close>

text \<open>A probe that got a descriptor ends by closing it, closes it nowhere else, and sets the ToS byte
  (when one is configured) before it connects or sends; one that got none closes nothing.\<close>

fun opens :: "call \<Rightarrow> bool" where
  "opens (OpenCall t p) = True"
| "opens _ = False"

fun talks :: "call \<Rightarrow> bool" where
  "talks (ConnectCall a) = True"
| "talks (SendCall d) = True"
| "talks _ = False"

definition closed_once :: "call list \<Rightarrow> bool" where
  "closed_once cs \<longleftrightarrow> cs \<noteq> [] \<and> last cs = CloseCall \<and> CloseCall \<notin> set (butlast cs)"

definition tos_first :: "sock_state \<Rightarrow> call list \<Rightarrow> bool" where
  "tos_first st cs \<longleftrightarrow> (g_tos st < 0 \<or> TosCall (g_tos st) \<in> set (takeWhile (\<lambda>c. \<not> talks c) cs) \<or>
     (\<forall>c \<in> set cs. \<not> talks c))"

definition disciplined :: "sock_state \<Rightarrow> call list \<Rightarrow> bool" where
  "disciplined st cs \<longleftrightarrow> (list_all opens cs \<or> closed_once cs) \<and> tos_first st cs"

lemma closed_once_append [simp]:
  assumes "CloseCall \<notin> set xs"
  shows "closed_once (xs @ ys) = closed_once ys"
proof (cases "ys = []")
  case True
  then show ?thesis using assms unfolding closed_once_def by (metis append_Nil2 last_in_set)
next
  case False
  then show ?thesis using assms by (auto simp: closed_once_def butlast_append)
qed

lemma closed_once_Cons [simp]: "c \<noteq> CloseCall \<Longrightarrow> closed_once (c # cs) = closed_once cs"
  using closed_once_append [of "[c]" cs] by simp

lemma closed_once_Close [simp]: "closed_once [CloseCall]"
  by (simp add: closed_once_def)

lemma prepare_fd_calls:
  "prepare_fd st e addr = (ok, cs) \<Longrightarrow> (\<forall>c \<in> set cs. \<not> talks c \<and> c \<noteq> CloseCall) \<and>
     (ok \<longrightarrow> g_tos st < 0 \<or> TosCall (g_tos st) \<in> set cs)"
  by (auto simp: prepare_fd_def BindSource_def ApplyTos_def split: if_splits sockaddr.splits option.splits)

lemma disciplined_talk:
  assumes "prepare_fd st e addr = (True, pre)" and "\<forall>c \<in> set opened. opens c" and "closed_once tail"
  shows "disciplined st (opened @ pre @ tail)"
proof -
  note p = prepare_fd_calls [OF assms(1)]
  have o: "\<forall>c \<in> set opened. \<not> talks c \<and> c \<noteq> CloseCall" using assms(2) by (auto elim!: opens.elims)
  have "takeWhile (\<lambda>c. \<not> talks c) (opened @ pre @ tail) = opened @ pre @ takeWhile (\<lambda>c. \<not> talks c) tail"
    using p o by (simp add: takeWhile_append)
  then have "tos_first st (opened @ pre @ tail)" using p by (auto simp: tos_first_def)
  moreover have "closed_once (opened @ pre @ tail)"
    using p o assms(3) by (subst closed_once_append; auto)+
  ultimately show ?thesis by (simp add: disciplined_def)
qed

lemma disciplined_stop:
  assumes "prepare_fd st e addr = (False, pre)" and "\<forall>c \<in> set opened. opens c"
  shows "disciplined st (opened @ pre @ [CloseCall])"
proof -
  note p = prepare_fd_calls [OF assms(1)]
  have o: "\<forall>c \<in> set opened. \<not> talks c \<and> c \<noteq> CloseCall" using assms(2) by (auto elim!: opens.elims)
  have "closed_once (opened @ pre @ [CloseCall])" using p o by (subst closed_once_append; auto)+
  moreover have "\<forall>c \<in> set (opened @ pre @ [CloseCall]). \<not> talks c" using p o by auto
  ultimately show ?thesis by (simp add: disciplined_def tos_first_def)
qed

lemma disciplined_none: "list_all opens cs \<Longrightarrow> disciplined st cs"
  by (auto simp: disciplined_def tos_first_def list_all_iff elim!: talks.elims dest!: bspec)

lemma tcp_verdict_closed: "tcp_verdict e t = (r, rtt, cs) \<Longrightarrow> closed_once cs"
  by (auto simp: tcp_verdict_def Let_def split: if_splits option.splits)

lemma udp_verdict_closed: "udp_verdict e t = (r, rtt, cs) \<Longrightarrow> closed_once cs"
  by (auto simp: udp_verdict_def Let_def split: if_splits option.splits)

lemma ProbeTcp_disciplined: "ProbeTcp st e addr t = (r, rtt, cs) \<Longrightarrow> disciplined st cs"
proof (cases "prepare_fd st e addr")
  case (Pair ok pre)
  assume "ProbeTcp st e addr t = (r, rtt, cs)"
  with Pair show ?thesis
    using disciplined_talk [of st e addr pre "[OpenCall SOCK_STREAM 0]"]
      disciplined_stop [of st e addr pre "[OpenCall SOCK_STREAM 0]"]
    by (auto simp: ProbeTcp_def Let_def disciplined_none split: if_splits prod.splits dest: tcp_verdict_closed)
qed

lemma ProbeUdp_disciplined: "ProbeUdp st e addr t = (r, rtt, cs) \<Longrightarrow> disciplined st cs"
proof (cases "prepare_fd st e addr")
  case (Pair ok pre)
  assume "ProbeUdp st e addr t = (r, rtt, cs)"
  with Pair show ?thesis
    using disciplined_talk [of st e addr pre "[OpenCall SOCK_DGRAM 0]"]
      disciplined_stop [of st e addr pre "[OpenCall SOCK_DGRAM 0]"]
    by (auto simp: ProbeUdp_def Let_def disciplined_none split: if_splits prod.splits option.splits
        dest: udp_verdict_closed)
qed

lemma icmp_loop_closed:
  "icmp_loop t raw v6 ident seq el ttl turns = Some (r, rtt, ttl', cs) \<Longrightarrow> closed_once cs"
  by (induction t raw v6 ident seq el ttl turns arbitrary: r rtt ttl' cs rule: icmp_loop.induct)
    (auto simp: Let_def split: if_splits sum.splits)

lemma ProbeIcmp_disciplined: "ProbeIcmp st e addr t ttl = Some (r, rtt, ttl', cs) \<Longrightarrow> disciplined st cs"
proof (cases "prepare_fd st e addr")
  case (Pair ok pre)
  let ?opened = "if pe_socket e then [OpenCall SOCK_DGRAM (if is_v6 addr then IPPROTO_ICMPV6 else IPPROTO_ICMP)]
    else [OpenCall SOCK_DGRAM (if is_v6 addr then IPPROTO_ICMPV6 else IPPROTO_ICMP),
          OpenCall SOCK_RAW (if is_v6 addr then IPPROTO_ICMPV6 else IPPROTO_ICMP)]"
  assume "ProbeIcmp st e addr t ttl = Some (r, rtt, ttl', cs)"
  with Pair show ?thesis
    using disciplined_talk [of st e addr pre ?opened] disciplined_stop [of st e addr pre ?opened]
    by (auto simp: ProbeIcmp_def Let_def disciplined_none split: if_splits option.splits
        dest: icmp_loop_closed)
qed

lemma disciplined_next [simp]: "disciplined (next_icmp_seq st) = disciplined st"
  by (simp add: fun_eq_iff disciplined_def tos_first_def next_icmp_seq_def)

lemma probe_addr_disciplined:
  "probe_addr st e host addr t ttl = Some (r, rtt, ttl', st', cs) \<Longrightarrow> disciplined st cs \<and> g_tos st' = g_tos st"
  using ProbeIcmp_disciplined [of "next_icmp_seq st" e addr t ttl]
  by (auto simp: probe_addr_def Let_def split: if_splits prod.splits
      dest: ProbeTcp_disciplined ProbeUdp_disciplined) (simp_all add: next_icmp_seq_def)

section \<open>Fail-over\<close>

text \<open>What the loop leaves, whatever the probe of one address is: the addresses are tried in order,
  every earlier result was neither success nor interruption, and the reported address and code are
  those of the last probe made, which is the last address unless the probe ended the loop.\<close>

definition failover :: "sockaddr list \<Rightarrow> connect_result \<Rightarrow> bool" where
  "failover addrs c \<longleftrightarrow>
     0 < length (cr_log c) \<and> length (cr_log c) \<le> length addrs \<and>
     cr_addr c = addrs ! (length (cr_log c) - 1) \<and>
     fst (last (cr_log c)) = cr_code c \<and>
     (\<forall>p \<in> set (butlast (cr_log c)). fst p \<noteq> SUCCESS \<and> fst p \<noteq> PINGDD_INTERRUPTED) \<and>
     (length (cr_log c) = length addrs \<or> cr_code c = SUCCESS \<or> cr_code c = PINGDD_INTERRUPTED)"

lemma connect_loop_log:
  "connect_loop probe i addrs ttl st lg = Some c \<Longrightarrow> \<exists>l. cr_log c = lg @ l \<and> failover addrs (c\<lparr>cr_log := l\<rparr>)"
proof (induction probe i addrs ttl st lg arbitrary: c rule: connect_loop.induct)
  case (2 probe i addr rest ttl st lg)
  from 2(2) obtain r rtt ttl' st' cs where p: "probe i addr ttl st = Some (r, rtt, ttl', st', cs)"
    by (auto split: option.splits)
  show ?case
  proof (cases "r = SUCCESS \<or> r = PINGDD_INTERRUPTED \<or> rest = []")
    case True
    then show ?thesis using 2(2) p by (auto simp: failover_def)
  next
    case False
    then have "connect_loop probe (i + 1) rest ttl' st' (lg @ [(r, cs)]) = Some c" using 2(2) p by auto
    from 2(1) [OF p refl refl refl refl False this] obtain l where
      l: "cr_log c = lg @ (r, cs) # l" "failover rest (c\<lparr>cr_log := l\<rparr>)" by auto
    then have "failover (addr # rest) (c\<lparr>cr_log := (r, cs) # l\<rparr>)"
      using False by (auto simp: failover_def nth_Cons')
    with l(1) show ?thesis by blast
  qed
qed simp

lemma connect_loop_calls:
  assumes "\<And>i a t s r rtt t' s' cs. probe i a t s = Some (r, rtt, t', s', cs) \<Longrightarrow> I s \<Longrightarrow> P cs \<and> I s'"
  shows "connect_loop probe i addrs ttl st lg = Some c \<Longrightarrow> I st \<Longrightarrow> \<forall>p \<in> set lg. P (snd p) \<Longrightarrow>
    \<forall>p \<in> set (cr_log c). P (snd p)"
  using assms
proof (induction probe i addrs ttl st lg arbitrary: c rule: connect_loop.induct)
  case (2 probe i addr rest ttl st lg)
  from 2(2) obtain r rtt ttl' st' cs where p: "probe i addr ttl st = Some (r, rtt, ttl', st', cs)"
    by (auto split: option.splits)
  then have "P cs" "I st'" using 2(3,5) by blast+
  then show ?case
    using 2(1) [OF p refl refl refl refl, of c] 2(2,4,5) p by (auto split: if_splits)
qed simp

section \<open>Prefixes\<close>

lemma prefix_mask:
  fixes x c :: "'a :: len word"
  assumes "c AND mask k = 0"
  shows "x AND NOT (mask k) = c \<longleftrightarrow> drop_bit k x = drop_bit k c"
proof
  have "drop_bit k x = drop_bit k (x AND NOT (mask k))"
    by (rule bit_word_eqI) (auto simp: bit_simps dest: bit_imp_le_length)
  then show "x AND NOT (mask k) = c \<Longrightarrow> drop_bit k x = drop_bit k c" by simp
next
  assume h: "drop_bit k x = drop_bit k c"
  have c: "\<not> bit c n" if "n < k" for n
    using that assms by (auto simp: bit_eq_iff bit_simps dest: bit_imp_le_length)
  have "bit x n = bit c n" if "k \<le> n" for n
  proof -
    have "bit (drop_bit k x) (n - k) = bit (drop_bit k c) (n - k)" using h by simp
    then show ?thesis using that by (simp add: bit_simps)
  qed
  then show "x AND NOT (mask k) = c"
  proof (intro bit_word_eqI)
    fix n
    assume "n < LENGTH('a)"
    then show "bit (x AND NOT (mask k)) n = bit c n"
      using c [of n] \<open>\<And>n. k \<le> n \<Longrightarrow> bit x n = bit c n\<close> [of n] by (cases "n < k") (simp_all add: bit_simps)
  qed
qed

lemma bit_v6_byte: "bit (v6_byte a k) j \<longleftrightarrow> j < 8 \<and> bit a (8 * (15 - k) + j)"
  by (auto simp: v6_byte_def bit_simps dest: bit_imp_le_length)

lemma v6_zero_byte: "v6_byte a k = 0 \<longleftrightarrow> (\<forall>j < 8. \<not> bit a (8 * (15 - k) + j))"
  by (auto simp: bit_eq_iff bit_v6_byte)

lemma v6_loopback: "list_all (\<lambda>k. v6_byte a k = 0) [0..<15] \<and> v6_byte a 15 = 1 \<longleftrightarrow> a = 1"
proof
  assume h: "list_all (\<lambda>k. v6_byte a k = 0) [0..<15] \<and> v6_byte a 15 = 1"
  show "a = 1"
  proof (rule bit_word_eqI)
    fix n
    assume n: "n < LENGTH(128)"
    show "bit a n = bit (1 :: 128 word) n"
    proof (cases "n < 8")
      case True
      have "bit (v6_byte a 15) n = bit (1 :: u8) n" using h by simp
      then show ?thesis using True by (simp add: bit_v6_byte bit_1_iff)
    next
      case False
      have "n div 8 \<le> 15" "1 \<le> n div 8" using n False by (simp_all add: Suc_le_eq div_greater_zero_iff less_Suc_eq_le [symmetric] less_mult_imp_div_less)
      then have "15 - n div 8 < 15" "15 - (15 - n div 8) = n div 8" by auto
      then have "v6_byte a (15 - n div 8) = 0" "8 * (15 - (15 - n div 8)) + n mod 8 = n"
        using h by (auto simp: list_all_iff)
      then have "\<not> bit a n" using v6_zero_byte [of a "15 - n div 8"] by (metis mod_less_divisor zero_less_numeral)
      then show ?thesis using False by (simp add: bit_1_iff)
    qed
  qed
next
  have "list_all (\<lambda>k. v6_byte 1 k = 0) [0..<15] \<and> v6_byte 1 15 = 1" by code_simp
  then show "a = 1 \<Longrightarrow> list_all (\<lambda>k. v6_byte a k = 0) [0..<15] \<and> v6_byte a 15 = 1" by simp
qed

lemma v6_byte_0: "unat (v6_byte a 0) = unat a div 2 ^ 120"
proof -
  have "unat a < 2 ^ 128" using unsigned_less [of a] by simp
  then have "unat a div 2 ^ 120 < 256" by (simp add: less_mult_imp_div_less)
  then show ?thesis
    unfolding v6_byte_def unsigned_ucast_eq unat_drop_bit_eq by (simp add: take_bit_eq_mod drop_bit_eq_div)
qed

lemma v6_prefix_7: "v6_byte a 0 AND 0xFE = 0xFC \<longleftrightarrow> drop_bit 121 a = 0x7E"
proof -
  have "v6_byte a 0 AND 0xFE = 0xFC \<longleftrightarrow> drop_bit 1 (v6_byte a 0) = drop_bit 1 (0xFC :: u8)"
  proof -
    have "NOT (mask 1) = (0xFE :: u8)" "(0xFC :: u8) AND mask 1 = 0" by code_simp+
    then show ?thesis using prefix_mask [of "0xFC :: u8" 1 "v6_byte a 0"] by metis
  qed
  also have "\<dots> \<longleftrightarrow> unat (v6_byte a 0) div 2 = 0x7E"
    unfolding word_unat_eq_iff unat_drop_bit_eq by (simp add: drop_bit_eq_div)
  also have "\<dots> \<longleftrightarrow> unat a div 2 ^ 121 = 0x7E" by (simp add: v6_byte_0 div_mult2_eq [symmetric])
  also have "\<dots> \<longleftrightarrow> drop_bit 121 a = 0x7E"
    unfolding word_unat_eq_iff unat_drop_bit_eq by (simp add: drop_bit_eq_div)
  finally show ?thesis .
qed

lemma v6_byte_1: "unat (v6_byte a 1) = unat a div 2 ^ 112 mod 256"
  unfolding v6_byte_def unsigned_ucast_eq unat_drop_bit_eq by (simp add: take_bit_eq_mod drop_bit_eq_div)

lemma v6_prefix_10: "v6_byte a 0 = 0xFE \<and> v6_byte a 1 AND 0xC0 = 0x80 \<longleftrightarrow> drop_bit 118 a = 0x3FA"
proof -
  let ?N = "unat a div 2 ^ 112"
  have "v6_byte a 1 AND 0xC0 = 0x80 \<longleftrightarrow> drop_bit 6 (v6_byte a 1) = drop_bit 6 (0x80 :: u8)"
  proof -
    have "NOT (mask 6) = (0xC0 :: u8)" "(0x80 :: u8) AND mask 6 = 0" by code_simp+
    then show ?thesis using prefix_mask [of "0x80 :: u8" 6 "v6_byte a 1"] by metis
  qed
  also have "\<dots> \<longleftrightarrow> ?N mod 256 div 64 = 2"
    unfolding word_unat_eq_iff unat_drop_bit_eq v6_byte_1 by (simp add: drop_bit_eq_div)
  finally have 1: "v6_byte a 1 AND 0xC0 = 0x80 \<longleftrightarrow> ?N mod 256 div 64 = 2" .
  have "unat a div 2 ^ 120 = ?N div 256" by (simp add: div_mult2_eq [symmetric])
  then have 0: "v6_byte a 0 = 0xFE \<longleftrightarrow> ?N div 256 = 254"
    using v6_byte_0 [of a] by (simp add: word_unat_eq_iff)
  have "drop_bit 118 a = 0x3FA \<longleftrightarrow> unat a div 2 ^ 118 = 1018"
    unfolding word_unat_eq_iff unat_drop_bit_eq by (simp add: drop_bit_eq_div)
  also have "unat a div 2 ^ 118 = ?N div 64" by (simp add: div_mult2_eq [symmetric])
  finally have "drop_bit 118 a = 0x3FA \<longleftrightarrow> ?N div 64 = 1018" .
  moreover have "m div 64 = 4 * (m div 256) + m mod 256 div 64" for m :: nat
  proof -
    have "(m mod 256 + 64 * (4 * (m div 256))) div 64 = m mod 256 div 64 + 4 * (m div 256)"
      using div_mult_self2 [of 64 "m mod 256" "4 * (m div 256)"] by simp
    moreover have "m mod 256 + 64 * (4 * (m div 256)) = m" by simp
    ultimately show ?thesis by simp
  qed
  then have "?N div 64 = 4 * (?N div 256) + ?N mod 256 div 64" .
  moreover have "?N mod 256 div 64 < 4" by (simp add: less_mult_imp_div_less)
  moreover have "d = 254 \<and> r = 2 \<longleftrightarrow> q = 1018" if "q = 4 * d + r" "r < 4" for q d r :: nat
    using that by presburger
  ultimately show ?thesis unfolding 0 1 by blast
qed

text \<open>The 32-bit masks of the IPv4 prefixes.\<close>

lemma v4_masks:
  "NOT (mask 20) = (0xFFF00000 :: u32)" "(0xAC100000 :: u32) AND mask 20 = 0"
  "NOT (mask 16) = (0xFFFF0000 :: u32)" "(0xC0A80000 :: u32) AND mask 16 = 0"
  "(0xA9FE0000 :: u32) AND mask 16 = 0"
  "NOT (mask 22) = (0xFFC00000 :: u32)" "(0x64400000 :: u32) AND mask 22 = 0"
  by code_simp+

lemma v4_prefixes:
  "h AND 0xFFF00000 = (0xAC100000 :: u32) \<longleftrightarrow> drop_bit 20 h = drop_bit 20 0xAC100000"
  "h AND 0xFFFF0000 = (0xC0A80000 :: u32) \<longleftrightarrow> drop_bit 16 h = drop_bit 16 0xC0A80000"
  "h AND 0xFFFF0000 = (0xA9FE0000 :: u32) \<longleftrightarrow> drop_bit 16 h = drop_bit 16 0xA9FE0000"
  "h AND 0xFFC00000 = (0x64400000 :: u32) \<longleftrightarrow> drop_bit 22 h = drop_bit 22 0x64400000"
  using prefix_mask [OF v4_masks(2), of h] prefix_mask [OF v4_masks(4), of h]
    prefix_mask [OF v4_masks(5), of h] prefix_mask [OF v4_masks(7), of h]
  by (simp_all only: v4_masks)

text \<open>CIDR blocks: the reference for the classification.\<close>

definition in_cidr :: "u32 \<Rightarrow> nat \<Rightarrow> u32 \<Rightarrow> bool" where
  "in_cidr net len h \<longleftrightarrow> unat h div 2 ^ (32 - len) = unat net div 2 ^ (32 - len)"

lemma in_cidr_drop: "in_cidr net len h \<longleftrightarrow> drop_bit (32 - len) h = drop_bit (32 - len) net"
  unfolding in_cidr_def word_unat_eq_iff unat_drop_bit_eq by (simp add: drop_bit_eq_div)

definition private_blocks :: "(u32 \<times> nat) list" where
  "private_blocks = [(0x7F000000, 8), (0x0A000000, 8), (0xAC100000, 12), (0xC0A80000, 16),
     (0xA9FE0000, 16), (0x64400000, 10)]"

section \<open>Echo requests\<close>

lemma lo_byte_take: "lo_byte w = ucast (take_bit 8 w)"
proof -
  have "(0xFF :: u16) = mask 8" by code_simp
  then show ?thesis by (simp add: lo_byte_def take_bit_eq_mask)
qed

lemma be16_bytes [simp]: "be16 (hi_byte w) (lo_byte w) = w"
  unfolding be16_def hi_byte_def lo_byte_take
  by (rule bit_word_eqI) (auto simp: bit_simps dest: bit_imp_le_length)

lemma be16_byte_eqs: "hi_byte w = ucast (drop_bit 8 w)" "lo_byte w = ucast (w AND 0xFF)"
  by (simp_all add: hi_byte_def lo_byte_def)

lemma icmp_packet_v4:
  "icmp_packet False ident seq =
     (let post = [hi_byte ident, lo_byte ident, hi_byte seq, lo_byte seq] @ map (\<lambda>j. of_nat (65 + j)) [0..<8];
          cks = IcmpChecksum ([8, 0] @ 0 # 0 # post)
      in [8, 0] @ hi_byte cks # lo_byte cks # post)"
  by (simp add: icmp_packet_def Let_def)

lemma icmp_packet_length [simp]: "length (icmp_packet v6 ident seq) = 16"
  by (simp add: icmp_packet_def Let_def)

lemma icmp_packet_fields:
  "icmp_packet v6 ident seq ! 4 = hi_byte ident" "icmp_packet v6 ident seq ! 5 = lo_byte ident"
  "icmp_packet v6 ident seq ! 6 = hi_byte seq" "icmp_packet v6 ident seq ! 7 = lo_byte seq"
  by (simp_all add: icmp_packet_def Let_def)

text \<open>The reply a host sends: the request with the type of a reply, behind the IP header when the
  socket is raw.\<close>

definition echo_reply_of :: "bool \<Rightarrow> u8 list \<Rightarrow> u8 list" where
  "echo_reply_of v6 pkt = pkt[0 := if v6 then 129 else 0]"

lemma echo_match_reply:
  "echo_match False v6 ident' seq' (echo_reply_of v6 (icmp_packet v6 ident seq)) \<longleftrightarrow> seq' = seq"
  by (auto simp: echo_match_def icmp_offset_def echo_reply_of_def icmp_packet_fields Let_def)

lemma echo_match_raw:
  assumes "length header = 20" and "header ! 0 = 0x45"
  shows "echo_match True False ident' seq' (header @ echo_reply_of False (icmp_packet False ident seq)) \<longleftrightarrow>
    ident' = ident \<and> seq' = seq"
proof -
  have "header \<noteq> []" using assms(1) by auto
  moreover have "unat ((0x45 AND 0x0F) * 4 :: u8) = 20" by code_simp
  ultimately have "icmp_offset True False (header @ echo_reply_of False (icmp_packet False ident seq)) = 20"
    using assms by (simp add: icmp_offset_def nth_append)
  then show ?thesis
    using assms(1) by (auto simp: echo_match_def echo_reply_of_def icmp_packet_fields Let_def nth_append)
qed

section \<open>Times and address lists\<close>

lemma remaining_ms_le: "Fin 0 \<le> sec \<Longrightarrow> remaining_ms timeout_ms sec \<le> uint timeout_ms"
proof -
  assume "Fin 0 \<le> sec"
  then have "0 \<le> f64_to_long (fmul sec (Fin 1000))"
  proof (cases sec)
    case (Fin q)
    then have "0 \<le> q" using \<open>Fin 0 \<le> sec\<close> by simp
    then have "Fin 0 \<le> to_f64 (q * 1000)" by (intro to_f64_nonneg) simp
    then show ?thesis using Fin by (cases "to_f64 (q * 1000)") auto
  qed auto
  then show ?thesis by (simp add: remaining_ms_def)
qed

fun usable_addr :: "sockaddr \<Rightarrow> bool" where
  "usable_addr (OtherFamily f) = False"
| "usable_addr _ = True"

lemma collect_addrs_eq:
  "length acc \<le> MAX_RESOLVED_ADDRS \<Longrightarrow> collect_addrs entries acc =
     acc @ take (MAX_RESOLVED_ADDRS - length acc) (filter usable_addr (map fst (filter (\<lambda>e. snd e \<le> 128) entries)))"
proof (induction entries acc rule: collect_addrs.induct)
  case (2 a len rest acc)
  then show ?case
    by (cases "length acc = MAX_RESOLVED_ADDRS"; cases a) (auto simp: take_Cons' Suc_diff_Suc)
qed simp

section \<open>Properties\<close>



text \<open>C5: fail-over. When \<open>Connect\<close> returns for a host with addresses, the address it reports is
  one of the resolved ones, it is the last one unless the result is success or an interruption, and
  a success or interruption is never overwritten by a later address.\<close>

theorem Connect_failover:
  assumes "Connect ntop envs host timeout_ms n st = Some (r, rtt, ip, ttl, st')" and "Addrs host \<noteq> []"
  shows "\<exists>c. connect_loop (\<lambda>i addr t s. probe_addr s (envs i) host addr timeout_ms t)
        0 (Addrs host) (- 1) st [] = Some c \<and> failover (Addrs host) c \<and> r = cr_code c \<and>
      (\<exists>k < length (Addrs host). ip = Some (SockAddrToString ntop (Addrs host ! k) n) \<and>
        (k + 1 = length (Addrs host) \<or> r = SUCCESS \<or> r = PINGDD_INTERRUPTED))"
proof -
  obtain c where c: "connect_loop (\<lambda>i addr t s. probe_addr s (envs i) host addr timeout_ms t)
      0 (Addrs host) (- 1) st [] = Some c" "r = cr_code c"
    "ip = Some (SockAddrToString ntop (cr_addr c) n)"
    using assms by (auto simp: Connect_def)
  obtain l where "cr_log c = [] @ l" "failover (Addrs host) (c\<lparr>cr_log := l\<rparr>)"
    using connect_loop_log [OF c(1)] by blast
  then have f: "failover (Addrs host) c" by (simp add: failover_def)
  then have k: "length (cr_log c) - 1 < length (Addrs host)"
    "cr_addr c = Addrs host ! (length (cr_log c) - 1)"
    "length (cr_log c) - 1 + 1 = length (Addrs host) \<or> r = SUCCESS \<or> r = PINGDD_INTERRUPTED"
    using c(2) unfolding failover_def by linarith+
  show ?thesis
  proof (intro exI conjI)
    show "ip = Some (SockAddrToString ntop (Addrs host ! (length (cr_log c) - 1)) n)"
      using c(3) k(2) by simp
  qed (fact c f k)+
qed

theorem Connect_failover_witness:
  "\<exists>r ip st'. Connect (\<lambda>a. ''addr'')
      (\<lambda>i. \<lparr>pe_socket = (i = 1), pe_raw = True, pe_nonblock = True, pe_bind = True, pe_connect = None,
       pe_send = None, pe_poll = Final False (Fin 0) PollReady, pe_soerror = Some None, pe_recv = None,
       pe_elapsed = Fin 1, pe_pid = 7, pe_turns = []\<rparr>)
      (blank_host\<lparr>HostType := IPPROTO_TCP, HostPort := 80, Addrs := [Inet 1 0, Inet 2 0, Inet 3 0]\<rparr>)
      1000 64 \<lparr>g_src4 = None, g_src6 = None, g_tos = - 1, icmp_seq = 0\<rparr> = Some (r, Fin 1, ip, - 1, st') \<and>
    r = SUCCESS \<and> ip \<noteq> None"
proof -
  let ?envs = "\<lambda>i :: nat. \<lparr>pe_socket = (i = 1), pe_raw = True, pe_nonblock = True, pe_bind = True, pe_connect = None,
       pe_send = None, pe_poll = Final False (Fin 0) PollReady, pe_soerror = Some None, pe_recv = None,
       pe_elapsed = Fin 1, pe_pid = 7, pe_turns = []\<rparr>"
  let ?h = "blank_host\<lparr>HostType := IPPROTO_TCP, HostPort := 80, Addrs := [Inet 1 0, Inet 2 0, Inet 3 0]\<rparr>"
  let ?st = "\<lparr>g_src4 = None, g_src6 = None, g_tos = - 1, icmp_seq = 0\<rparr>"
  have e: "Connect (\<lambda>a. ''addr'') ?envs ?h 1000 64 ?st = Some (SUCCESS, Fin 1, Some ''addr'', - 1, ?st)"
    by (simp add: Connect_def probe_addr_def ProbeTcp_def prepare_fd_def BindSource_def ApplyTos_def
        tcp_verdict_def SockAddrToString_def)
  from Connect_failover [OF this] e show ?thesis by auto
qed

text \<open>C39: private addresses. The masks of \<open>IsPrivateAddress\<close> are the documented blocks: the five
  IPv4 blocks and 169.254.0.0/16 by CIDR, and for IPv6 exactly ::1, fc00::/7 and fe80::/10.\<close>

theorem IsPrivateAddress_blocks:
  "IsPrivateAddress (Inet h p) = (\<exists>(net, len) \<in> set private_blocks. in_cidr net len h) \<and>
   IsPrivateAddress (Inet6 a p) = (a = 1 \<or> drop_bit 121 a = 0x7E \<or> drop_bit 118 a = 0x3FA)"
proof -
  have "drop_bit 24 (0x7F000000 :: u32) = 127" "drop_bit 24 (0x0A000000 :: u32) = 10" by code_simp+
  then have "IsPrivateAddress (Inet h p) = (\<exists>(net, len) \<in> set private_blocks. in_cidr net len h)"
    by (simp add: v4_prefixes private_blocks_def in_cidr_drop)
  moreover have "IsPrivateAddress (Inet6 a p) = (a = 1 \<or> drop_bit 121 a = 0x7E \<or> drop_bit 118 a = 0x3FA)"
    using v6_loopback [of a] v6_prefix_7 [of a] v6_prefix_10 [of a] by (simp add: Let_def)
  ultimately show ?thesis by blast
qed



fun run_interrupted :: "poll_run \<Rightarrow> bool" where
  "run_interrupted (Eintr i sec run) = (i \<or> run_interrupted run)"
| "run_interrupted (Final i sec outcome) = i"

fun run_times :: "poll_run \<Rightarrow> f64 list" where
  "run_times (Eintr i sec run) = sec # run_times run"
| "run_times (Final i sec outcome) = [sec]"

text \<open>waiting. For a timer that never runs backwards, every timeout handed to \<open>poll\<close> lies between
  0 and the requested timeout, so no wait is unbounded; the result is one of the four documented
  codes, and it is the interruption code exactly when an iteration saw the interrupt flag.\<close>

theorem WaitEvent_bounded:
  assumes "\<forall>sec \<in> set (run_times run). Fin 0 \<le> sec"
  shows "(\<forall>t \<in> set (snd (WaitEvent timeout_ms run)). 0 \<le> t \<and> t \<le> uint timeout_ms) \<and>
    fst (WaitEvent timeout_ms run) \<in> {- 2, - 1, 0, 1} \<and>
    (fst (WaitEvent timeout_ms run) = - 2 \<longleftrightarrow> run_interrupted run)"
  using assms
proof (induction run)
  case (Eintr i sec run)
  then show ?case using remaining_ms_le [of sec timeout_ms] by (auto split: prod.splits)
next
  case (Final i sec outcome)
  then show ?case using remaining_ms_le [of sec timeout_ms] by (auto split: poll_outcome.splits)
qed

theorem WaitEvent_bounded_witness:
  "snd (WaitEvent 1000 (Eintr False (Fin 0) (Final False (Fin (1 / 2)) PollTimeout))) \<noteq> [] \<and>
   fst (WaitEvent 1000 (Eintr False (Fin 0) (Final False (Fin (1 / 2)) PollTimeout))) \<noteq> - 2"
  using WaitEvent_bounded [of "Eintr False (Fin 0) (Final False (Fin (1 / 2)) PollTimeout)" 1000] by simp



end
