(* ===== verification/Targets.thy ===== *)
theory Targets
  imports Arguments Socket Diag Growable
begin

text \<open>
  \<open>targets.c\<close>: the list of probe targets. The tokenizer and the small parsers come first, then the
  growable list, the parsers of one target, the construction of the whole list from the arguments
  and its resolution. The list is the list of its valid entries with the capacity of the block;
  \<open>ok\<close> answers \<open>realloc\<close> from the capacity asked for. The parsers fail with what they leave in the
  caller's error buffer: \<open>None\<close> when they do not write it.
\<close>

section \<open>Tokens\<close>

definition pd_strtok_r :: "(char \<Rightarrow> bool) \<Rightarrow> cstring option \<Rightarrow> (cstring \<times> cstring option) option" where
  "pd_strtok_r delim str =
     (case str of None \<Rightarrow> None
      | Some s \<Rightarrow>
          (let start = dropWhile delim s
           in if start = [] then None
              else let tok = takeWhile (\<lambda>c. \<not> delim c) start; end = dropWhile (\<lambda>c. \<not> delim c) start
              in Some (tok, if end = [] then None else Some (tl end))))"

lemma pd_strtok_r_shrinks:
  "pd_strtok_r delim (Some s) = Some (tok, Some rest) \<Longrightarrow> length rest < length s"
proof -
  assume "pd_strtok_r delim (Some s) = Some (tok, Some rest)"
  then have e: "dropWhile (\<lambda>c. \<not> delim c) (dropWhile delim s) \<noteq> []"
    "rest = tl (dropWhile (\<lambda>c. \<not> delim c) (dropWhile delim s))"
    by (auto simp: pd_strtok_r_def Let_def split: if_splits)
  show ?thesis
    unfolding e(2) using tl_dropWhile_less [OF e(1)] dropWhile_length_le [of delim s] by linarith
qed

lemma pd_strtok_r_Some:
  "pd_strtok_r delim str = Some (tok, save) \<Longrightarrow>
     \<exists>s. str = Some s \<and> (case save of None \<Rightarrow> True | Some rest \<Rightarrow> length rest < length s)"
proof -
  assume h: "pd_strtok_r delim str = Some (tok, save)"
  then obtain s where "str = Some s" by (cases str) (auto simp: pd_strtok_r_def)
  with h show ?thesis by (auto split: option.split dest: pd_strtok_r_shrinks)
qed

text \<open>The \<open>for (tok = pd_strtok_r(buf, ...); tok != NULL; tok = pd_strtok_r(NULL, ...))\<close> loops.\<close>

function token_loop :: "(char \<Rightarrow> bool) \<Rightarrow> cstring option \<Rightarrow> cstring list" where
  "token_loop delim str =
     (case pd_strtok_r delim str of None \<Rightarrow> [] | Some (tok, save) \<Rightarrow> tok # token_loop delim save)"
  by pat_completeness auto
termination
  by (relation "measure (\<lambda>(delim, str). case str of None \<Rightarrow> 0 | Some s \<Rightarrow> length s + 1)")
    (auto split: option.splits dest: pd_strtok_r_Some)

declare token_loop.simps [simp del]

definition tokens :: "(char \<Rightarrow> bool) \<Rightarrow> cstring \<Rightarrow> cstring list" where
  "tokens delim s = token_loop delim (Some s)"

abbreviation comma :: "char \<Rightarrow> bool" where "comma c \<equiv> c = CHR '',''"
abbreviation blank :: "char \<Rightarrow> bool" where "blank c \<equiv> c = CHR '' '' \<or> c = CHR 0x09"

section \<open>Protocols and ports\<close>

text \<open>A buffer of eight bytes takes at most seven characters of the token.\<close>

definition ProtoFromToken :: "cstring \<Rightarrow> int option" where
  "ProtoFromToken tok =
     (let low = map tolower (take 7 tok)
      in if low = ''tcp'' then Some IPPROTO_TCP
         else if low = ''udp'' then Some IPPROTO_UDP
         else if low = ''icmp'' then Some IPPROTO_ICMP
         else None)"

text \<open>The bounds of one token of a port list, and the token as the error message has it: it ends at
  the dash, which the parser has overwritten.\<close>

definition port_bounds :: "cstring \<Rightarrow> int \<times> int \<times> cstring" where
  "port_bounds tok =
     (case strchr CHR ''-'' tok of
        Some (a, b) \<Rightarrow> (lp_value (strtol a), lp_value (strtol b), a)
      | None \<Rightarrow> (lp_value (strtol tok), lp_value (strtol tok), tok))"

function push_ports :: "nat \<Rightarrow> int \<Rightarrow> int \<Rightarrow> u16 list \<Rightarrow> u16 list option" where
  "push_ports limit lo hi out =
     (if lo > hi then Some out
      else if length out \<ge> limit then None
      else push_ports limit (lo + 1) hi (out @ [uint16 lo]))"
  by pat_completeness auto
termination
  by (relation "measure (\<lambda>(limit, lo, hi, out). nat (hi - lo + 1))") auto

declare push_ports.simps [simp del]

fun parse_ports :: "nat \<Rightarrow> cstring list \<Rightarrow> u16 list \<Rightarrow> cstring + u16 list" where
  "parse_ports limit [] out = Inr out"
| "parse_ports limit (tok # toks) out =
     (let (lo, hi, shown) = port_bounds tok
      in if lo < 1 \<or> hi > 65535 \<or> lo > hi then Inl (''invalid port spec near '' @ quoted shown)
         else case push_ports limit lo hi out of
             None \<Rightarrow> Inl (''too many ports (max '' @ dec limit @ '')'')
           | Some out' \<Rightarrow> parse_ports limit toks out')"

definition ParsePortList :: "cstring option \<Rightarrow> nat \<Rightarrow> nat \<Rightarrow> cstring + u16 list" where
  "ParsePortList spec limit err_size =
     (case spec of None \<Rightarrow> Inr []
      | Some s \<Rightarrow>
          (case parse_ports limit (tokens comma (bounded_copy 512 s)) [] of
             Inl msg \<Rightarrow> Inl (bounded_copy err_size msg)
           | Inr ports \<Rightarrow> Inr ports))"

fun parse_protos :: "nat \<Rightarrow> cstring list \<Rightarrow> int list \<Rightarrow> cstring option + int list" where
  "parse_protos limit [] out = Inr out"
| "parse_protos limit (tok # toks) out =
     (case ProtoFromToken tok of
        None \<Rightarrow> Inl (Some (''invalid protocol '' @ quoted tok))
      | Some t \<Rightarrow> if length out \<ge> limit then Inl None else parse_protos limit toks (out @ [t]))"

definition ParseProtoList :: "cstring option \<Rightarrow> nat \<Rightarrow> nat \<Rightarrow> cstring option + int list" where
  "ParseProtoList spec limit err_size =
     (case spec of None \<Rightarrow> Inr [IPPROTO_TCP]
      | Some s \<Rightarrow>
          (case parse_protos limit (tokens comma (bounded_copy 64 s)) [] of
             Inl msg \<Rightarrow> Inl (map_option (bounded_copy err_size) msg)
           | Inr [] \<Rightarrow> Inr [IPPROTO_TCP]
           | Inr protos \<Rightarrow> Inr protos))"

section \<open>The target list\<close>

record probe_target_t =
  Label :: cstring
  Host :: cstring
  TgPort :: u16
  TgType :: int
  Resolved :: host_t
  ResolveOk :: bool
  ResolveErr :: int
  TgStats :: stats_t
  TgDiag :: diag_t
  LastResult :: int
  LastRtt :: f64
  LastIp :: cstring
  LastTtl :: int

record target_list_t =
  Items :: "probe_target_t list"
  TgCap :: nat

text \<open>An entry as \<open>memset\<close> and \<open>TargetList_Add\<close> leave it.\<close>

definition zero_diag :: diag_t where
  "zero_diag =
     \<lparr>DnsMs = Fin 0, DnsFailed = False, ConsecFails = 0, LongestFailStreak = 0, Outages = 0,
      IsDown = False, BaselineSec = Fin 0, EwmaSec = Fin 0, EwmaInit = False, HighLatency = False,
      Silent = False\<rparr>"

definition target_label :: "cstring \<Rightarrow> u16 \<Rightarrow> int \<Rightarrow> cstring" where
  "target_label host port type =
     bounded_copy 336
       (if type = IPPROTO_ICMP then host @ '' icmp''
        else host @ '':'' @ dec (unat port) @ '' '' @ (if type = IPPROTO_UDP then ''udp'' else ''tcp''))"

definition new_target :: "cstring \<Rightarrow> u16 \<Rightarrow> int \<Rightarrow> probe_target_t" where
  "new_target host port type =
     (let h = bounded_copy 256 host
      in \<lparr>Label = target_label h port type, Host = h, TgPort = port, TgType = type,
          Resolved = blank_host, ResolveOk = False, ResolveErr = 0, TgStats = Stats_Init,
          TgDiag = zero_diag, LastResult = 0, LastRtt = Fin 0, LastIp = [], LastTtl = 0\<rparr>)"

definition next_cap :: "target_list_t \<Rightarrow> nat" where
  "next_cap l = (if TgCap l = 0 then 8 else TgCap l * 2)"

text \<open>Storing an entry, with \<open>ok\<close> the answer of \<open>realloc\<close> when the block is full.\<close>

definition push_target :: "bool \<Rightarrow> target_list_t \<Rightarrow> probe_target_t \<Rightarrow> target_list_t" where
  "push_target ok l t =
     (if length (Items l) = TgCap l
      then if ok then l\<lparr>Items := Items l @ [t], TgCap := next_cap l\<rparr> else l
      else l\<lparr>Items := Items l @ [t]\<rparr>)"

definition TargetList_Add ::
  "(nat \<Rightarrow> bool) \<Rightarrow> target_list_t \<Rightarrow> cstring \<Rightarrow> u16 \<Rightarrow> int \<Rightarrow> target_list_t option" where
  "TargetList_Add ok l host port type =
     (if length (Items l) = TgCap l \<and> \<not> ok (next_cap l) then None
      else Some (push_target (ok (next_cap l)) l (new_target host port type)))"

definition empty_list :: target_list_t where
  "empty_list = \<lparr>Items = [], TgCap = 0\<rparr>"

text \<open>A call whose failure leaves the error buffer alone.\<close>

definition add_target ::
  "(nat \<Rightarrow> bool) \<Rightarrow> target_list_t \<Rightarrow> cstring \<times> u16 \<times> int \<Rightarrow> cstring option + target_list_t" where
  "add_target ok l k =
     (case k of (host, port, type) \<Rightarrow>
        (case TargetList_Add ok l host port type of None \<Rightarrow> Inl None | Some l' \<Rightarrow> Inr l'))"

section \<open>One target\<close>

text \<open>The protocol after the last slash, and the text before it.\<close>

definition spec_proto :: "cstring \<Rightarrow> (cstring \<times> int) option" where
  "spec_proto work =
     (case strrchr CHR ''/'' work of
        None \<Rightarrow> Some (work, IPPROTO_TCP)
      | Some (a, b) \<Rightarrow> map_option (Pair a) (ProtoFromToken b))"

text \<open>Host and port: \<open>[host]:port\<close>, \<open>host:port\<close> split at the last colon, or a host alone. \<open>None\<close>
  for a bracket that is not closed.\<close>

definition spec_host :: "cstring \<Rightarrow> (cstring \<times> int) option" where
  "spec_host work =
     (if work \<noteq> [] \<and> hd work = CHR ''['' then
        (case strchr CHR '']'' work of
           None \<Rightarrow> None
         | Some (a, b) \<Rightarrow>
             Some (bounded_copy 256 (tl a),
                   if b \<noteq> [] \<and> hd b = CHR '':'' then lp_value (strtol (tl b)) else 0))
      else (case strrchr CHR '':'' work of
          Some (a, b) \<Rightarrow> Some (bounded_copy 256 a, lp_value (strtol b))
        | None \<Rightarrow> Some (bounded_copy 256 work, 0)))"

definition parse_spec :: "cstring \<Rightarrow> nat \<Rightarrow> cstring option + cstring \<times> u16 \<times> int" where
  "parse_spec spec err_size =
     (let err = (\<lambda>msg. Inl (Some (bounded_copy err_size msg)))
      in case spec_proto (bounded_copy 300 spec) of
          None \<Rightarrow> err (''invalid protocol in '' @ quoted spec)
        | Some (work, type) \<Rightarrow>
            (case spec_host work of
               None \<Rightarrow> err (''unterminated '' @ quoted ''['' @ '' in '' @ quoted spec)
             | Some (host, port) \<Rightarrow>
                 if host = [] then err (''missing host in '' @ quoted spec)
                 else if type \<noteq> IPPROTO_ICMP \<and> (port < 1 \<or> port > 65535)
                 then err (''TCP/UDP target '' @ quoted spec @ '' needs a valid port'')
                 else Inr (host, uint16 port, type)))"

definition AddSpec ::
  "(nat \<Rightarrow> bool) \<Rightarrow> nat \<Rightarrow> target_list_t \<Rightarrow> cstring \<Rightarrow> cstring option + target_list_t" where
  "AddSpec ok err_size l spec =
     (case parse_spec spec err_size of Inl e \<Rightarrow> Inl e | Inr k \<Rightarrow> add_target ok l k)"

text \<open>The fields of a line after the host: a protocol, a port, or something the loop ignores.\<close>

fun line_fields :: "cstring list \<Rightarrow> int \<Rightarrow> int option \<Rightarrow> int \<times> int option" where
  "line_fields [] type port = (type, port)"
| "line_fields (tok # toks) type port =
     (case ProtoFromToken tok of
        Some t \<Rightarrow> line_fields toks t port
      | None \<Rightarrow>
          (let p = strtol tok
           in line_fields toks type (if lp_moved p \<and> lp_end p = [] then Some (lp_value p) else port)))"

text \<open>\<open>Inr None\<close> for a line without fields.\<close>

definition parse_file_line :: "cstring \<Rightarrow> nat \<Rightarrow> cstring option + (cstring \<times> u16 \<times> int) option" where
  "parse_file_line line err_size =
     (case tokens blank line of
        [] \<Rightarrow> Inr None
      | tok # toks \<Rightarrow>
          (let host = bounded_copy 256 tok; (type, port) = line_fields toks IPPROTO_TCP None
           in if host = [] then Inr None
              else if type \<noteq> IPPROTO_ICMP \<and> port = None
              then Inl (Some (bounded_copy err_size (''targets-file line for '' @ quoted host @ '' needs a port'')))
              else Inr (Some (host, uint16 (case port of None \<Rightarrow> 0 | Some p \<Rightarrow> p), type))))"

definition AddFileLine ::
  "(nat \<Rightarrow> bool) \<Rightarrow> nat \<Rightarrow> target_list_t \<Rightarrow> cstring \<Rightarrow> cstring option + target_list_t" where
  "AddFileLine ok err_size l line =
     (case parse_file_line line err_size of
        Inl e \<Rightarrow> Inl e
      | Inr None \<Rightarrow> Inr l
      | Inr (Some k) \<Rightarrow> add_target ok l k)"

section \<open>The whole list\<close>

fun bind_all :: "('s \<Rightarrow> 'a \<Rightarrow> 'e + 's) \<Rightarrow> 's \<Rightarrow> 'a list \<Rightarrow> 'e + 's" where
  "bind_all f s [] = Inr s"
| "bind_all f s (x # xs) = (case f s x of Inl e \<Rightarrow> Inl e | Inr s' \<Rightarrow> bind_all f s' xs)"

text \<open>The targets of the positional hosts, in the order of the three nested loops.\<close>

definition matrix_keys :: "cstring list \<Rightarrow> int list \<Rightarrow> u16 list \<Rightarrow> (cstring \<times> u16 \<times> int) list" where
  "matrix_keys hosts protos ports =
     concat (map (\<lambda>h. concat (map (\<lambda>t. if t = IPPROTO_ICMP then [(h, 0, IPPROTO_ICMP)]
                                       else map (\<lambda>p. (h, p, t)) ports) protos)) hosts)"

definition host_matrix :: "arguments_t \<Rightarrow> nat \<Rightarrow> cstring option + (cstring \<times> u16 \<times> int) list" where
  "host_matrix args err_size =
     (if Hosts args = [] then Inr []
      else case ParsePortList (PortSpec args) 1024 err_size of
          Inl msg \<Rightarrow> Inl (Some msg)
        | Inr ports \<Rightarrow>
            (case ParseProtoList (ProtoSpec args) 8 err_size of
               Inl e \<Rightarrow> Inl e
             | Inr protos \<Rightarrow>
                 if (\<exists>t \<in> set protos. t \<noteq> IPPROTO_ICMP) \<and> ports = []
                 then Inl (Some (bounded_copy err_size
                        ''TCP/UDP targets need a port: pass -p <port[,list,a-b]>''))
                 else Inr (matrix_keys (Hosts args) protos ports)))"

text \<open>One line \<open>fgets\<close> read: cut at the first CR or LF, leading blanks skipped; empty lines and
  comments are passed over.\<close>

definition file_line_text :: "char list \<Rightarrow> cstring" where
  "file_line_text raw =
     dropWhile blank (takeWhile (\<lambda>c. c \<noteq> CHR 0x0D \<and> c \<noteq> newline) (cstr raw))"

definition add_raw_line ::
  "(nat \<Rightarrow> bool) \<Rightarrow> nat \<Rightarrow> target_list_t \<Rightarrow> char list \<Rightarrow> cstring option + target_list_t" where
  "add_raw_line ok err_size l raw =
     (let p = file_line_text raw
      in if p = [] \<or> hd p = CHR ''#'' then Inr l else AddFileLine ok err_size l p)"

definition add_file ::
  "(cstring \<Rightarrow> char list option) \<Rightarrow> (nat \<Rightarrow> bool) \<Rightarrow> nat \<Rightarrow> arguments_t \<Rightarrow> target_list_t \<Rightarrow>
   cstring option + target_list_t" where
  "add_file fopen ok err_size args l =
     (case TargetsFile args of None \<Rightarrow> Inr l
      | Some path \<Rightarrow>
          (case fopen path of
             None \<Rightarrow> Inl (Some (bounded_copy err_size (''cannot open targets file '' @ quoted path)))
           | Some content \<Rightarrow> bind_all (add_raw_line ok err_size) l (file_lines 512 content)))"

definition Targets_Build ::
  "(cstring \<Rightarrow> char list option) \<Rightarrow> (nat \<Rightarrow> bool) \<Rightarrow> arguments_t \<Rightarrow> nat \<Rightarrow>
   cstring option + target_list_t" where
  "Targets_Build fopen ok args err_size =
     (case host_matrix args err_size of
        Inl e \<Rightarrow> Inl e
      | Inr keys \<Rightarrow>
          (case bind_all (add_target ok) empty_list keys of
             Inl e \<Rightarrow> Inl e
           | Inr l1 \<Rightarrow>
               (case bind_all (AddSpec ok err_size) l1 (TargetSpecs args) of
                  Inl e \<Rightarrow> Inl e
                | Inr l2 \<Rightarrow>
                    (case add_file fopen ok err_size args l2 of
                       Inl e \<Rightarrow> Inl e
                     | Inr l3 \<Rightarrow>
                         if Items l3 = [] then Inl (Some (bounded_copy err_size ''no valid targets''))
                         else Inr l3))))"

text \<open>
  Resolution: an entry takes the addresses of the first earlier entry with the same host that
  resolved, and asks the resolver otherwise. \<open>resolve\<close> is \<open>Resolve\<close> at the index of the entry.
\<close>

fun find_cached :: "cstring \<Rightarrow> probe_target_t list \<Rightarrow> host_t option" where
  "find_cached host [] = None"
| "find_cached host (p # ps) =
     (if ResolveOk p \<and> Host p = host then Some (Resolved p) else find_cached host ps)"

definition resolve_target ::
  "(nat \<Rightarrow> cstring \<Rightarrow> host_t \<Rightarrow> int \<times> host_t) \<Rightarrow> probe_target_t list \<Rightarrow> probe_target_t \<Rightarrow> probe_target_t" where
  "resolve_target resolve done t =
     (case find_cached (Host t) done of
        Some h \<Rightarrow> t\<lparr>Resolved := h\<lparr>HostType := TgType t, HostPort := TgPort t\<rparr>, ResolveOk := True\<rparr>
      | None \<Rightarrow>
          (let (r, h) = resolve (length done) (Host t) (SetPortAndType (TgPort t) (TgType t) (Resolved t))
           in t\<lparr>Resolved := h, ResolveErr := r, ResolveOk := (r = SUCCESS)\<rparr>))"

fun resolve_all ::
  "(nat \<Rightarrow> cstring \<Rightarrow> host_t \<Rightarrow> int \<times> host_t) \<Rightarrow> probe_target_t list \<Rightarrow> probe_target_t list \<Rightarrow> nat \<Rightarrow>
   probe_target_t list \<times> nat" where
  "resolve_all resolve done [] n = (done, n)"
| "resolve_all resolve done (t # ts) n =
     (let t' = resolve_target resolve done t
      in resolve_all resolve (done @ [t']) ts (if ResolveOk t' then n + 1 else n))"

definition Targets_Resolve ::
  "(nat \<Rightarrow> cstring \<Rightarrow> host_t \<Rightarrow> int \<times> host_t) \<Rightarrow> target_list_t \<Rightarrow> target_list_t \<times> nat" where
  "Targets_Resolve resolve l =
     (let (items, n) = resolve_all resolve [] (Items l) 0 in (l\<lparr>Items := items\<rparr>, n))"

text \<open>The samples of every entry are freed, then the block; a list without a block stays.\<close>

definition Targets_Free :: "target_list_t \<Rightarrow> target_list_t" where
  "Targets_Free l = (if TgCap l = 0 then l else \<lparr>Items = [], TgCap = 0\<rparr>)"

section \<open>Tokens are the nonempty fields\<close>

fun fields :: "(char \<Rightarrow> bool) \<Rightarrow> cstring \<Rightarrow> cstring list" where
  "fields delim [] = [[]]"
| "fields delim (c # cs) =
     (if delim c then [] # fields delim cs
      else (c # hd (fields delim cs)) # tl (fields delim cs))"

lemma fields_nonempty [simp]: "fields delim s \<noteq> []"
  by (cases s) auto

lemma fields_prefix:
  "(\<And>c. c \<in> set xs \<Longrightarrow> \<not> delim c) \<Longrightarrow>
   fields delim (xs @ ys) = (xs @ hd (fields delim ys)) # tl (fields delim ys)"
  by (induction xs) auto

lemma fields_plain [simp]: "(\<And>c. c \<in> set xs \<Longrightarrow> \<not> delim c) \<Longrightarrow> fields delim xs = [xs]"
  using fields_prefix [of xs delim "[]"] by simp

lemma fields_split:
  assumes "\<And>c. c \<in> set xs \<Longrightarrow> \<not> delim c" and "delim d"
  shows "fields delim (xs @ d # ys) = xs # fields delim ys"
  using fields_prefix [of xs delim "d # ys"] assms by simp

lemma fields_skip: "filter (\<lambda>f. f \<noteq> []) (fields delim (dropWhile delim s)) = filter (\<lambda>f. f \<noteq> []) (fields delim s)"
  by (induction s) auto

lemma token_loop_fields:
  "token_loop delim str =
     (case str of None \<Rightarrow> [] | Some s \<Rightarrow> filter (\<lambda>f. f \<noteq> []) (fields delim s))"
proof (induction delim str rule: token_loop.induct)
  case (1 delim str)
  show ?case
  proof (cases "pd_strtok_r delim str")
    case None
    have "filter (\<lambda>f. f \<noteq> []) (fields delim s) = []" if "str = Some s" for s
    proof -
      have "dropWhile delim s = []" using None that by (simp only: pd_strtok_r_def Let_def option.case option.distinct split: if_splits)
      then show ?thesis using fields_skip [of delim s] by (simp only:) simp
    qed
    with None show ?thesis by (subst token_loop.simps) (auto split: option.splits)
  next
    case (Some p)
    obtain tok save where p: "pd_strtok_r delim str = Some (tok, save)" using Some by (cases p) auto
    then obtain s where s: "str = Some s" by (auto dest: pd_strtok_r_Some)
    let ?st = "dropWhile delim s"
    let ?rest = "dropWhile (\<lambda>c. \<not> delim c) ?st"
    have t: "?st \<noteq> []" "tok = takeWhile (\<lambda>c. \<not> delim c) ?st" "save = (if ?rest = [] then None else Some (tl ?rest))"
      using p unfolding s by (auto simp: pd_strtok_r_def Let_def split: if_splits)
    have st: "?st = tok @ ?rest" unfolding t(2) by simp
    have nd: "\<And>c. c \<in> set tok \<Longrightarrow> \<not> delim c" unfolding t(2) by (auto dest: set_takeWhileD)
    have ne: "tok \<noteq> []" unfolding t(2) using t(1) hd_dropWhile [OF t(1)] by (cases ?st) auto
    have "filter (\<lambda>f. f \<noteq> []) (fields delim s) = filter (\<lambda>f. f \<noteq> []) (fields delim (tok @ ?rest))"
      using fields_skip [of delim s] st by simp
    also have "\<dots> = tok # (case save of None \<Rightarrow> [] | Some r \<Rightarrow> filter (\<lambda>f. f \<noteq> []) (fields delim r))"
    proof (cases "?rest = []")
      case True
      have "fields delim (tok @ []) = [tok]" using fields_plain [of tok delim] nd by simp
      then show ?thesis using t(3) ne unfolding True by simp
    next
      case False
      then have e: "?rest = hd ?rest # tl ?rest" "delim (hd ?rest)" using hd_dropWhile [OF False] by auto
      have sv: "save = Some (tl ?rest)" unfolding t(3) using False by (simp only: if_False)
      show ?thesis using fields_split [of tok delim "hd ?rest" "tl ?rest"] nd e ne by (simp add: sv)
    qed
    finally show ?thesis
      using "1.IH" [OF p refl] p by (subst token_loop.simps) (simp add: s)
  qed
qed

lemma tokens_fields: "tokens delim s = filter (\<lambda>f. f \<noteq> []) (fields delim s)"
  by (simp add: tokens_def token_loop_fields)

text \<open>Texts joined by a separator come back as they were.\<close>

fun joined :: "char \<Rightarrow> cstring list \<Rightarrow> cstring" where
  "joined c [] = []"
| "joined c [x] = x"
| "joined c (x # y # zs) = x @ c # joined c (y # zs)"

lemma tokens_joined:
  assumes "\<And>x. x \<in> set xs \<Longrightarrow> x \<noteq> [] \<and> c \<notin> set x"
  shows "tokens (\<lambda>d. d = c) (joined c xs) = xs"
proof -
  have "xs \<noteq> [] \<Longrightarrow> fields (\<lambda>d. d = c) (joined c xs) = xs"
    using assms
  proof (induction c xs rule: joined.induct)
    case (3 c x y zs)
    then show ?case by (subst joined.simps) (auto intro!: fields_split [THEN trans])
  qed (auto intro!: fields_plain)
  then show ?thesis using assms by (cases xs) (auto simp: tokens_fields filter_id_conv)
qed

section \<open>Port lists\<close>

lemma push_ports_eq:
  "push_ports limit lo hi out =
     (if lo > hi then Some out
      else if length out + nat (hi - lo + 1) \<le> limit then Some (out @ map uint16 [lo..hi]) else None)"
proof (induction limit lo hi out rule: push_ports.induct)
  case (1 limit lo hi out)
  show ?case
  proof (cases "lo > hi \<or> length out \<ge> limit")
    case True
    then show ?thesis by (subst push_ports.simps) auto
  next
    case False
    then have "push_ports limit lo hi out = push_ports limit (lo + 1) hi (out @ [uint16 lo])"
      by (subst push_ports.simps) simp
    also have "\<dots> = (if length out + nat (hi - lo + 1) \<le> limit then Some (out @ map uint16 [lo..hi]) else None)"
      using 1 False by (auto simp: upto_rec1 nat_add_distrib)
    finally show ?thesis using False by simp
  qed
qed

lemma uint_uint16_mod [simp]: "uint (uint16 n) = n mod 65536"
  by (simp add: uint16_def unsigned_of_int take_bit_eq_mod)

lemma uint16_nonzero: "1 \<le> n \<Longrightarrow> n \<le> 65535 \<Longrightarrow> uint16 n \<noteq> 0"
proof
  assume n: "1 \<le> n" "n \<le> 65535" and z: "uint16 n = 0"
  have "n mod 65536 = uint (uint16 n)" by (simp only: uint_uint16_mod)
  also have "\<dots> = 0" unfolding z by simp
  finally show False using n by simp
qed

lemma parse_ports_sound:
  "parse_ports limit toks out = Inr ports \<Longrightarrow> length out \<le> limit \<Longrightarrow> 0 \<notin> set out \<Longrightarrow>
     length ports \<le> limit \<and> 0 \<notin> set ports"
proof (induction limit toks out rule: parse_ports.induct)
  case (2 limit tok toks out)
  obtain lo hi shown where b: "port_bounds tok = (lo, hi, shown)" by (cases "port_bounds tok")
  from 2(2) b obtain out' where o: "push_ports limit lo hi out = Some out'" "1 \<le> lo" "hi \<le> 65535" "lo \<le> hi"
    "parse_ports limit toks out' = Inr ports"
    by (auto split: if_splits option.splits)
  then have "length out' \<le> limit" "0 \<notin> set out'"
    using 2(3,4) by (auto simp: push_ports_eq uint16_nonzero split: if_splits)
  then show ?case using 2(1) b o by auto
qed simp

text \<open>A port list as a user writes it.\<close>

datatype port_item = One nat | Range nat nat

fun item_text :: "port_item \<Rightarrow> cstring" where
  "item_text (One p) = dec p"
| "item_text (Range a b) = dec a @ CHR ''-'' # dec b"

fun item_ports :: "port_item \<Rightarrow> u16 list" where
  "item_ports (One p) = [of_nat p]"
| "item_ports (Range a b) = map of_nat [a..<b + 1]"

fun item_ok :: "port_item \<Rightarrow> bool" where
  "item_ok (One p) = (1 \<le> p \<and> p \<le> 65535)"
| "item_ok (Range a b) = (1 \<le> a \<and> a \<le> b \<and> b \<le> 65535)"

lemma dec_no_char [simp]: "\<not> isdigit c \<Longrightarrow> c \<notin> set (dec n)"
  using dec_digits by blast

lemma separators_not_digits [simp]:
  "\<not> isdigit CHR '',''" "\<not> isdigit CHR ''-''" "\<not> isdigit CHR '':''" "\<not> isdigit CHR ''/''"
  "\<not> isdigit CHR '']''"
  by (simp_all add: isdigit_def code_def)

lemma item_text_token: "item_text i \<noteq> [] \<and> CHR '','' \<notin> set (item_text i)"
  by (cases i) auto

lemma map_uint16_upto: "map uint16 [int a..int b] = map of_nat [a..<b + 1]"
proof -
  have "[int a..int b] = map int [a..<b + 1]"
    by (rule nth_equalityI) (auto simp: nth_upto nat_add_distrib simp del: upt_Suc)
  then show ?thesis by (simp add: uint16_def)
qed

lemma port_bounds_item:
  "item_ok i \<Longrightarrow> \<exists>lo hi t. port_bounds (item_text i) = (lo, hi, t) \<and> 1 \<le> lo \<and> lo \<le> hi \<and> hi \<le> 65535 \<and>
     map uint16 [lo..hi] = item_ports i \<and> nat (hi - lo + 1) = length (item_ports i)"
proof (cases i)
  case (One p)
  moreover assume "item_ok i"
  ultimately show ?thesis by (simp add: port_bounds_def strchr_def strtol_dec uint16_def)
next
  case (Range a b)
  moreover assume "item_ok i"
  ultimately have "port_bounds (item_text i) = (int a, int b, dec a)"
    by (simp add: port_bounds_def strtol_dec)
  with Range \<open>item_ok i\<close> show ?thesis
    using map_uint16_upto [of a b] by auto
qed

lemma parse_ports_items:
  assumes "\<forall>i \<in> set is. item_ok i"
  shows "parse_ports limit (map item_text is) out =
    (if length out + length (concat (map item_ports is)) \<le> limit \<or> is = []
     then Inr (out @ concat (map item_ports is))
     else Inl (''too many ports (max '' @ dec limit @ '')''))"
  using assms
proof (induction "is" arbitrary: out)
  case (Cons i "is")
  obtain lo hi t where b: "port_bounds (item_text i) = (lo, hi, t)" "1 \<le> lo" "lo \<le> hi" "hi \<le> 65535"
    "map uint16 [lo..hi] = item_ports i" "nat (hi - lo + 1) = length (item_ports i)"
    using port_bounds_item [of i] Cons.prems by auto
  show ?case using Cons b by (auto simp: push_ports_eq)
qed simp

text \<open>C23: port lists. A comma-separated list of ports and ranges that fits the buffer gives exactly the
  ports it names, in order and with repetitions, or the error about their number when they exceed
  the limit.\<close>

theorem ParsePortList_items:
  assumes "\<forall>i \<in> set is. item_ok i" and "length (joined CHR '','' (map item_text is)) < 512"
  shows "ParsePortList (Some (joined CHR '','' (map item_text is))) limit n =
    (if length (concat (map item_ports is)) \<le> limit
     then Inr (concat (map item_ports is))
     else Inl (bounded_copy n (''too many ports (max '' @ dec limit @ '')'')))"
proof -
  have "tokens comma (joined CHR '','' (map item_text is)) = map item_text is"
    by (rule tokens_joined) (auto simp: item_text_token)
  then show ?thesis
    using assms by (simp add: ParsePortList_def parse_ports_items [OF assms(1)])
qed

theorem ParsePortList_items_witness:
  "ParsePortList (Some (joined CHR '','' (map item_text [One 80, Range 8000 8002]))) 1024 256 =
     Inr [80, 8000, 8001, 8002]"
proof -
  have "length (joined CHR '','' (map item_text [One 80, Range 8000 8002])) < 512"
    by (simp add: c_lib_simps)
  then show ?thesis
    using ParsePortList_items [of "[One 80, Range 8000 8002]" 1024 256] by (simp add: upt_rec)
qed

section \<open>One target\<close>

definition proto_text :: "int \<Rightarrow> cstring" where
  "proto_text t = (if t = IPPROTO_TCP then ''tcp'' else if t = IPPROTO_UDP then ''UDP'' else ''icmp'')"

lemma ProtoFromToken_text:
  "t \<in> {IPPROTO_TCP, IPPROTO_UDP, IPPROTO_ICMP} \<Longrightarrow> ProtoFromToken (proto_text t) = Some t"
proof -
  have "ProtoFromToken ''tcp'' = Some IPPROTO_TCP" "ProtoFromToken ''UDP'' = Some IPPROTO_UDP"
    "ProtoFromToken ''icmp'' = Some IPPROTO_ICMP"
    by code_simp+
  then show "t \<in> {IPPROTO_TCP, IPPROTO_UDP, IPPROTO_ICMP} \<Longrightarrow> ?thesis" by (auto simp: proto_text_def)
qed

lemma proto_text_plain [simp]: "CHR ''/'' \<notin> set (proto_text t)"
  and proto_text_length: "length (proto_text t) \<le> 4"
  by (auto simp: proto_text_def)

lemma spec_proto_text:
  "t \<in> {IPPROTO_TCP, IPPROTO_UDP, IPPROTO_ICMP} \<Longrightarrow>
     spec_proto (work @ CHR ''/'' # proto_text t) = Some (work, t)"
  by (simp add: spec_proto_def ProtoFromToken_text)

lemma spec_host_port:
  assumes "host \<noteq> []" "hd host \<noteq> CHR ''[''" "length host \<le> 255" "int p \<le> LONG_MAX"
  shows "spec_host (host @ CHR '':'' # dec p) = Some (host, int p)"
  using assms by (simp add: spec_host_def hd_append strtol_dec)

lemma spec_host_bracket:
  assumes "CHR '']'' \<notin> set host" "length host \<le> 255" "int p \<le> LONG_MAX"
  shows "spec_host (CHR ''['' # host @ CHR '']'' # CHR '':'' # dec p) = Some (host, int p)"
proof -
  have "strchr CHR '']'' (CHR ''['' # host @ CHR '']'' # CHR '':'' # dec p) =
      Some (CHR ''['' # host, CHR '':'' # dec p)"
    using strchr_append [of "CHR '']''" "CHR ''['' # host"] assms(1) by simp
  then show ?thesis using assms by (simp add: spec_host_def strtol_dec)
qed

lemma spec_host_alone:
  "host \<noteq> [] \<Longrightarrow> hd host \<noteq> CHR ''['' \<Longrightarrow> CHR '':'' \<notin> set host \<Longrightarrow> length host \<le> 255 \<Longrightarrow>
     spec_host host = Some (host, 0)"
  by (simp add: spec_host_def strrchr_None [THEN iffD2])

text \<open>the three forms of a \<open>--target\<close> are read back: \<open>host:port/proto\<close> for a host that does not
  start with a bracket (its other colons are kept), \<open>[host]:port/proto\<close> for one without a closing
  bracket, and \<open>host/icmp\<close>; a TCP or UDP target without a port is refused.\<close>

theorem parse_spec_forms:
  assumes "host \<noteq> []" and "length host \<le> 255" and "1 \<le> p" and "p \<le> 65535"
    and "t \<in> {IPPROTO_TCP, IPPROTO_UDP, IPPROTO_ICMP}"
  shows "(hd host \<noteq> CHR ''['' \<longrightarrow>
      parse_spec (host @ CHR '':'' # dec p @ CHR ''/'' # proto_text t) n = Inr (host, of_nat p, t)) \<and>
    (CHR '']'' \<notin> set host \<longrightarrow>
      parse_spec (CHR ''['' # host @ CHR '']'' # CHR '':'' # dec p @ CHR ''/'' # proto_text t) n =
        Inr (host, of_nat p, t)) \<and>
    (hd host \<noteq> CHR ''['' \<and> CHR '':'' \<notin> set host \<longrightarrow>
      parse_spec (host @ CHR ''/'' # proto_text t) n =
        (if t = IPPROTO_ICMP then Inr (host, 0, t)
         else Inl (Some (bounded_copy n (''TCP/UDP target '' @ quoted (host @ CHR ''/'' # proto_text t) @
                '' needs a valid port'')))))"
proof -
  have d: "length (dec p) \<le> 5" using assms(4) by (intro dec_length) simp_all
  have u: "uint16 (int p) = of_nat p" "int p \<le> LONG_MAX" using assms(4) by (simp_all add: uint16_def)
  note l = proto_text_length [of t]
  have c1: "bounded_copy 300 (host @ CHR '':'' # dec p @ CHR ''/'' # proto_text t) =
      (host @ CHR '':'' # dec p) @ CHR ''/'' # proto_text t"
    using d l assms(2) by simp
  have c2: "bounded_copy 300 (CHR ''['' # host @ CHR '']'' # CHR '':'' # dec p @ CHR ''/'' # proto_text t) =
      (CHR ''['' # host @ CHR '']'' # CHR '':'' # dec p) @ CHR ''/'' # proto_text t"
    using d l assms(2) by simp
  have c3: "bounded_copy 300 (host @ CHR ''/'' # proto_text t) = host @ CHR ''/'' # proto_text t"
    using l assms(2) by simp
  note h = spec_host_port [OF assms(1) _ assms(2) u(2)] spec_host_bracket [OF _ assms(2) u(2)]
    spec_host_alone [OF assms(1) _ _ assms(2)]
  show ?thesis
    unfolding parse_spec_def c1 c2 c3 spec_proto_text [OF assms(5)] Let_def
    using assms(1,3,4,5) h u(1) by (auto simp: uint16_def)
qed

theorem parse_spec_forms_witness:
  "parse_spec (''::1'' @ CHR '':'' # dec 53 @ CHR ''/'' # proto_text IPPROTO_UDP) 256 =
     Inr (''::1'', of_nat 53, IPPROTO_UDP)"
  using parse_spec_forms [of "''::1''" 53 IPPROTO_UDP 256] by simp

lemma ProtoFromToken_dec: "ProtoFromToken (dec p) = None"
proof -
  obtain c cs where c: "dec p = c # cs" by (cases "dec p") auto
  then have "isdigit c" using dec_digits [of c p] by simp
  then have "tolower c \<notin> {CHR ''t'', CHR ''u'', CHR ''i''}"
    by (auto simp: isdigit_def tolower_def code_def)
  then show ?thesis by (auto simp: ProtoFromToken_def c)
qed

section \<open>The list keeps its contract\<close>

definition target_inv :: "target_list_t \<Rightarrow> bool" where
  "target_inv l \<longleftrightarrow> length (Items l) \<le> TgCap l"

lemma empty_list_inv [inv_intros]: "target_inv empty_list"
  by (simp add: target_inv_def empty_list_def)

interpretation target_list: uncapped_growable Items TgCap push_target target_inv
  by unfold_locales (auto simp: target_inv_def push_target_def next_cap_def)

definition make_target :: "cstring \<times> u16 \<times> int \<Rightarrow> probe_target_t" where
  "make_target k = (case k of (host, port, type) \<Rightarrow> new_target host port type)"

lemma add_target_Inr:
  "add_target ok l k = Inr l' \<Longrightarrow> l' = push_target True l (make_target k)"
  by (auto simp: add_target_def TargetList_Add_def make_target_def push_target_def split: prod.splits if_splits)

text \<open>A phase that adds the targets of its inputs one by one.\<close>

lemma bind_all_adds:
  assumes "\<And>l x l'. f l x = Inr l' \<Longrightarrow> l' = target_list.add_all l (map (Pair True) (ts x))"
  shows "bind_all f l xs = Inr l' \<Longrightarrow> l' = target_list.add_all l (map (Pair True) (concat (map ts xs)))"
proof (induction xs arbitrary: l)
  case (Cons x xs)
  from Cons.prems obtain l1 where l1: "f l x = Inr l1" "bind_all f l1 xs = Inr l'" by (auto split: sum.splits)
  have "target_list.add_all l (us @ vs) = target_list.add_all (target_list.add_all l us) vs" for l us vs
    by (induction us arbitrary: l) auto
  with Cons.IH [OF l1(2)] assms [OF l1(1)] show ?case by simp
qed simp

definition spec_keys :: "nat \<Rightarrow> cstring \<Rightarrow> (cstring \<times> u16 \<times> int) list" where
  "spec_keys n spec = (case parse_spec spec n of Inl e \<Rightarrow> [] | Inr k \<Rightarrow> [k])"

definition raw_line_keys :: "nat \<Rightarrow> char list \<Rightarrow> (cstring \<times> u16 \<times> int) list" where
  "raw_line_keys n raw =
     (let p = file_line_text raw
      in if p = [] \<or> hd p = CHR ''#'' then []
         else case parse_file_line p n of Inr (Some k) \<Rightarrow> [k] | _ \<Rightarrow> [])"

definition file_keys :: "(cstring \<Rightarrow> char list option) \<Rightarrow> nat \<Rightarrow> arguments_t \<Rightarrow> (cstring \<times> u16 \<times> int) list" where
  "file_keys fopen n args =
     (case TargetsFile args of None \<Rightarrow> []
      | Some path \<Rightarrow> concat (map (raw_line_keys n) (file_lines 512 (the (fopen path)))))"

lemma add_target_adds: "add_target ok l k = Inr l' \<Longrightarrow> l' = target_list.add_all l (map (Pair True) [make_target k])"
  by (simp add: add_target_Inr)

lemma AddSpec_adds:
  "AddSpec ok n l spec = Inr l' \<Longrightarrow>
     l' = target_list.add_all l (map (Pair True) (map make_target (spec_keys n spec)))"
  by (auto simp: AddSpec_def spec_keys_def dest: add_target_adds split: sum.splits)

lemma add_raw_line_adds:
  "add_raw_line ok n l raw = Inr l' \<Longrightarrow>
     l' = target_list.add_all l (map (Pair True) (map make_target (raw_line_keys n raw)))"
  by (auto simp: add_raw_line_def AddFileLine_def raw_line_keys_def Let_def dest: add_target_adds
      split: sum.splits option.splits if_splits)

lemma add_file_adds:
  "add_file fopen ok n args l = Inr l' \<Longrightarrow>
     l' = target_list.add_all l (map (Pair True) (map make_target (file_keys fopen n args)))"
  using bind_all_adds [of "add_raw_line ok n" "\<lambda>r. map make_target (raw_line_keys n r)"] add_raw_line_adds
  by (auto simp: add_file_def file_keys_def map_concat comp_def split: option.splits)

lemma parse_spec_port: "parse_spec spec n = Inr (h, p, t) \<Longrightarrow> t \<noteq> IPPROTO_ICMP \<Longrightarrow> p \<noteq> 0"
  using uint16_nonzero by (auto simp: parse_spec_def Let_def split: option.splits prod.splits if_splits)

lemma spec_keys_port: "(h, p, t) \<in> set (spec_keys n s) \<Longrightarrow> t \<noteq> IPPROTO_ICMP \<Longrightarrow> p \<noteq> 0"
  by (cases "parse_spec s n") (auto simp: spec_keys_def dest: parse_spec_port)

lemma bind_all_each: "bind_all f s xs = Inr s' \<Longrightarrow> x \<in> set xs \<Longrightarrow> \<exists>a b. f a x = Inr b"
  by (induction xs arbitrary: s) (auto split: sum.splits)

lemma host_matrix_port:
  assumes "host_matrix args n = Inr ks" "(h, p, t) \<in> set ks" "t \<noteq> IPPROTO_ICMP"
  shows "p \<noteq> 0"
proof -
  from assms obtain ports where "ParsePortList (PortSpec args) 1024 n = Inr ports" "p \<in> set ports"
    by (auto simp: host_matrix_def matrix_keys_def split: if_splits sum.splits)
  then show ?thesis
    using parse_ports_sound by (fastforce simp: ParsePortList_def split: option.splits sum.splits)
qed

text \<open>What is built: the keys in their order, made into fresh targets.\<close>

definition build_keys :: "(cstring \<Rightarrow> char list option) \<Rightarrow> nat \<Rightarrow> arguments_t \<Rightarrow> (cstring \<times> u16 \<times> int) list \<Rightarrow> (cstring \<times> u16 \<times> int) list" where
  "build_keys fopen n args mk = mk @ concat (map (spec_keys n) (TargetSpecs args)) @ file_keys fopen n args"

lemma Targets_Build_items:
  assumes "host_matrix args n = Inr mk" "bind_all (add_target ok) empty_list mk = Inr l1"
    "bind_all (AddSpec ok n) l1 (TargetSpecs args) = Inr l2" "add_file fopen ok n args l2 = Inr l"
  shows "Items l = map make_target (build_keys fopen n args mk) \<and> length (Items l) \<le> TgCap l"
proof -
  let ?sk = "concat (map (spec_keys n) (TargetSpecs args))"
  have 1: "l1 = target_list.add_all empty_list (map (Pair True) (map make_target mk))"
    using bind_all_adds [of "add_target ok" "\<lambda>k. [make_target k]", OF add_target_adds assms(2)] by simp
  have 2: "l2 = target_list.add_all l1 (map (Pair True) (map make_target ?sk))"
    using bind_all_adds [of "AddSpec ok n" "\<lambda>s. map make_target (spec_keys n s)", OF AddSpec_adds assms(3)]
    by (simp add: map_concat comp_def)
  note 3 = add_file_adds [OF assms(4)]
  have inv: "target_inv l1" "target_inv l2"
    unfolding 2 1 by (intro target_list.inv_add_all empty_list_inv)+
  have "Items l = map make_target (build_keys fopen n args mk)"
    unfolding 3 target_list.add_all_ok [OF inv(2)] unfolding 2 target_list.add_all_ok [OF inv(1)]
    unfolding 1 target_list.add_all_ok [OF empty_list_inv] by (simp add: empty_list_def build_keys_def)
  moreover have "length (Items l) \<le> TgCap l"
    unfolding 3 by (rule target_list.add_all_count_cap [OF inv(2)])
  ultimately show ?thesis ..
qed

text \<open>What a target remembers of probes.\<close>

definition past :: "probe_target_t \<Rightarrow> stats_t \<times> f64" where
  "past t = (TgStats t, LastRtt t)"

lemma Targets_Build_fresh:
  assumes "Targets_Build fopen ok args n = Inr l" "t \<in> set (Items l)"
  shows "past t = (Stats_Init, Fin 0)"
proof -
  obtain mk l1 l2 where b: "host_matrix args n = Inr mk" "bind_all (add_target ok) empty_list mk = Inr l1"
    "bind_all (AddSpec ok n) l1 (TargetSpecs args) = Inr l2" "add_file fopen ok n args l2 = Inr l"
    using assms by (auto simp: Targets_Build_def split: sum.splits if_splits)
  show ?thesis
    using Targets_Build_items[OF b] assms(2) by (auto simp: past_def make_target_def new_target_def Let_def)
qed

lemma resolve_all_past:
  "map past (fst (resolve_all resolve ds ts n)) = map past (ds @ ts)"
proof (induction ts arbitrary: ds n)
  case (Cons t ts)
  have "past (resolve_target resolve ds t) = past t"
    by (auto simp: past_def resolve_target_def split: option.splits prod.splits)
  then show ?case using Cons.IH by (simp add: Let_def)
qed simp

lemma Targets_Resolve_past:
  "map past (Items (fst (Targets_Resolve resolve l))) = map past (Items l)"
  using resolve_all_past[of resolve "[]" "Items l" 0] by (cases "resolve_all resolve [] (Items l) 0") (simp add: Targets_Resolve_def)

text \<open>C8: the target list. When \<open>Targets_Build\<close> succeeds, whatever \<open>realloc\<close> answered, the list is not
  empty and holds, in this order, the matrix of the hosts, the \<open>--target\<close> specs and the lines of the
  file, each a fresh entry; every spec was accepted, and a TCP or UDP target of the command line has
  a nonzero port.\<close>

theorem Targets_Build_order:
  assumes "Targets_Build fopen ok args n = Inr l"
  shows "\<exists>mk. host_matrix args n = Inr mk \<and>
    Items l = map make_target (mk @ concat (map (spec_keys n) (TargetSpecs args)) @ file_keys fopen n args) \<and>
    Items l \<noteq> [] \<and> length (Items l) \<le> TgCap l \<and>
    (\<forall>s \<in> set (TargetSpecs args). \<exists>k. parse_spec s n = Inr k) \<and>
    (\<forall>(h, p, t) \<in> set (mk @ concat (map (spec_keys n) (TargetSpecs args))). t \<noteq> IPPROTO_ICMP \<longrightarrow> p \<noteq> 0)"
proof -
  obtain mk l1 l2 where b: "host_matrix args n = Inr mk" "bind_all (add_target ok) empty_list mk = Inr l1"
    "bind_all (AddSpec ok n) l1 (TargetSpecs args) = Inr l2" "add_file fopen ok n args l2 = Inr l" "Items l \<noteq> []"
    using assms by (auto simp: Targets_Build_def split: sum.splits if_splits)
  let ?sk = "concat (map (spec_keys n) (TargetSpecs args))"
  have "\<forall>(h, p, t) \<in> set (mk @ ?sk). t \<noteq> IPPROTO_ICMP \<longrightarrow> p \<noteq> 0"
  proof -
    have "p \<noteq> 0" if "(h, p, t) \<in> set (mk @ ?sk)" "t \<noteq> IPPROTO_ICMP" for h p t
      using that host_matrix_port [OF b(1), of h p t] spec_keys_port [of h p t n] by auto
    then show ?thesis by blast
  qed
  moreover have "\<forall>s \<in> set (TargetSpecs args). \<exists>k. parse_spec s n = Inr k"
    using bind_all_each [OF b(3)] by (fastforce simp: AddSpec_def split: sum.splits)
  ultimately show ?thesis using b(1,5) Targets_Build_items [OF b(1-4)] unfolding build_keys_def by blast
qed

theorem Targets_Build_order_witness:
  "\<exists>l. Targets_Build (\<lambda>p. None) (\<lambda>c. True) (InitDefaults\<lparr>TargetSpecs := [''a:80/tcp'', ''b/icmp'']\<rparr>) 256 = Inr l \<and>
     map Label (Items l) = [''a:80 tcp'', ''b icmp''] \<and> length (Items l) \<le> TgCap l"
proof -
  let ?a = "InitDefaults\<lparr>TargetSpecs := [''a:80/tcp'', ''b/icmp'']\<rparr>"
  have k: "parse_spec ''a:80/tcp'' 256 = Inr (''a'', 80, IPPROTO_TCP)" "parse_spec ''b/icmp'' 256 = Inr (''b'', 0, IPPROTO_ICMP)"
    by code_simp+
  have lb: "Label (new_target ''a'' 80 IPPROTO_TCP) = ''a:80 tcp''" "Label (new_target ''b'' 0 IPPROTO_ICMP) = ''b icmp''"
    by code_simp+
  have "\<exists>l. Targets_Build (\<lambda>p. None) (\<lambda>c. True) ?a 256 = Inr l"
    by (simp add: Targets_Build_def host_matrix_def InitDefaults_def AddSpec_def k add_target_def TargetList_Add_def
        add_file_def push_target_def empty_list_def next_cap_def)
  then obtain l where l: "Targets_Build (\<lambda>p. None) (\<lambda>c. True) ?a 256 = Inr l" by blast
  show ?thesis
    using Targets_Build_order [OF l] l
    by (auto simp: host_matrix_def InitDefaults_def spec_keys_def k file_keys_def make_target_def lb)
qed

text \<open>ports of a targets file. A line with a number for its port is accepted whatever the number is,
  and the port stored is that number modulo 65536: 65616 probes port 80, 65536 port 0. The
  command line refuses the same numbers.\<close>

theorem file_port_wraps:
  assumes "host \<noteq> []" and "length host \<le> 255" and "\<forall>c \<in> set host. \<not> blank c" and "int p \<le> LONG_MAX"
  shows "parse_file_line (host @ CHR '' '' # dec p) n = Inr (Some (host, of_nat (p mod 65536), IPPROTO_TCP)) \<and>
    (65535 < p \<and> hd host \<noteq> CHR ''['' \<and> CHR ''/'' \<notin> set host \<longrightarrow>
      parse_spec (host @ CHR '':'' # dec p) n =
        Inl (Some (bounded_copy n (''TCP/UDP target '' @ quoted (host @ CHR '':'' # dec p) @ '' needs a valid port''))))"
proof -
  have nb: "\<And>c. c \<in> set (dec p) \<Longrightarrow> \<not> blank c" using dec_digits by (fastforce simp: isdigit_def code_def)
  have "fields blank (host @ CHR '' '' # dec p) = [host, dec p]"
    using fields_split [of host blank "CHR '' ''" "dec p"] nb assms(3) by simp
  then have t: "tokens blank (host @ CHR '' '' # dec p) = [host, dec p]"
    using assms(1) by (simp add: tokens_fields)
  have "ProtoFromToken (dec p) = None" by (rule ProtoFromToken_dec)
  moreover have "uint16 (int p) = of_nat (p mod 65536)"
    by (simp add: word_unat_eq_iff uint16_def unat_of_nat)
  ultimately have "parse_file_line (host @ CHR '' '' # dec p) n = Inr (Some (host, of_nat (p mod 65536), IPPROTO_TCP))"
    using assms strtol_dec_append [of p "[]"] by (simp add: parse_file_line_def t Let_def)
  moreover have "parse_spec (host @ CHR '':'' # dec p) n =
      Inl (Some (bounded_copy n (''TCP/UDP target '' @ quoted (host @ CHR '':'' # dec p) @ '' needs a valid port'')))"
    if "65535 < p" "hd host \<noteq> CHR ''[''" "CHR ''/'' \<notin> set host"
  proof -
    have "length (dec p) \<le> 19" using assms(4) by (intro dec_length) simp_all
    then have c: "bounded_copy 300 (host @ CHR '':'' # dec p) = host @ CHR '':'' # dec p"
      using assms(2) by simp
    have "spec_proto (host @ CHR '':'' # dec p) = Some (host @ CHR '':'' # dec p, IPPROTO_TCP)"
      using that by (simp add: spec_proto_def strrchr_None [THEN iffD2])
    then show ?thesis
      unfolding parse_spec_def c using spec_host_port [OF assms(1) that(2) assms(2,4)] assms(1) that(1) by simp
  qed
  ultimately show ?thesis by blast
qed

theorem file_port_wraps_witness:
  "parse_file_line (''host'' @ CHR '' '' # dec 65616) 256 = Inr (Some (''host'', of_nat 80, IPPROTO_TCP))"
proof -
  have "\<forall>c \<in> set ''host''. \<not> blank c" by simp
  then show ?thesis using file_port_wraps [of "''host''" 65616 256] by simp
qed

section \<open>Resolution\<close>

lemma resolve_target_key [simp]:
  "Host (resolve_target resolve done t) = Host t" "TgPort (resolve_target resolve done t) = TgPort t"
  "TgType (resolve_target resolve done t) = TgType t"
  by (auto simp: resolve_target_def split: option.split prod.split)

text \<open>What the list asks of a resolver: the port and the protocol stay, and success brings addresses.\<close>

locale resolver =
  fixes resolve :: "nat \<Rightarrow> cstring \<Rightarrow> host_t \<Rightarrow> int \<times> host_t"
  assumes keeps_port: "HostPort (snd (resolve i d h)) = HostPort h"
    and keeps_type: "HostType (snd (resolve i d h)) = HostType h"
    and finds: "fst (resolve i d h) = SUCCESS \<Longrightarrow> Addrs (snd (resolve i d h)) \<noteq> []"
begin

definition entry_ok :: "probe_target_t \<Rightarrow> bool" where
  "entry_ok t \<longleftrightarrow> HostPort (Resolved t) = TgPort t \<and> HostType (Resolved t) = TgType t \<and>
     (ResolveOk t \<longrightarrow> Addrs (Resolved t) \<noteq> [])"

definition shares :: "probe_target_t list \<Rightarrow> probe_target_t \<Rightarrow> bool" where
  "shares done t \<longleftrightarrow> (\<forall>p \<in> set done. ResolveOk p \<and> Host p = Host t \<longrightarrow>
     ResolveOk t \<and> Addrs (Resolved t) = Addrs (Resolved p))"

fun resolved_list :: "probe_target_t list \<Rightarrow> probe_target_t list \<Rightarrow> bool" where
  "resolved_list done [] = True"
| "resolved_list done (t # ts) = (entry_ok t \<and> shares done t \<and> resolved_list (done @ [t]) ts)"

lemma resolved_list_append:
  "resolved_list done (ts @ [t]) \<longleftrightarrow> resolved_list done ts \<and> entry_ok t \<and> shares (done @ ts) t"
  by (induction ts arbitrary: "done") auto

lemma find_cached_None: "find_cached host ps = None \<longleftrightarrow> (\<forall>p \<in> set ps. \<not> (ResolveOk p \<and> Host p = host))"
  by (induction ps) auto

lemma find_cached_Some:
  "find_cached host ps = Some h \<Longrightarrow> \<exists>p \<in> set ps. ResolveOk p \<and> Host p = host \<and> h = Resolved p"
  by (induction ps) (auto split: if_splits)

text \<open>In a list in which everyone shares, all resolved entries of a host agree.\<close>

lemma resolved_list_agree:
  "resolved_list done ts \<Longrightarrow> p \<in> set ts \<Longrightarrow> q \<in> set ts \<Longrightarrow> ResolveOk p \<Longrightarrow> ResolveOk q \<Longrightarrow> Host p = Host q \<Longrightarrow>
     Addrs (Resolved p) = Addrs (Resolved q)"
proof (induction ts rule: rev_induct)
  case (snoc t ts)
  have l: "resolved_list done ts" and sh: "shares (done @ ts) t"
    using snoc.prems(1) by (simp_all add: resolved_list_append)
  have t: "Addrs (Resolved t) = Addrs (Resolved r)" if "r \<in> set ts" "ResolveOk r" "Host r = Host t" for r
    using sh that by (simp add: shares_def)
  consider "p = t" "q = t" | "p = t" "q \<in> set ts" | "p \<in> set ts" "q = t" | "p \<in> set ts" "q \<in> set ts"
    using snoc.prems(2,3) by auto
  then show ?case
  proof cases
    case 2
    then show ?thesis using t [of q] snoc.prems by simp
  next
    case 3
    then show ?thesis using t [of p] snoc.prems by simp
  next
    case 4
    then show ?thesis using snoc.IH [OF l] snoc.prems by blast
  qed simp
qed simp

lemma resolve_target_step:
  assumes "resolved_list [] done"
  shows "resolved_list [] (done @ [resolve_target resolve done t])"
proof -
  let ?t = "resolve_target resolve done t"
  have ok: "\<forall>p \<in> set done. entry_ok p" using assms
    by (induction "done" rule: rev_induct) (auto simp: resolved_list_append)
  show ?thesis
  proof (cases "find_cached (Host t) done")
    case None
    then have "shares done ?t" by (auto simp: shares_def find_cached_None)
    moreover have "entry_ok ?t"
      using keeps_port [of "length done" "Host t" "SetPortAndType (TgPort t) (TgType t) (Resolved t)"]
        keeps_type [of "length done" "Host t" "SetPortAndType (TgPort t) (TgType t) (Resolved t)"]
        finds [of "length done" "Host t" "SetPortAndType (TgPort t) (TgType t) (Resolved t)"] None
      by (auto simp: entry_ok_def resolve_target_def SetPortAndType_def split: prod.splits)
    ultimately show ?thesis using assms by (simp add: resolved_list_append)
  next
    case (Some h)
    then obtain p where p: "p \<in> set done" "ResolveOk p" "Host p = Host t" "h = Resolved p"
      using find_cached_Some by blast
    then have "shares done ?t"
      using resolved_list_agree [OF assms p(1) _ p(2)]
      by (simp add: shares_def) (simp add: resolve_target_def Some)
    moreover have "entry_ok ?t"
      using Some p ok by (auto simp: entry_ok_def resolve_target_def)
    ultimately show ?thesis using assms by (simp add: resolved_list_append)
  qed
qed

lemma resolve_all_spec:
  assumes "resolved_list [] done" and "n = length (filter ResolveOk done)"
    and "resolve_all resolve done ts n = (items, m)"
  shows "resolved_list [] items \<and> m = length (filter ResolveOk items) \<and>
    map (\<lambda>t. (Host t, TgPort t, TgType t)) items = map (\<lambda>t. (Host t, TgPort t, TgType t)) (done @ ts)"
  using assms
proof (induction ts arbitrary: "done" n)
  case (Cons t ts)
  show ?case
    using Cons.IH [OF resolve_target_step [OF Cons.prems(1), of t]] Cons.prems(2,3)
    by (auto simp: Let_def split: if_splits)
qed simp

lemma resolved_list_nth:
  "resolved_list done ts \<Longrightarrow> j < length ts \<Longrightarrow> entry_ok (ts ! j) \<and> shares (done @ take j ts) (ts ! j)"
proof (induction ts arbitrary: "done" j)
  case (Cons t ts)
  then show ?case using Cons.IH [of "done @ [t]" "j - 1"] by (cases j) auto
qed simp

end

interpretation socket_resolver: resolver "\<lambda>i. Socket.Resolve (gai i) ntop" for gai ntop
  by unfold_locales (auto simp: Socket.Resolve_def Let_def split: option.split if_splits)

text \<open>C22: resolution of the list. The number returned is that of the resolved entries; hosts, ports and
  protocols stay, every entry's addresses carry its own port and protocol, a resolved entry has
  addresses, and two entries for one host have the same addresses once the first has resolved, even
  if the resolver would now answer differently.\<close>

theorem Targets_Resolve_shares:
  assumes "Targets_Resolve (\<lambda>i. Socket.Resolve (gai i) ntop) l = (l', n)"
  shows "n = length (filter ResolveOk (Items l')) \<and>
    map (\<lambda>t. (Host t, TgPort t, TgType t)) (Items l') = map (\<lambda>t. (Host t, TgPort t, TgType t)) (Items l) \<and>
    (\<forall>j < length (Items l').
      HostPort (Resolved (Items l' ! j)) = TgPort (Items l' ! j) \<and>
      HostType (Resolved (Items l' ! j)) = TgType (Items l' ! j) \<and>
      (ResolveOk (Items l' ! j) \<longrightarrow> Addrs (Resolved (Items l' ! j)) \<noteq> []) \<and>
      (\<forall>i < j. ResolveOk (Items l' ! i) \<and> Host (Items l' ! i) = Host (Items l' ! j) \<longrightarrow>
         ResolveOk (Items l' ! j) \<and> Addrs (Resolved (Items l' ! j)) = Addrs (Resolved (Items l' ! i))))"
proof -
  have r: "resolve_all (\<lambda>i. Socket.Resolve (gai i) ntop) [] (Items l) 0 = (Items l', n)"
    using assms by (auto simp: Targets_Resolve_def split: prod.splits)
  have s: "socket_resolver.resolved_list [] (Items l')" "n = length (filter ResolveOk (Items l'))"
    "map (\<lambda>t. (Host t, TgPort t, TgType t)) (Items l') = map (\<lambda>t. (Host t, TgPort t, TgType t)) (Items l)"
    using socket_resolver.resolve_all_spec [OF _ _ r] by auto
  have "socket_resolver.entry_ok (Items l' ! j) \<and> socket_resolver.shares (take j (Items l')) (Items l' ! j)"
    if "j < length (Items l')" for j
    using socket_resolver.resolved_list_nth [OF s(1) that] by simp
  moreover have "Items l' ! i \<in> set (take j (Items l'))" if "i < j" "j < length (Items l')" for i j
    using that by (auto simp: in_set_conv_nth intro!: exI [of _ i])
  ultimately show ?thesis
    using s(2,3) unfolding socket_resolver.entry_ok_def socket_resolver.shares_def by blast
qed

theorem Targets_Resolve_shares_witness:
  "\<exists>l' n. Targets_Resolve (\<lambda>i. Socket.Resolve (\<lambda>d s p. if i = 0 then Some [(Inet 7 0, 16)] else None) (\<lambda>a. ''7''))
       \<lparr>Items = [new_target ''h'' 80 6, new_target ''h'' 0 1], TgCap = 8\<rparr> = (l', n) \<and>
     n = length (filter ResolveOk (Items l')) \<and> length (Items l') = 2"
proof -
  obtain l' n where r: "Targets_Resolve (\<lambda>i. Socket.Resolve (\<lambda>d s p. if i = 0 then Some [(Inet 7 0, 16)] else None) (\<lambda>a. ''7''))
       \<lparr>Items = [new_target ''h'' 80 6, new_target ''h'' 0 1], TgCap = 8\<rparr> = (l', n)"
    by (meson surj_pair)
  from Targets_Resolve_shares [OF r] have "length (Items l') = 2" "n = length (filter ResolveOk (Items l'))"
    by (auto dest: map_eq_imp_length_eq)
  with r show ?thesis by blast
qed

end
