(* ===== verification/Report.thy ===== *)
theory Report
  imports Targets Print
begin

text \<open>
  The output functions of \<open>main.c\<close>: the lines of a probe, the summaries, the JSON objects, the
  combined roll-up and the Prometheus exposition, each as the text it writes. The flag \<open>UseColor\<close>, \<open>uc\<close> here, is the
  first argument of the coloured ones; \<open>ok\<close> tells for a percentile whether the \<open>malloc\<close> of
  \<open>Stats_Percentile\<close> succeeds.
\<close>

section \<open>Small texts\<close>

abbreviation lu :: "ulong \<Rightarrow> cstring" where "lu w \<equiv> dec (unat w)"
abbreviation port_text :: "u16 \<Rightarrow> cstring" where "port_text p \<equiv> dec (unat p)"
abbreviation dquote :: char where "dquote \<equiv> CHR 0x22"
abbreviation backslash :: char where "backslash \<equiv> CHR 0x5C"

definition ProtoLabel :: "int \<Rightarrow> cstring \<Rightarrow> cstring" where
  "ProtoLabel type ip =
     (if type = IPPROTO_ICMP then (if strchr CHR '':'' ip \<noteq> None then ''ICMPv6'' else ''ICMP'')
      else if type = IPPROTO_UDP then ''UDP'' else ''TCP'')"

definition StatusToken :: "int \<Rightarrow> cstring" where
  "StatusToken result =
     (if result = SUCCESS then ''success''
      else if result = PINGDD_SOCKET_CLOSED then ''refused''
      else if result = PINGDD_SOCKET_TIMEOUT then ''timeout''
      else if result = PINGDD_SOCKET_UNREACH then ''unreachable''
      else if result = PINGDD_UDP_OPENFILTERED then ''open|filtered''
      else if result = PINGDD_SOCKET_RESOLVE then ''resolve-failed''
      else ''error'')"

definition FormatAnnotation :: "host_t \<Rightarrow> nat \<Rightarrow> cstring option" where
  "FormatAnnotation h out_size =
     (let has_rdns = (ReverseName h \<noteq> []); has_asn = (Asn h \<noteq> [])
      in if \<not> has_rdns \<and> \<not> has_asn then None
         else Some (bounded_copy out_size
           (if has_rdns \<and> has_asn then
              (if AsnOrg h \<noteq> [] then ReverseName h @ '' ['' @ Asn h @ '' '' @ AsnOrg h @ '']''
               else ReverseName h @ '' ['' @ Asn h @ '']'')
            else if has_rdns then ReverseName h
            else if AsnOrg h \<noteq> [] then ''['' @ Asn h @ '' '' @ AsnOrg h @ '']''
            else ''['' @ Asn h @ '']'')))"

text \<open>The loop of \<open>JsonEscape\<close>, with the number of characters written so far.\<close>

fun json_escape :: "nat \<Rightarrow> nat \<Rightarrow> cstring \<Rightarrow> cstring" where
  "json_escape dst_size out [] = []"
| "json_escape dst_size out (c # src) =
     (if \<not> out + 2 < dst_size then []
      else if c = dquote \<or> c = backslash then backslash # c # json_escape dst_size (out + 2) src
      else if code c < 0x20 then CHR '' '' # json_escape dst_size (out + 1) src
      else c # json_escape dst_size (out + 1) src)"

definition JsonEscape :: "cstring \<Rightarrow> nat \<Rightarrow> cstring" where
  "JsonEscape src dst_size = (if dst_size = 0 then [] else json_escape dst_size 0 src)"

section \<open>Lines of a probe\<close>

definition PrintProbeHuman ::
  "bool \<Rightarrow> int \<Rightarrow> ulong \<Rightarrow> cstring \<Rightarrow> f64 \<Rightarrow> cstring \<Rightarrow> bool \<Rightarrow> u16 \<Rightarrow> cstring \<Rightarrow> cstring option \<Rightarrow> int \<Rightarrow> cstring" where
  "PrintProbeHuman uc result seq ip rtt proto show_port port datetime prefix ttl =
     (let fp = FormattedPrint uc; buf = bounded_copy 96
      in (case prefix of None \<Rightarrow> [] | Some p \<Rightarrow> fp PRINT_WHITE (buf (''['' @ p @ ''] ''))) @
         (if result = SUCCESS
          then fp PRINT_WHITE ''Connected to  '' @ fp PRINT_GREEN ip @
               fp PRINT_WHITE '': seq='' @ fp PRINT_GREEN (buf (lu seq)) @
               fp PRINT_WHITE '' time='' @ fp PRINT_GREEN (buf (fmt_fixed 4 (ms rtt) @ ''ms'')) @
               fp PRINT_WHITE '' protocol='' @ fp PRINT_GREEN proto @
               (if show_port then fp PRINT_WHITE '' port='' @ fp PRINT_GREEN (buf (port_text port)) else []) @
               (if ttl \<ge> 0 then fp PRINT_WHITE '' ttl='' @ fp PRINT_GREEN (buf (fmt_int ttl)) else []) @
               fp PRINT_WHITE '' datetime='' @ fp PRINT_GREEN datetime @ [newline]
          else fp PRINT_WHITE ''seq='' @ fp PRINT_GREEN (buf (lu seq)) @ '' '' @
               fp PRINT_RED (GetFriendlyTypeName result) @
               fp PRINT_WHITE (buf ('' ('' @ ip @ '')'')) @ [newline]))"

definition PrintProbeJson ::
  "int \<Rightarrow> ulong \<Rightarrow> cstring \<Rightarrow> f64 \<Rightarrow> cstring \<Rightarrow> bool \<Rightarrow> u16 \<Rightarrow> cstring \<Rightarrow> cstring \<Rightarrow> int \<Rightarrow> cstring" where
  "PrintProbeJson result seq ip rtt proto show_port port datetime host ttl =
     (let ip_esc = JsonEscape ip 80; host_esc = JsonEscape host 280
      in ''{\"seq\":'' @ lu seq @ '',\"timestamp\":\"'' @ datetime @ ''\",\"host\":\"'' @ host_esc @
         ''\",\"ip\":\"'' @ ip_esc @ ''\",\"proto\":\"'' @ proto @ ''\",'' @
         (if show_port then ''\"port\":'' @ port_text port @ '','' else ''\"port\":null,'') @
         ''\"status\":\"'' @ StatusToken result @ ''\",'' @
         (if ttl \<ge> 0 then ''\"ttl\":'' @ fmt_int ttl @ '','' else []) @
         (if result = SUCCESS then ''\"rtt_ms\":'' @ fmt_fixed 4 (ms rtt) @ ''}'' @ [newline]
          else ''\"rtt_ms\":null}'' @ [newline]))"

section \<open>Summaries\<close>

definition fail_percent :: "stats_t \<Rightarrow> f64" where
  "fail_percent s =
     (if Attempts s > 0
      then fmul (fdiv (f64_of_nat (unat (Failures s))) (f64_of_nat (unat (Attempts s)))) (Fin 100)
      else Fin 0)"

definition PrintSummaryHuman :: "bool \<Rightarrow> (nat \<Rightarrow> bool) \<Rightarrow> stats_t \<Rightarrow> cstring" where
  "PrintSummaryHuman uc ok s =
     (let blue = (\<lambda>t. FormattedPrint uc PRINT_BLUE (bounded_copy 128 t));
          yellow = FormattedPrint uc PRINT_YELLOW
      in yellow ([newline] @ ''Connection statistics:'' @ [newline]) @ ResetColor uc @
         ''        Attempted = '' @ blue (lu (Attempts s)) @
         '' , Connected = '' @ blue (lu (Connects s)) @
         '' , Failed = '' @ blue (lu (Failures s)) @
         '' ( '' @ blue (fmt_fixed 2 (fail_percent s) @ ''%'') @ '' )'' @ [newline] @
         yellow (''Approximate connection times:'' @ [newline]) @ ResetColor uc @
         (if Connects s = 0
          then FormattedPrint uc PRINT_BLUE (''        no successful connections'' @ [newline])
          else ''        Minimum = '' @ blue (fmt_fixed 4 (ms (Minimum s)) @ ''ms'') @
               '' , Maximum = '' @ blue (fmt_fixed 4 (ms (Maximum s)) @ ''ms'') @
               '' , Average = '' @ blue (fmt_fixed 5 (ms (Stats_Average s)) @ ''ms'') @
               '' , StdDev = '' @ blue (fmt_fixed 5 (ms (Stats_StdDev s)) @ ''ms'') @ [newline] @
               ''        Percentiles p50/p95/p99 = '' @
               blue (fmt_fixed 4 (ms (Stats_Percentile (ok 50) s (Fin 50))) @ '' / '' @
                     fmt_fixed 4 (ms (Stats_Percentile (ok 95) s (Fin 95))) @ '' / '' @
                     fmt_fixed 4 (ms (Stats_Percentile (ok 99) s (Fin 99))) @ '' ms'') @ [newline]))"

definition PrintSummaryJson :: "(nat \<Rightarrow> bool) \<Rightarrow> stats_t \<Rightarrow> cstring \<Rightarrow> cstring" where
  "PrintSummaryJson ok s host =
     ''{\"summary\":{\"host\":\"'' @ JsonEscape host 280 @ ''\",\"sent\":'' @ lu (Attempts s) @
     '',\"received\":'' @ lu (Connects s) @ '',\"lost\":'' @ lu (Failures s) @
     '',\"loss_pct\":'' @ fmt_fixed 2 (fail_percent s) @ '','' @
     (if Connects s = 0
      then ''\"min_ms\":null,\"avg_ms\":null,\"max_ms\":null,\"mdev_ms\":null,\"p50_ms\":null,\"p95_ms\":null,\"p99_ms\":null}}'' @
           [newline]
      else ''\"min_ms\":'' @ fmt_fixed 4 (ms (Minimum s)) @
           '',\"avg_ms\":'' @ fmt_fixed 4 (ms (Stats_Average s)) @
           '',\"max_ms\":'' @ fmt_fixed 4 (ms (Maximum s)) @
           '',\"mdev_ms\":'' @ fmt_fixed 4 (ms (Stats_StdDev s)) @
           '',\"p50_ms\":'' @ fmt_fixed 4 (ms (Stats_Percentile (ok 50) s (Fin 50))) @
           '',\"p95_ms\":'' @ fmt_fixed 4 (ms (Stats_Percentile (ok 95) s (Fin 95))) @
           '',\"p99_ms\":'' @ fmt_fixed 4 (ms (Stats_Percentile (ok 99) s (Fin 99))) @ ''}}'' @ [newline])"

definition PrintTargetJson :: "probe_target_t \<Rightarrow> cstring" where
  "PrintTargetJson t =
     (let he = JsonEscape (Host t) 280; ie = JsonEscape (IPAddress (Resolved t)) 80
      in ''{\"target\":{\"host\":\"'' @ he @ ''\",\"ip\":\"'' @ ie @ ''\",'' @
         (if TgType t = IPPROTO_ICMP then ''\"port\":null,'' else ''\"port\":'' @ port_text (TgPort t) @ '','') @
         ''\"proto\":\"'' @ ProtoLabel (TgType t) (IPAddress (Resolved t)) @ ''\",\"resolved\":'' @
         json_bool (ResolveOk t) @
         (if ReverseName (Resolved t) \<noteq> []
          then '',\"rdns\":\"'' @ JsonEscape (ReverseName (Resolved t)) 520 @ ''\"'' else []) @
         (if Asn (Resolved t) \<noteq> []
          then '',\"asn\":\"'' @ Asn (Resolved t) @ ''\",\"asn_org\":\"'' @
               JsonEscape (AsnOrg (Resolved t)) 260 @ ''\"'' else []) @
         ''}}'' @ [newline])"

section \<open>The combined roll-up\<close>

record rollup =
  ru_att :: ulong
  ru_con :: ulong
  ru_fail :: ulong
  ru_total :: f64
  ru_totalsq :: f64
  ru_min :: f64
  ru_max :: f64
  ru_have :: bool
  ru_outages :: ulong
  ru_down :: bool

definition rollup_zero :: rollup where
  "rollup_zero =
     \<lparr>ru_att = 0, ru_con = 0, ru_fail = 0, ru_total = Fin 0, ru_totalsq = Fin 0, ru_min = Fin 0,
      ru_max = Fin 0, ru_have = False, ru_outages = 0, ru_down = False\<rparr>"

definition rollup_target :: "rollup \<Rightarrow> probe_target_t \<Rightarrow> rollup" where
  "rollup_target r t =
     (if \<not> ResolveOk t then r
      else let s = TgStats t;
               r1 = r\<lparr>ru_att := ru_att r + Attempts s, ru_con := ru_con r + Connects s,
                      ru_fail := ru_fail r + Failures s, ru_total := fadd (ru_total r) (Total s),
                      ru_totalsq := fadd (ru_totalsq r) (TotalSq s)\<rparr>;
               r2 = (if Connects s > 0
                     then let r2 = (if \<not> ru_have r1 \<or> flt (Minimum s) (ru_min r1)
                                    then r1\<lparr>ru_min := Minimum s\<rparr> else r1);
                              r3 = (if flt (ru_max r2) (Maximum s) then r2\<lparr>ru_max := Maximum s\<rparr> else r2)
                          in r3\<lparr>ru_have := True\<rparr>
                     else r1);
               r4 = r2\<lparr>ru_outages := ru_outages r2 + Outages (TgDiag t)\<rparr>
           in if IsDown (TgDiag t) then r4\<lparr>ru_down := True\<rparr> else r4)"

definition combined :: "target_list_t \<Rightarrow> rollup" where
  "combined l = foldl rollup_target rollup_zero (Items l)"

definition combined_loss :: "rollup \<Rightarrow> f64" where
  "combined_loss r =
     (if ru_att r > 0
      then fmul (fdiv (f64_of_nat (unat (ru_fail r))) (f64_of_nat (unat (ru_att r)))) (Fin 100) else Fin 0)"

definition combined_avg :: "rollup \<Rightarrow> f64" where
  "combined_avg r = (if ru_con r > 0 then fdiv (ru_total r) (f64_of_nat (unat (ru_con r))) else Fin 0)"

definition combined_var :: "rollup \<Rightarrow> f64" where
  "combined_var r =
     (if ru_con r > 0
      then let avg = combined_avg r;
               var = fsub (fdiv (ru_totalsq r) (f64_of_nat (unat (ru_con r)))) (fmul avg avg)
           in if flt var (Fin 0) then Fin 0 else var
      else Fin 0)"

definition combined_verdict :: "rollup \<Rightarrow> cstring \<times> color" where
  "combined_verdict r =
     (let loss = combined_loss r
      in if ru_down r \<or> fle (Fin 100) loss then (''DOWN'', PRINT_RED)
         else if flt (Fin 5) loss \<or> ru_outages r > 0 then (''DEGRADED'', PRINT_YELLOW)
         else (''HEALTHY'', PRINT_GREEN))"

definition PrintCombinedHuman :: "bool \<Rightarrow> target_list_t \<Rightarrow> cstring" where
  "PrintCombinedHuman uc l =
     (let r = combined l; (verdict, vcolor) = combined_verdict r; buf = bounded_copy 160;
          fp = FormattedPrint uc
      in fp PRINT_YELLOW (buf ([newline] @ ''== combined ('' @ dec (length (Items l)) @ '' targets) =='' @ [newline])) @
         ResetColor uc @
         fp PRINT_BLUE (buf (''        '' @ lu (ru_att r) @ '' sent, '' @ lu (ru_con r) @ '' received, '' @
           lu (ru_fail r) @ '' lost ('' @ fmt_fixed 2 (combined_loss r) @ ''% loss)'' @ [newline])) @
         (if ru_have r
          then fp PRINT_BLUE (buf (''        rtt min/avg/max/mdev = '' @ fmt_fixed 4 (ms (ru_min r)) @ ''/'' @
                 fmt_fixed 4 (ms (combined_avg r)) @ ''/'' @ fmt_fixed 4 (ms (ru_max r)) @ ''/'' @
                 fmt_fixed 4 (ms (fsqrt (combined_var r))) @ '' ms'' @ [newline]))
          else []) @
         fp PRINT_BLUE ''        Verdict        = '' @ fp vcolor (buf (verdict @ [newline])) @
         ResetColor uc)"

section \<open>Prometheus\<close>

definition PromLabels :: "probe_target_t \<Rightarrow> nat \<Rightarrow> cstring" where
  "PromLabels t out_size =
     (let le = JsonEscape (Label t) 400; he = JsonEscape (Host t) 280;
          ie = JsonEscape (IPAddress (Resolved t)) 80;
          port = (if TgType t \<noteq> IPPROTO_ICMP then bounded_copy 16 (port_text (TgPort t)) else [])
      in bounded_copy out_size
           (''target=\"'' @ le @ ''\",host=\"'' @ he @ ''\",ip=\"'' @ ie @ ''\",proto=\"'' @
            ProtoLabel (TgType t) (IPAddress (Resolved t)) @ ''\",port=\"'' @ port @ ''\"''))"

definition prom_head :: "cstring \<Rightarrow> cstring \<Rightarrow> cstring \<Rightarrow> cstring" where
  "prom_head name help type =
     ''# HELP '' @ name @ '' '' @ help @ [newline] @ ''# TYPE '' @ name @ '' '' @ type @ [newline]"

definition prom_sample :: "cstring \<Rightarrow> cstring \<Rightarrow> cstring \<Rightarrow> cstring" where
  "prom_sample name labels value = name @ ''{'' @ labels @ ''} '' @ value @ [newline]"

definition prom_rtt :: "(nat \<Rightarrow> bool) \<Rightarrow> probe_target_t \<Rightarrow> cstring" where
  "prom_rtt ok t =
     (let lbl = PromLabels t 900; s = TgStats t
      in if Connects s > 0
         then prom_sample ''pingdd_rtt_seconds'' (lbl @ '',stat=\"min\"'') (fmt_fixed 6 (Minimum s)) @
              prom_sample ''pingdd_rtt_seconds'' (lbl @ '',stat=\"avg\"'') (fmt_fixed 6 (Stats_Average s)) @
              prom_sample ''pingdd_rtt_seconds'' (lbl @ '',stat=\"max\"'') (fmt_fixed 6 (Maximum s)) @
              prom_sample ''pingdd_rtt_seconds'' (lbl @ '',quantile=\"0.95\"'')
                (fmt_fixed 6 (Stats_Percentile (ok 95) s (Fin 95)))
         else [])"

definition target_up :: "probe_target_t \<Rightarrow> bool" where
  "target_up t = (ResolveOk t \<and> LastResult t = SUCCESS)"

definition loss_ratio :: "stats_t \<Rightarrow> f64" where
  "loss_ratio s =
     (if Attempts s > 0 then fdiv (f64_of_nat (unat (Failures s))) (f64_of_nat (unat (Attempts s))) else Fin 0)"

definition WritePrometheus :: "(nat \<Rightarrow> bool) \<Rightarrow> target_list_t \<Rightarrow> cstring" where
  "WritePrometheus ok l =
     (let each = (\<lambda>f. concat (map f (Items l))); lbl = (\<lambda>t. PromLabels t 900)
      in prom_head ''pingdd_up'' ''Last-probe reachability (1=reachable).'' ''gauge'' @
         each (\<lambda>t. prom_sample ''pingdd_up'' (lbl t) (if target_up t then ''1'' else ''0'')) @
         prom_head ''pingdd_probes_total'' ''Total probes attempted.'' ''counter'' @
         each (\<lambda>t. prom_sample ''pingdd_probes_total'' (lbl t) (lu (Attempts (TgStats t)))) @
         prom_head ''pingdd_failures_total'' ''Total failed probes.'' ''counter'' @
         each (\<lambda>t. prom_sample ''pingdd_failures_total'' (lbl t) (lu (Failures (TgStats t)))) @
         prom_head ''pingdd_loss_ratio'' ''Fraction of probes that failed.'' ''gauge'' @
         each (\<lambda>t. prom_sample ''pingdd_loss_ratio'' (lbl t) (fmt_fixed 6 (loss_ratio (TgStats t)))) @
         prom_head ''pingdd_rtt_seconds'' ''Round-trip time aggregates.'' ''gauge'' @
         each (prom_rtt ok))"

section \<open>Strings in JSON\<close>

text \<open>The body of a JSON string as this program may write it: no control character, and a quote or a
  backslash only behind a backslash.\<close>

fun json_body :: "cstring \<Rightarrow> bool" where
  "json_body [] = True"
| "json_body [c] = (c \<noteq> backslash \<and> c \<noteq> dquote \<and> 0x20 \<le> code c)"
| "json_body (c # d # cs) =
     (if c = backslash then (d = dquote \<or> d = backslash) \<and> json_body cs
      else c \<noteq> dquote \<and> 0x20 \<le> code c \<and> json_body (d # cs))"

fun json_decode :: "cstring \<Rightarrow> cstring" where
  "json_decode [] = []"
| "json_decode [c] = [c]"
| "json_decode (c # d # cs) = (if c = backslash then d # json_decode cs else c # json_decode (d # cs))"

definition blanked :: "char \<Rightarrow> char" where
  "blanked c = (if code c < 0x20 then CHR '' '' else c)"

lemma json_body_plain_Cons:
  "c \<noteq> backslash \<Longrightarrow> c \<noteq> dquote \<Longrightarrow> 0x20 \<le> code c \<Longrightarrow> json_body (c # cs) = json_body cs"
  by (cases cs) auto

lemma json_decode_plain_Cons: "c \<noteq> backslash \<Longrightarrow> json_decode (c # cs) = c # json_decode cs"
  by (cases cs) auto

lemma special_codes: "code dquote = 34" "code backslash = 92" "code CHR '' '' = 32" "code newline = 10"
  by (simp_all add: code_def)

lemma json_escape_spec:
  "out < dst_size \<Longrightarrow>
     out + length (json_escape dst_size out src) < dst_size \<and> json_body (json_escape dst_size out src) \<and>
     (\<exists>k. json_decode (json_escape dst_size out src) = map blanked (take k src) \<and>
          (out + 2 * length src < dst_size \<longrightarrow> length src \<le> k))"
proof (induction dst_size out src rule: json_escape.induct)
  case (2 dst_size out c src)
  consider "\<not> out + 2 < dst_size" | "out + 2 < dst_size" "c = dquote \<or> c = backslash"
    | "out + 2 < dst_size" "c \<noteq> dquote" "c \<noteq> backslash" "code c < 0x20"
    | "out + 2 < dst_size" "c \<noteq> dquote" "c \<noteq> backslash" "0x20 \<le> code c"
    by linarith
  then show ?case
  proof cases
    case 1
    then show ?thesis using 2(4) by (auto intro!: exI [of _ 0])
  next
    case c: 2
    from 2(1) c obtain k where
      "out + 2 + length (json_escape dst_size (out + 2) src) < dst_size" "json_body (json_escape dst_size (out + 2) src)"
      "json_decode (json_escape dst_size (out + 2) src) = map blanked (take k src)"
      "out + 2 + 2 * length src < dst_size \<longrightarrow> length src \<le> k" by auto
    moreover have "blanked c = c" using c by (auto simp: blanked_def special_codes)
    ultimately show ?thesis using c by (auto intro!: exI [of _ "Suc k"])
  next
    case c: 3
    from 2(2) c obtain k where
      "out + 1 + length (json_escape dst_size (out + 1) src) < dst_size" "json_body (json_escape dst_size (out + 1) src)"
      "json_decode (json_escape dst_size (out + 1) src) = map blanked (take k src)"
      "out + 1 + 2 * length src < dst_size \<longrightarrow> length src \<le> k" by auto
    then show ?thesis using c
      by (auto simp: json_body_plain_Cons json_decode_plain_Cons special_codes blanked_def intro!: exI [of _ "Suc k"])
  next
    case c: 4
    from 2(3) c obtain k where
      "out + 1 + length (json_escape dst_size (out + 1) src) < dst_size" "json_body (json_escape dst_size (out + 1) src)"
      "json_decode (json_escape dst_size (out + 1) src) = map blanked (take k src)"
      "out + 1 + 2 * length src < dst_size \<longrightarrow> length src \<le> k" by auto
    then show ?thesis using c
      by (auto simp: json_body_plain_Cons json_decode_plain_Cons blanked_def intro!: exI [of _ "Suc k"])
  qed
qed auto

lemma JsonEscape_body [simp]: "json_body (JsonEscape src n)"
  using json_escape_spec [of 0 n src] by (cases n) (auto simp: JsonEscape_def)

text \<open>C19: escaping. What \<open>JsonEscape\<close> writes fits its buffer, is the body of a JSON string, and decodes to
  a prefix of the source in which control characters are spaces; to all of it when the buffer is
  more than twice as long.\<close>

theorem JsonEscape_reads_back:
  assumes "0 < n"
  shows "length (JsonEscape src n) < n \<and> json_body (JsonEscape src n) \<and>
    (\<exists>k. json_decode (JsonEscape src n) = map blanked (take k src)) \<and>
    (2 * length src < n \<longrightarrow> json_decode (JsonEscape src n) = map blanked src)"
  using json_escape_spec [of 0 n src] assms by (auto simp: JsonEscape_def)

theorem JsonEscape_reads_back_witness:
  "json_decode (JsonEscape (''say '' @ [dquote] @ ''hi'' @ [dquote, newline]) 80) = ''say '' @ [dquote] @ ''hi'' @ [dquote, CHR '' '']"
  using JsonEscape_reads_back [of 80 "''say '' @ [dquote] @ ''hi'' @ [dquote, newline]"]
  by (simp add: blanked_def code_def)

section \<open>JSON objects\<close>

datatype json = JNull | JBool bool | JNum cstring | JStr cstring | JObj "(cstring \<times> json) list"

definition json_member :: "cstring \<Rightarrow> cstring \<Rightarrow> cstring" where
  "json_member k v = dquote # k @ dquote # CHR '':'' # v"

fun json_text :: "json \<Rightarrow> cstring" where
  "json_text JNull = ''null''"
| "json_text (JBool b) = (if b then ''true'' else ''false'')"
| "json_text (JNum s) = s"
| "json_text (JStr s) = dquote # s @ [dquote]"
| "json_text (JObj mbs) =
     CHR ''{'' # joined CHR '','' (map (\<lambda>(k, v). json_member k (json_text v)) mbs) @ ''}''"

text \<open>A JSON number: digits without a superfluous zero in front, perhaps a sign and a fraction.\<close>

definition json_number :: "cstring \<Rightarrow> bool" where
  "json_number s \<longleftrightarrow> (\<exists>m a b. s = m @ a @ b \<and> m \<in> {[], ''-''} \<and> a \<noteq> [] \<and> list_all isdigit a \<and>
     (hd a = CHR ''0'' \<longrightarrow> a = ''0'') \<and> (b = [] \<or> (\<exists>f. b = CHR ''.'' # f \<and> f \<noteq> [] \<and> list_all isdigit f)))"

fun json_wf :: "json \<Rightarrow> bool" where
  "json_wf JNull = True"
| "json_wf (JBool b) = True"
| "json_wf (JNum s) = json_number s"
| "json_wf (JStr s) = json_body s"
| "json_wf (JObj mbs) = (\<forall>(k, v) \<in> set mbs. json_body k \<and> json_wf v)"

lemma dec_no_leading_zero: "hd (dec n) = CHR ''0'' \<Longrightarrow> dec n = ''0''"
proof (induction n rule: dec.induct)
  case (1 n)
  have z: "digit_char d = CHR ''0'' \<longleftrightarrow> d = 0" if "d < 10" for d
    using that code_inject [of "digit_char d" "CHR ''0''"] by (simp del: code_inject add: code_def [of "CHR ''0''"])
  show ?case
  proof (cases "n < 10")
    case True
    then show ?thesis using 1(2) z [of n] by (subst dec.simps, subst (asm) dec.simps) simp
  next
    case False
    then have h: "hd (dec n) = hd (dec (n div 10))" by (subst dec.simps) simp
    with 1 False have "dec (n div 10) = ''0''" by simp
    moreover have "digits_value 0 (dec (n div 10) @ []) = (n div 10, [])"
      unfolding digits_value_dec_append by simp
    ultimately have "n div 10 = 0" by (simp add: isdigit_def code_def)
    with False show ?thesis by simp
  qed
qed

lemma list_all_dec: "list_all isdigit (dec n)"
  using dec_digits by (auto simp: list_all_iff)

lemma json_number_dec [simp]: "json_number (dec n)"
  unfolding json_number_def
  by (rule exI [of _ "[]"], rule exI [of _ "dec n"], rule exI [of _ "[]"])
    (auto simp: list_all_dec dec_no_leading_zero)

lemma json_number_int [simp]: "json_number (fmt_int n)"
  unfolding json_number_def fmt_int_def
  by (rule exI [of _ "if n < 0 then ''-'' else []"], rule exI [of _ "dec (nat \<bar>n\<bar>)"], rule exI [of _ "[]"])
    (auto simp: list_all_dec dec_no_leading_zero)

lemma json_number_fixed [simp]: "0 < d \<Longrightarrow> json_number (fmt_fixed d (Fin q))"
  unfolding json_number_def
  apply (rule exI [of _ "if q < 0 then ''-'' else []"])
  apply (rule exI [of _ "dec (nat (round_half_even (\<bar>q\<bar> * 10 ^ d)) div 10 ^ d)"])
  apply (rule exI [of _ "CHR ''.'' # fmt_pad d (dec (nat (round_half_even (\<bar>q\<bar> * 10 ^ d)) mod 10 ^ d))"])
  apply (auto simp: fixed_digits_def list_all_dec dec_no_leading_zero list_all_iff fmt_pad_def isdigit_def code_def
      dest: dec_digits)
  done

text \<open>A well-formed object is one line.\<close>

lemma digits_no_newline: "list_all isdigit a \<Longrightarrow> newline \<notin> set a"
  by (induction a) (auto simp: isdigit_def special_codes)

lemma json_number_no_newline: "json_number s \<Longrightarrow> newline \<notin> set s"
  by (auto simp: json_number_def dest: digits_no_newline)

lemma json_body_no_newline: "json_body s \<Longrightarrow> newline \<notin> set s"
  by (induction s rule: json_body.induct) (auto simp: special_codes split: if_splits)

lemma set_joined: "set (joined c xs) \<subseteq> insert c (\<Union> (set ` set xs))"
  by (induction c xs rule: joined.induct) auto

lemma json_text_no_newline: "json_wf j \<Longrightarrow> newline \<notin> set (json_text j)"
proof (induction j)
  case (JObj mbs)
  then have "newline \<notin> set (json_member (fst p) (json_text (snd p)))" if "p \<in> set mbs" for p
    using that json_body_no_newline by (fastforce simp: json_member_def Basic_BNFs.snds.simps)
  then have "newline \<notin> set (joined CHR '','' (map (\<lambda>(k, v). json_member k (json_text v)) mbs))"
    using set_joined [of "CHR '',''" "map (\<lambda>(k, v). json_member k (json_text v)) mbs"] by fastforce
  then show ?case by simp
qed (auto dest: json_number_no_newline json_body_no_newline)

text \<open>The fields of the three kinds of line.\<close>

fun fixed_or_null :: "bool \<Rightarrow> nat \<Rightarrow> f64 \<Rightarrow> json" where
  "fixed_or_null present d x = (if present then JNum (fmt_fixed d x) else JNull)"

definition probe_fields ::
  "int \<Rightarrow> ulong \<Rightarrow> cstring \<Rightarrow> f64 \<Rightarrow> cstring \<Rightarrow> bool \<Rightarrow> u16 \<Rightarrow> cstring \<Rightarrow> cstring \<Rightarrow> int \<Rightarrow> (cstring \<times> json) list" where
  "probe_fields result seq ip rtt proto show_port port datetime host ttl =
     [(''seq'', JNum (lu seq)), (''timestamp'', JStr datetime), (''host'', JStr (JsonEscape host 280)),
      (''ip'', JStr (JsonEscape ip 80)), (''proto'', JStr proto),
      (''port'', if show_port then JNum (port_text port) else JNull), (''status'', JStr (StatusToken result))] @
     (if ttl \<ge> 0 then [(''ttl'', JNum (fmt_int ttl))] else []) @
     [(''rtt_ms'', fixed_or_null (result = SUCCESS) 4 (ms rtt))]"

definition summary_fields :: "(nat \<Rightarrow> bool) \<Rightarrow> stats_t \<Rightarrow> cstring \<Rightarrow> (cstring \<times> json) list" where
  "summary_fields ok s host =
     (let v = fixed_or_null (Connects s \<noteq> 0) 4
      in [(''host'', JStr (JsonEscape host 280)), (''sent'', JNum (lu (Attempts s))),
          (''received'', JNum (lu (Connects s))), (''lost'', JNum (lu (Failures s))),
          (''loss_pct'', JNum (fmt_fixed 2 (fail_percent s))), (''min_ms'', v (ms (Minimum s))),
          (''avg_ms'', v (ms (Stats_Average s))), (''max_ms'', v (ms (Maximum s))),
          (''mdev_ms'', v (ms (Stats_StdDev s))), (''p50_ms'', v (ms (Stats_Percentile (ok 50) s (Fin 50)))),
          (''p95_ms'', v (ms (Stats_Percentile (ok 95) s (Fin 95)))),
          (''p99_ms'', v (ms (Stats_Percentile (ok 99) s (Fin 99))))])"

definition target_fields :: "probe_target_t \<Rightarrow> (cstring \<times> json) list" where
  "target_fields t =
     [(''host'', JStr (JsonEscape (Host t) 280)), (''ip'', JStr (JsonEscape (IPAddress (Resolved t)) 80)),
      (''port'', if TgType t = IPPROTO_ICMP then JNull else JNum (port_text (TgPort t))),
      (''proto'', JStr (ProtoLabel (TgType t) (IPAddress (Resolved t)))), (''resolved'', JBool (ResolveOk t))] @
     (if ReverseName (Resolved t) \<noteq> [] then [(''rdns'', JStr (JsonEscape (ReverseName (Resolved t)) 520))] else []) @
     (if Asn (Resolved t) \<noteq> []
      then [(''asn'', JStr (Asn (Resolved t))), (''asn_org'', JStr (JsonEscape (AsnOrg (Resolved t)) 260))] else [])"

lemma ProbeJson_text:
  "PrintProbeJson result seq ip rtt proto show_port port datetime host ttl =
     json_text (JObj (probe_fields result seq ip rtt proto show_port port datetime host ttl)) @ [newline]"
  by (simp add: PrintProbeJson_def probe_fields_def json_member_def Let_def)

lemma SummaryJson_text:
  "PrintSummaryJson ok s host = json_text (JObj [(''summary'', JObj (summary_fields ok s host))]) @ [newline]"
  by (simp add: PrintSummaryJson_def summary_fields_def json_member_def Let_def)

lemma TargetJson_text:
  "PrintTargetJson t = json_text (JObj [(''target'', JObj (target_fields t))]) @ [newline]"
  by (simp add: PrintTargetJson_def target_fields_def json_member_def json_bool_def Let_def)

lemma json_body_literals:
  "json_body (StatusToken r)" "json_body (ProtoLabel t ip)"
  by (auto simp: StatusToken_def ProtoLabel_def code_def)

definition finite_summary :: "(nat \<Rightarrow> bool) \<Rightarrow> stats_t \<Rightarrow> bool" where
  "finite_summary ok s \<longleftrightarrow> fail_percent s \<in> range Fin \<and>
     (Connects s \<noteq> 0 \<longrightarrow> {ms (Minimum s), ms (Stats_Average s), ms (Maximum s), ms (Stats_StdDev s),
        ms (Stats_Percentile (ok 50) s (Fin 50)), ms (Stats_Percentile (ok 95) s (Fin 95)),
        ms (Stats_Percentile (ok 99) s (Fin 99))} \<subseteq> range Fin)"

lemma json_number_finite: "x \<in> range Fin \<Longrightarrow> 0 < d \<Longrightarrow> json_number (fmt_fixed d x)"
  by (elim imageE) (simp only: json_number_fixed)

lemma probe_fields_wf:
  assumes "json_body datetime" "json_body proto" "result = SUCCESS \<Longrightarrow> ms rtt \<in> range Fin"
  shows "json_wf (JObj (probe_fields result seq ip rtt proto show_port port datetime host ttl))"
  using assms json_number_finite [of "ms rtt" 4]
  by (auto simp: probe_fields_def json_body_literals code_def)

lemma summary_fields_wf: "finite_summary ok s \<Longrightarrow> json_wf (JObj (summary_fields ok s host))"
  by (auto simp del: fmt_fixed.simps
      simp: summary_fields_def finite_summary_def code_def Let_def intro!: json_number_finite)

lemma target_fields_wf: "json_body (Asn (Resolved t)) \<Longrightarrow> json_wf (JObj (target_fields t))"
  by (auto simp: target_fields_def json_body_literals code_def)

text \<open>NDJSON. Each line of the program is one well-formed JSON object with the fields named, followed
  by the only newline in it, for any host and address text: given a finite time, a timestamp and an
  AS number without quotes (which \<open>PrintTargetJson\<close> does not escape).\<close>

theorem json_lines:
  assumes "json_body datetime" and "result = SUCCESS \<longrightarrow> ms rtt \<in> range Fin"
    and "finite_summary ok s" and "json_body (Asn (Resolved t))"
    and "pf = JObj (probe_fields result seq ip rtt (ProtoLabel type ip) show_port port datetime host ttl)"
    and "sf = JObj [(''summary'', JObj (summary_fields ok s host))]"
    and "tf = JObj [(''target'', JObj (target_fields t))]"
  shows "PrintProbeJson result seq ip rtt (ProtoLabel type ip) show_port port datetime host ttl = json_text pf @ [newline] \<and>
    PrintSummaryJson ok s host = json_text sf @ [newline] \<and> PrintTargetJson t = json_text tf @ [newline] \<and>
    (\<forall>j \<in> {pf, sf, tf}. json_wf j \<and> newline \<notin> set (json_text j))"
proof -
  have "json_wf pf" unfolding assms(5) by (rule probe_fields_wf) (use assms json_body_literals in auto)
  moreover have "json_wf sf" using summary_fields_wf [OF assms(3)] unfolding assms(6) by (simp add: code_def)
  moreover have "json_wf tf" using target_fields_wf [OF assms(4)] unfolding assms(7) by (simp add: code_def)
  ultimately show ?thesis
    using ProbeJson_text SummaryJson_text TargetJson_text json_text_no_newline unfolding assms(5-7) by blast
qed

theorem json_lines_witness:
  "newline \<notin> set (json_text (JObj (probe_fields SUCCESS 0 ''10.0.0.1'' (Fin 0) (ProtoLabel 6 ''10.0.0.1'') True 80
     ''2024-01-01'' (''a'' @ [dquote] @ ''b'') 64)))"
proof -
  have d: "json_body ''2024-01-01''" "ms (Fin 0) = Fin 0" by code_simp+
  have s: "finite_summary (\<lambda>n. True) Stats_Init"
    by (simp add: finite_summary_def fail_percent_def Stats_Init_def Stats_Reset_def)
  have a: "json_body (Asn (Resolved (new_target ''h'' 80 6)))"
    by (simp add: new_target_def blank_host_def Let_def)
  show ?thesis using json_lines [OF d(1) _ s a refl refl refl, of SUCCESS "Fin 0"] d(2) by auto
qed

section \<open>Colours\<close>

text \<open>\<open>displays t s\<close>: whatever follows, a terminal shows the text \<open>t\<close> as \<open>s\<close>.\<close>

definition displays :: "cstring \<Rightarrow> cstring \<Rightarrow> bool" where
  "displays t s \<longleftrightarrow> (\<forall>r. strip_ansi (t @ r) = s @ strip_ansi r)"

named_theorems displays_intros \<open>texts a terminal shows as they are\<close>

lemma displays_same [displays_intros]: "ESC \<notin> set s \<Longrightarrow> displays s s"
  and displays_fp [displays_intros]: "ESC \<notin> set d \<Longrightarrow> displays (FormattedPrint True c d) (FormattedPrint False c d)"
  and displays_reset [displays_intros]: "displays (ResetColor True) (ResetColor False)"
  by (simp_all add: displays_def FormattedPrint_def ResetColor_def Let_def)

lemma displays_append [displays_intros]: "displays t s \<Longrightarrow> displays t' s' \<Longrightarrow> displays (t @ t') (s @ s')"
  by (simp add: displays_def)

lemma displays_if [displays_intros]:
  "(b \<Longrightarrow> displays t s) \<Longrightarrow> (\<not> b \<Longrightarrow> displays t' s') \<Longrightarrow> displays (if b then t else t') (if b then s else s')"
  by simp

lemma displays_strip: "displays t s \<Longrightarrow> strip_ansi t = s"
  using spec [of "\<lambda>r. strip_ansi (t @ r) = s @ strip_ansi r" "[]"] by (simp add: displays_def)

lemma dec_no_ESC [simp]: "ESC \<notin> set (dec n)"
  by (rule dec_no_char) (simp add: isdigit_def code_def)

lemma fmt_fixed_no_ESC [simp]: "ESC \<notin> set (fmt_fixed d x)"
  by (cases x) (auto simp: fixed_digits_def fmt_pad_def)

lemma fmt_int_no_ESC [simp]: "ESC \<notin> set (fmt_int n)"
  by (simp add: fmt_int_def)

lemma bounded_no_ESC [simp]: "ESC \<notin> set s \<Longrightarrow> ESC \<notin> set (bounded_copy n s)"
  using set_bounded_copy by blast

lemma literals_no_ESC [simp]:
  "ESC \<notin> set (GetFriendlyTypeName r)" "ESC \<notin> set (QualityName g)" "ESC \<notin> set (BloatName b)"
  "ESC \<notin> set (Verdict d s)" "ESC \<notin> set (pct_class l)" "ESC \<notin> set (jitter_class l)"
  "ESC \<notin> set (fst (combined_verdict ru))"
  by (auto simp: GetFriendlyTypeName_def QualityName_def BloatName_def Verdict_def pct_class_def jitter_class_def
      combined_verdict_def Let_def)

lemma displays_probe:
  assumes "ESC \<notin> set ip" "ESC \<notin> set proto" "ESC \<notin> set datetime" "\<forall>p. prefix = Some p \<longrightarrow> ESC \<notin> set p"
  shows "displays (PrintProbeHuman True result seq ip rtt proto show_port port datetime prefix ttl)
    (PrintProbeHuman False result seq ip rtt proto show_port port datetime prefix ttl)"
proof -
  have "displays (case prefix of None \<Rightarrow> [] | Some p \<Rightarrow> FormattedPrint True PRINT_WHITE (bounded_copy 96 (''['' @ p @ ''] '')))
      (case prefix of None \<Rightarrow> [] | Some p \<Rightarrow> FormattedPrint False PRINT_WHITE (bounded_copy 96 (''['' @ p @ ''] '')))"
    using assms(4) by (cases prefix) (auto intro!: displays_intros)
  then show ?thesis
    unfolding PrintProbeHuman_def Let_def by (intro displays_intros) (use assms in simp_all)
qed

lemma displays_summary: "displays (PrintSummaryHuman True ok s) (PrintSummaryHuman False ok s)"
  unfolding PrintSummaryHuman_def Let_def by (intro displays_intros) simp_all

lemma displays_diag: "displays (Diag_PrintSummary True ok d s) (Diag_PrintSummary False ok d s)"
  unfolding Diag_PrintSummary_def Let_def by (intro displays_intros) simp_all

lemma displays_combined: "displays (PrintCombinedHuman True l) (PrintCombinedHuman False l)"
proof -
  obtain v c where v: "combined_verdict (combined l) = (v, c)" by (cases "combined_verdict (combined l)")
  then have "ESC \<notin> set v" using literals_no_ESC(7) [of "combined l"] by simp
  then show ?thesis
    unfolding PrintCombinedHuman_def Let_def v prod.case by (intro displays_intros) simp_all
qed



section \<open>The roll-up\<close>

definition up_targets :: "probe_target_t list \<Rightarrow> probe_target_t list" where
  "up_targets ts = filter ResolveOk ts"

definition sampled :: "probe_target_t list \<Rightarrow> probe_target_t list" where
  "sampled ts = filter (\<lambda>t. ResolveOk t \<and> Connects (TgStats t) \<noteq> 0) ts"

definition rolled :: "probe_target_t list \<Rightarrow> rollup \<Rightarrow> bool" where
  "rolled ts r \<longleftrightarrow>
     ru_att r = (\<Sum>t \<leftarrow> up_targets ts. Attempts (TgStats t)) \<and>
     ru_con r = (\<Sum>t \<leftarrow> up_targets ts. Connects (TgStats t)) \<and>
     ru_fail r = (\<Sum>t \<leftarrow> up_targets ts. Failures (TgStats t)) \<and>
     ru_outages r = (\<Sum>t \<leftarrow> up_targets ts. Outages (TgDiag t)) \<and>
     (ru_down r \<longleftrightarrow> (\<exists>t \<in> set ts. ResolveOk t \<and> IsDown (TgDiag t))) \<and>
     (ru_have r \<longleftrightarrow> sampled ts \<noteq> []) \<and>
     (sampled ts \<noteq> [] \<longrightarrow> ru_min r = Min ((\<lambda>t. Minimum (TgStats t)) ` set (sampled ts))) \<and>
     ru_max r = Max (insert (Fin 0) ((\<lambda>t. Maximum (TgStats t)) ` set (sampled ts)))"

lemma flt_max: "m \<noteq> NaN \<Longrightarrow> (if flt b m then m else b) = max m b"
  by (auto simp: flt_iff_less max_def dest: less_imp_le)

lemma rollup_counted:
  assumes "ResolveOk t" "Connects (TgStats t) \<noteq> 0"
  shows "ru_att (rollup_target r t) = ru_att r + Attempts (TgStats t)"
    and "ru_con (rollup_target r t) = ru_con r + Connects (TgStats t)"
    and "ru_fail (rollup_target r t) = ru_fail r + Failures (TgStats t)"
    and "ru_outages (rollup_target r t) = ru_outages r + Outages (TgDiag t)"
    and "ru_have (rollup_target r t)"
    and "ru_min (rollup_target r t) =
      (if \<not> ru_have r \<or> flt (Minimum (TgStats t)) (ru_min r) then Minimum (TgStats t) else ru_min r)"
    and "ru_max (rollup_target r t) =
      (if flt (ru_max r) (Maximum (TgStats t)) then Maximum (TgStats t) else ru_max r)"
    and "ru_down (rollup_target r t) \<longleftrightarrow> ru_down r \<or> IsDown (TgDiag t)"
  using assms by (auto simp: rollup_target_def Let_def word_neq_0_conv)

lemma least_snoc:
  assumes "NaN \<notin> set xs" and "have_any \<longleftrightarrow> xs \<noteq> []" and "xs \<noteq> [] \<Longrightarrow> b = Min (set xs)" and "m \<noteq> NaN"
  shows "(if \<not> have_any \<or> flt m b then m else b) = Min (set (xs @ [m]))"
proof (cases "xs = []")
  case False
  then have "Min (set xs) \<in> set xs" by (intro Min_in) auto
  then have "b \<noteq> NaN" "have_any" using assms(1-3) False by metis+
  moreover have "Min (set (xs @ [m])) = min m b" using False assms(3) by simp
  ultimately show ?thesis by (auto simp: flt_iff_less min_def not_less dest: less_imp_le)
qed (use assms(2) in simp)

lemma greatest_snoc:
  assumes "b = Max (insert z (set xs))" and "m \<noteq> NaN"
  shows "(if flt b m then m else b) = Max (insert z (set (xs @ [m])))"
proof -
  have "Max (insert m (insert z (set xs))) = max m b" unfolding assms(1) by (rule Max_insert) auto
  then show ?thesis using flt_max [OF assms(2)] by (simp add: insert_commute)
qed

lemma rolled_snoc:
  assumes r: "rolled ts r" and "ResolveOk t \<and> Connects (TgStats t) \<noteq> 0 \<Longrightarrow>
      Minimum (TgStats t) \<noteq> NaN \<and> Maximum (TgStats t) \<noteq> NaN"
    and "\<forall>u \<in> set (sampled ts). Minimum (TgStats u) \<noteq> NaN"
  shows "rolled (ts @ [t]) (rollup_target r t)"
proof (cases "ResolveOk t \<and> Connects (TgStats t) \<noteq> 0")
  case True
  then have s: "sampled (ts @ [t]) = sampled ts @ [t]" "up_targets (ts @ [t]) = up_targets ts @ [t]"
    by (simp_all add: sampled_def up_targets_def)
  note c = rollup_counted [of t r, OF conjunct1 [OF True] conjunct2 [OF True]]
  let ?ms = "map (\<lambda>t. Minimum (TgStats t)) (sampled ts)" and ?Ms = "map (\<lambda>t. Maximum (TgStats t)) (sampled ts)"
  have "NaN \<notin> set ?ms" "ru_have r \<longleftrightarrow> ?ms \<noteq> []" "?ms \<noteq> [] \<Longrightarrow> ru_min r = Min (set ?ms)"
    "ru_max r = Max (insert (Fin 0) (set ?Ms))"
    using assms(3) r by (auto simp: rolled_def)
  then have "ru_min (rollup_target r t) = Min (set (?ms @ [Minimum (TgStats t)]))"
    "ru_max (rollup_target r t) = Max (insert (Fin 0) (set (?Ms @ [Maximum (TgStats t)])))"
    using assms(2) [OF True] unfolding c by (intro least_snoc greatest_snoc; simp)+
  moreover have "ru_down r \<or> IsDown (TgDiag t) \<longleftrightarrow> (\<exists>u \<in> set (ts @ [t]). ResolveOk u \<and> IsDown (TgDiag u))"
    using r True by (auto simp: rolled_def)
  ultimately show ?thesis
    using r True unfolding rolled_def s by (simp add: c)
next
  case False
  then have s: "sampled (ts @ [t]) = sampled ts" by (simp add: sampled_def)
  have nz: "\<not> Connects (TgStats t) > 0" if "ResolveOk t" using False that by (simp add: word_neq_0_conv)
  show ?thesis
    using r nz unfolding rolled_def s
    by (cases "ResolveOk t") (auto simp: rollup_target_def up_targets_def Let_def)
qed

lemma combined_rolled:
  assumes "\<forall>t \<in> set (sampled ts). Minimum (TgStats t) \<noteq> NaN \<and> Maximum (TgStats t) \<noteq> NaN"
  shows "rolled ts (foldl rollup_target rollup_zero ts)"
  using assms
proof (induction ts rule: rev_induct)
  case Nil
  then show ?case by (simp add: rolled_def rollup_zero_def up_targets_def sampled_def)
next
  case (snoc t ts)
  then show ?case by (auto simp: sampled_def intro!: rolled_snoc)
qed

text \<open>the combined report. Its counts are the 64-bit sums over the resolved targets, its extremes
  those of the targets with a sample, it is DOWN when a target is in an outage, and HEALTHY only with
  no outage at all.\<close>

theorem combined_totals:
  assumes "\<forall>t \<in> set (Items l). ResolveOk t \<and> Connects (TgStats t) \<noteq> 0 \<longrightarrow>
      Minimum (TgStats t) \<noteq> NaN \<and> Maximum (TgStats t) \<noteq> NaN"
  shows "rolled (Items l) (combined l) \<and>
    ((\<exists>t \<in> set (Items l). ResolveOk t \<and> IsDown (TgDiag t)) \<longrightarrow> fst (combined_verdict (combined l)) = ''DOWN'') \<and>
    (fst (combined_verdict (combined l)) = ''HEALTHY'' \<longrightarrow>
       (\<Sum>t \<leftarrow> up_targets (Items l). Outages (TgDiag t)) = 0)"
proof -
  have r: "rolled (Items l) (combined l)"
    unfolding combined_def by (rule combined_rolled) (use assms in \<open>auto simp: sampled_def\<close>)
  moreover have "fst (combined_verdict (combined l)) = ''HEALTHY'' \<Longrightarrow> ru_outages (combined l) = 0"
    by (auto simp: combined_verdict_def Let_def word_gt_0 split: if_splits)
  ultimately show ?thesis
    by (auto simp: rolled_def) (auto simp: combined_verdict_def Let_def)
qed

theorem combined_totals_witness:
  "ru_att (combined \<lparr>Items = [new_target ''a'' 80 6, (new_target ''b'' 81 6)\<lparr>ResolveOk := True,
      TgStats := Stats_Init\<lparr>Attempts := 3, Failures := 3\<rparr>\<rparr>], TgCap = 8\<rparr>) = 3"
proof -
  let ?l = "\<lparr>Items = [new_target ''a'' 80 6, (new_target ''b'' 81 6)\<lparr>ResolveOk := True,
      TgStats := Stats_Init\<lparr>Attempts := 3, Failures := 3\<rparr>\<rparr>], TgCap = 8\<rparr>"
  have "\<forall>t \<in> set (Items ?l). ResolveOk t \<and> Connects (TgStats t) \<noteq> 0 \<longrightarrow>
      Minimum (TgStats t) \<noteq> NaN \<and> Maximum (TgStats t) \<noteq> NaN"
    by (simp add: new_target_def Stats_Init_def Stats_Reset_def Let_def)
  from combined_totals [OF this] show ?thesis
    by (simp add: rolled_def up_targets_def new_target_def Let_def)
qed

end
