(* ===== verification/Dns.thy ===== *)
theory Dns
  imports Socket Targets
begin

unbundle bit_operations_syntax

text \<open>
  \<open>resolve.c\<close>: the annotation of an address with its PTR name and AS number, which the program looks
  up with TXT queries of its own. The encoder, the parser of the answer and the record fields are
  definitions on bytes; the files and the network are arguments: \<open>net\<close> maps the server and the
  query to the datagram received, \<open>None\<close> for any failure of the calls. The parser reads its buffer
  through \<open>peek\<close>, the whole array of 1024 bytes, of which the first \<open>n\<close> were received.
\<close>

section \<open>Queries\<close>

definition char_byte :: "char \<Rightarrow> u8" where
  "char_byte c = of_nat (code c)"

definition byte_char :: "u8 \<Rightarrow> char" where
  "byte_char b = char_of (unat b)"

text \<open>\<open>sscanf(line, "nameserver %63s", ip)\<close>.\<close>

definition nameserver_ip :: "cstring \<Rightarrow> cstring option" where
  "nameserver_ip line =
     (if take 10 line = ''nameserver''
      then let t = takeWhile (\<lambda>c. \<not> isspace c) (dropWhile isspace (drop 10 line))
           in if t = [] then None else Some (take 63 t)
      else None)"

fun scan_resolv :: "(cstring \<Rightarrow> u32 option) \<Rightarrow> char list list \<Rightarrow> u32 \<Rightarrow> u32" where
  "scan_resolv pton [] server = server"
| "scan_resolv pton (line # lines) server =
     (case nameserver_ip (cstr line) of
        None \<Rightarrow> scan_resolv pton lines server
      | Some ip \<Rightarrow> (case pton ip of None \<Rightarrow> scan_resolv pton lines server | Some a \<Rightarrow> a))"

definition PickResolver :: "(cstring \<Rightarrow> char list option) \<Rightarrow> (cstring \<Rightarrow> u32 option) \<Rightarrow> u32" where
  "PickResolver fopen pton =
     (case fopen ''/etc/resolv.conf'' of
        None \<Rightarrow> 0x01010101
      | Some content \<Rightarrow> scan_resolv pton (file_lines 256 content) 0x01010101)"

text \<open>The loop of \<open>EncodeName\<close>: \<open>None\<close> when it returns 0. An empty label ends the name.\<close>

function encode_labels :: "nat \<Rightarrow> u8 list \<Rightarrow> cstring \<Rightarrow> u8 list option" where
  "encode_labels out_size out seg =
     (let (lab, rest) = (case strchr CHR ''.'' seg of Some (a, b) \<Rightarrow> (a, Some b) | None \<Rightarrow> (seg, None))
      in if length lab = 0 then Some out
         else if length lab > 63 \<or> length out + length lab + 1 \<ge> out_size then None
         else let out' = out @ of_nat (length lab) # map char_byte lab
              in case rest of None \<Rightarrow> Some out' | Some r \<Rightarrow> encode_labels out_size out' r)"
  by pat_completeness auto
termination
  by (relation "measure (\<lambda>(out_size, out, seg). length seg)")
    (auto simp: strchr_Some split: option.splits)

declare encode_labels.simps [simp del]

definition EncodeName :: "cstring \<Rightarrow> nat \<Rightarrow> u8 list" where
  "EncodeName name out_size =
     (case encode_labels out_size [] name of
        None \<Rightarrow> []
      | Some out \<Rightarrow> if length out + 1 \<ge> out_size then [] else out @ [0])"

definition txt_query :: "cstring \<Rightarrow> u8 list option" where
  "txt_query qname =
     (let qn = EncodeName qname (512 - 12)
      in if qn = [] then None
         else if 12 + length qn + 4 > 512 then None
         else Some ([0x12, 0x34, 0x01, 0, 0, 0x01, 0, 0, 0, 0, 0, 0] @ qn @ [0, 16, 0, 1]))"

section \<open>Answers\<close>

function SkipName :: "(nat \<Rightarrow> u8) \<Rightarrow> nat \<Rightarrow> nat \<Rightarrow> nat option" where
  "SkipName peek len off =
     (if off < len
      then let b = peek off
           in if b AND 0xC0 = 0xC0 then Some (off + 2)
              else if b = 0 then Some (off + 1)
              else SkipName peek len (off + unat b + 1)
      else None)"
  by pat_completeness auto
termination
  by (relation "measure (\<lambda>(peek, len, off). len - off)") auto

declare SkipName.simps [simp del]

fun skip_questions :: "(nat \<Rightarrow> u8) \<Rightarrow> nat \<Rightarrow> nat \<Rightarrow> nat \<Rightarrow> nat option" where
  "skip_questions peek n 0 off = Some off"
| "skip_questions peek n (Suc k) off =
     (case SkipName peek n off of None \<Rightarrow> None | Some off' \<Rightarrow> skip_questions peek n k (off' + 4))"

text \<open>The string at \<open>off\<close> as it is copied to the caller: \<open>memcpy\<close> of at most \<open>out_size - 1\<close> bytes and
  a NUL behind them.\<close>

definition copy_txt :: "(nat \<Rightarrow> u8) \<Rightarrow> nat \<Rightarrow> nat \<Rightarrow> cstring" where
  "copy_txt peek off out_size =
     (let slen = unat (peek off); copy = (if slen < out_size - 1 then slen else out_size - 1)
      in cstr (map (\<lambda>i. byte_char (peek (off + 1 + i))) [0..<copy]))"

fun scan_answers :: "(nat \<Rightarrow> u8) \<Rightarrow> nat \<Rightarrow> nat \<Rightarrow> nat \<Rightarrow> nat \<Rightarrow> cstring option" where
  "scan_answers peek n out_size 0 off = None"
| "scan_answers peek n out_size (Suc k) off =
     (case SkipName peek n off of
        None \<Rightarrow> None
      | Some o1 \<Rightarrow>
          if o1 + 10 > n then None
          else let type = be16 (peek o1) (peek (o1 + 1));
                   rdlength = unat (be16 (peek (o1 + 8)) (peek (o1 + 9)));
                   o2 = o1 + 10
          in if o2 + rdlength > n then None
             else if type = 16 \<and> unat (peek o2) + 1 \<le> rdlength then Some (copy_txt peek o2 out_size)
             else scan_answers peek n out_size k (o2 + rdlength))"

definition parse_txt :: "(nat \<Rightarrow> u8) \<Rightarrow> nat \<Rightarrow> nat \<Rightarrow> cstring option" where
  "parse_txt peek n out_size =
     (if n < 12 then None
      else let qdcount = unat (be16 (peek 4) (peek 5)); ancount = unat (be16 (peek 6) (peek 7))
           in if ancount = 0 then None
              else case skip_questions peek n qdcount 12 of
                  None \<Rightarrow> None
                | Some off \<Rightarrow> scan_answers peek n out_size ancount off)"

text \<open>The receive buffer: the datagram, cut at 1024 bytes, over what the stack held.\<close>

definition rx_buffer :: "(nat \<Rightarrow> u8) \<Rightarrow> u8 list \<Rightarrow> nat \<Rightarrow> u8" where
  "rx_buffer junk data i = (if i < length data then data ! i else junk i)"

definition DnsTxtQuery ::
  "(u8 list \<Rightarrow> u8 list option) \<Rightarrow> (nat \<Rightarrow> u8) \<Rightarrow> cstring \<Rightarrow> nat \<Rightarrow> cstring option" where
  "DnsTxtQuery net junk qname out_size =
     (case txt_query qname of
        None \<Rightarrow> None
      | Some query \<Rightarrow>
          (case net query of
             None \<Rightarrow> None
           | Some datagram \<Rightarrow>
               (let data = take 1024 datagram in parse_txt (rx_buffer junk data) (length data) out_size)))"

section \<open>Records\<close>

fun cymru_scan :: "nat \<Rightarrow> nat \<Rightarrow> cstring \<Rightarrow> cstring \<Rightarrow> cstring option" where
  "cymru_scan cur idx field [] = (if cur = idx then Some field else None)"
| "cymru_scan cur idx field (c # p) =
     (if c = CHR ''|''
      then if cur = idx then Some field else cymru_scan (cur + 1) idx [] p
      else cymru_scan cur idx (field @ [c]) p)"

definition trim_spaces :: "cstring \<Rightarrow> cstring" where
  "trim_spaces f =
     rev (dropWhile (\<lambda>c. c = CHR '' '') (rev (dropWhile (\<lambda>c. c = CHR '' '') f)))"

definition CymruField :: "cstring \<Rightarrow> nat \<Rightarrow> nat \<Rightarrow> cstring" where
  "CymruField record_text idx out_size =
     (case cymru_scan 0 idx [] record_text of
        None \<Rightarrow> []
      | Some f \<Rightarrow> bounded_copy out_size (trim_spaces f))"

definition v4_byte :: "u32 \<Rightarrow> nat \<Rightarrow> u8" where
  "v4_byte h k = ucast (drop_bit (8 * (3 - k)) h)"

definition hex_digit :: "u8 \<Rightarrow> char" where
  "hex_digit x = ''0123456789abcdef'' ! unat (x AND 0xF)"

definition nibbles :: "128 word \<Rightarrow> cstring" where
  "nibbles a =
     concat (map (\<lambda>i. [hex_digit (v6_byte a i), CHR ''.'', hex_digit (drop_bit 4 (v6_byte a i)), CHR ''.''])
                 (rev [0..<16]))"

fun BuildOriginQuery :: "sockaddr \<Rightarrow> nat \<Rightarrow> cstring option" where
  "BuildOriginQuery (Inet h p) out_size =
     Some (bounded_copy out_size
       (joined CHR ''.'' (map (\<lambda>k. dec (unat (v4_byte h k))) [3, 2, 1, 0]) @ ''.origin.asn.cymru.com''))"
| "BuildOriginQuery (Inet6 a p) out_size =
     Some (bounded_copy out_size (nibbles a @ ''origin6.asn.cymru.com''))"
| "BuildOriginQuery (OtherFamily f) out_size = None"

text \<open>\<open>nameinfo\<close> is \<open>getnameinfo\<close>; \<open>txt\<close> is \<open>DnsTxtQuery\<close> with the resolver and the network.\<close>

definition Resolve_Annotate ::
  "(sockaddr \<Rightarrow> cstring option) \<Rightarrow> (cstring \<Rightarrow> nat \<Rightarrow> cstring option) \<Rightarrow> host_t \<Rightarrow> host_t" where
  "Resolve_Annotate nameinfo txt host =
     (if Addrs host = [] then host
      else let a = hd (Addrs host);
               h0 = host\<lparr>ReverseName := snd (ReverseResolve nameinfo a 256), Asn := [], AsnOrg := []\<rparr>
           in case BuildOriginQuery a 128 of
               None \<Rightarrow> h0
             | Some origin_q \<Rightarrow>
                 (case txt origin_q 256 of
                    None \<Rightarrow> h0
                  | Some rec \<Rightarrow>
                      (let asnum = CymruField rec 0 16
                       in if asnum = [] then h0
                          else let num = takeWhile (\<lambda>c. c \<noteq> CHR '' '') asnum;
                                   h1 = h0\<lparr>Asn := bounded_copy 24 (''AS'' @ num)\<rparr>
                               in case txt (bounded_copy 64 (''AS'' @ num @ ''.asn.cymru.com'')) 256 of
                                   None \<Rightarrow> h1
                                 | Some rec2 \<Rightarrow> h1\<lparr>AsnOrg := CymruField rec2 4 128\<rparr>)))"

section \<open>Names\<close>

definition label_ok :: "cstring \<Rightarrow> bool" where
  "label_ok l \<longleftrightarrow> l \<noteq> [] \<and> length l \<le> 63 \<and> CHR ''.'' \<notin> set l"

definition enc_label :: "cstring \<Rightarrow> u8 list" where
  "enc_label l = of_nat (length l) # map char_byte l"

lemma encode_labels_joined:
  "list_all label_ok ls \<Longrightarrow> ls \<noteq> [] \<Longrightarrow> length out + length (concat (map enc_label ls)) + 1 < out_size \<Longrightarrow>
     encode_labels out_size out (joined CHR ''.'' ls) = Some (out @ concat (map enc_label ls))"
proof (induction "CHR ''.''" ls arbitrary: out rule: joined.induct)
  case (2 x)
  then show ?case
    by (subst encode_labels.simps) (simp add: enc_label_def label_ok_def strchr_None [THEN iffD2])
next
  case (3 x y zs)
  then have "strchr CHR ''.'' (x @ CHR ''.'' # joined CHR ''.'' (y # zs)) = Some (x, joined CHR ''.'' (y # zs))"
    by (simp add: label_ok_def)
  then show ?case
    using 3 by (subst encode_labels.simps) (auto simp: enc_label_def label_ok_def)
qed simp

lemma length_byte_flags:
  assumes "n \<le> 63"
  shows "(of_nat n :: u8) AND 0xC0 = 0" and "unat (of_nat n :: u8) = n"
proof -
  have "(0xC0 :: u8) = NOT (mask 6)" by code_simp
  moreover have "take_bit 6 (of_nat n :: u8) = of_nat n"
    using assms by (simp add: take_bit_eq_mod word_unat_eq_iff unat_mod unat_of_nat)
  ultimately show "(of_nat n :: u8) AND 0xC0 = 0"
    by (metis take_bit_eq_mask bit.conj_cancel_right bit.conj_zero_right and.assoc)
  show "unat (of_nat n :: u8) = n" using assms by (simp add: unat_of_nat)
qed

text \<open>\<open>lies peek off bs\<close>: the bytes \<open>bs\<close> are in the buffer at \<open>off\<close>.\<close>

definition lies :: "(nat \<Rightarrow> u8) \<Rightarrow> nat \<Rightarrow> u8 list \<Rightarrow> bool" where
  "lies peek off bs \<longleftrightarrow> (\<forall>i < length bs. peek (off + i) = bs ! i)"

lemma lies_append: "lies peek off (xs @ ys) \<longleftrightarrow> lies peek off xs \<and> lies peek (off + length xs) ys"
proof -
  have "(\<forall>i < length xs + length ys. peek (off + i) = (xs @ ys) ! i) \<longleftrightarrow>
      (\<forall>i < length xs. peek (off + i) = xs ! i) \<and> (\<forall>i < length ys. peek (off + length xs + i) = ys ! i)"
    (is "?L \<longleftrightarrow> ?R")
  proof
    assume L: ?L
    have "peek (off + length xs + i) = ys ! i" if "i < length ys" for i
      using spec [OF L, of "length xs + i"] that by (simp add: add.assoc)
    moreover have "peek (off + i) = xs ! i" if "i < length xs" for i
      using spec [OF L, of i] that by (simp add: nth_append)
    ultimately show ?R by blast
  next
    assume R: ?R
    show ?L
    proof (intro allI impI)
      fix i assume "i < length xs + length ys"
      then show "peek (off + i) = (xs @ ys) ! i"
        using R by (cases "i < length xs") (auto simp: nth_append dest: spec [of _ "i - length xs"])
    qed
  qed
  then show ?thesis by (simp add: lies_def)
qed

lemma lies_Cons: "lies peek off (x # xs) \<longleftrightarrow> peek off = x \<and> lies peek (off + 1) xs"
  using lies_append [of peek off "[x]" xs] by (simp add: lies_def)

lemma lies_Nil [simp]: "lies peek off []"
  by (simp add: lies_def)

lemma lies_rx: "lies (rx_buffer junk data) 0 data"
  by (simp add: lies_def rx_buffer_def)

text \<open>\<open>SkipName\<close> passes exactly over what \<open>EncodeName\<close> wrote.\<close>

lemma SkipName_labels:
  "list_all label_ok ls \<Longrightarrow> lies peek off (concat (map enc_label ls) @ [0]) \<Longrightarrow>
     off + length (concat (map enc_label ls)) < len \<Longrightarrow>
     SkipName peek len off = Some (off + length (concat (map enc_label ls)) + 1)"
proof (induction ls arbitrary: off)
  case Nil
  then show ?case by (subst SkipName.simps) (simp add: lies_Cons)
next
  case (Cons l ls)
  have l: "l \<noteq> []" "length l \<le> 63" using Cons.prems(1) by (simp_all add: label_ok_def)
  have p: "peek off = of_nat (length l)" and r: "lies peek (off + length l + 1) (concat (map enc_label ls) @ [0])"
    using Cons.prems(2) by (simp_all add: enc_label_def [of l] lies_Cons lies_append add.commute add.left_commute)
  have nz: "(of_nat (length l) :: u8) \<noteq> 0"
    using l length_byte_flags(2) [OF l(2)] by (metis length_0_conv unat_0)
  have "off < len" using Cons.prems(3) by simp
  then have "SkipName peek len off = SkipName peek len (off + length l + 1)"
    using length_byte_flags [OF l(2)] nz by (subst SkipName.simps) (simp add: p)
  also have "\<dots> = Some (off + length l + 1 + length (concat (map enc_label ls)) + 1)"
    using Cons.IH [OF _ r] Cons.prems(1,3) by (simp add: enc_label_def [of l])
  finally show ?case by (simp add: enc_label_def [of l])
qed

lemma SkipName_pointer: "off < n \<Longrightarrow> peek off = 0xC0 \<Longrightarrow> SkipName peek n off = Some (off + 2)"
  by (subst SkipName.simps) simp

text \<open>names. A dotted name of legal labels that fits is encoded as its labels with their lengths and a
  root label, and the name skipper of the same file passes over exactly these bytes, wherever they
  stand in a message.\<close>

theorem EncodeName_skips:
  assumes "list_all label_ok ls" and "ls \<noteq> []" and "length (concat (map enc_label ls)) + 1 < out_size"
    and "lies peek off (EncodeName (joined CHR ''.'' ls) out_size)"
    and "off + length (EncodeName (joined CHR ''.'' ls) out_size) \<le> len"
  shows "EncodeName (joined CHR ''.'' ls) out_size = concat (map enc_label ls) @ [0] \<and>
    SkipName peek len off = Some (off + length (EncodeName (joined CHR ''.'' ls) out_size))"
proof -
  have e: "EncodeName (joined CHR ''.'' ls) out_size = concat (map enc_label ls) @ [0]"
    using encode_labels_joined [OF assms(1,2), of "[]" out_size] assms(3) by (simp add: EncodeName_def)
  with SkipName_labels [OF assms(1), of peek off len] assms(4,5) show ?thesis by simp
qed

theorem EncodeName_skips_witness:
  "EncodeName (joined CHR ''.'' [''a'', ''org'']) 500 = [1, 97, 3, 111, 114, 103, 0] \<and>
   SkipName (\<lambda>i. [1, 97, 3, 111, 114, 103, 0] ! (i - 12)) 30 12 = Some 19"
proof -
  have l: "list_all label_ok [''a'', ''org'']" by (simp add: label_ok_def)
  have c: "concat (map enc_label [''a'', ''org'']) = [1, 97, 3, 111, 114, 103]"
    by (simp add: enc_label_def char_byte_def code_def)
  have n: "length (concat (map enc_label [''a'', ''org''])) + 1 < 500" unfolding c by simp
  have e: "EncodeName (joined CHR ''.'' [''a'', ''org'']) 500 = [1, 97, 3, 111, 114, 103, 0]"
    using encode_labels_joined [OF l, of "[]" 500] n unfolding c by (simp add: EncodeName_def)
  show ?thesis
    using EncodeName_skips [OF l, of 500 "\<lambda>i. [1, 97, 3, 111, 114, 103, 0] ! (i - 12)" 12 30] n e
    by (simp add: lies_Cons)
qed

section \<open>The answer\<close>

text \<open>The parser reads only what was received.\<close>

lemma SkipName_cong:
  "(\<And>i. i < len \<Longrightarrow> peek i = peek' i) \<Longrightarrow> SkipName peek len off = SkipName peek' len off"
proof (induction peek len off rule: SkipName.induct)
  case (1 peek len off)
  show ?case
  proof (cases "off < len")
    case True
    with 1 show ?thesis
      by (subst SkipName.simps, subst (2) SkipName.simps) (simp add: Let_def)
  next
    case False
    then show ?thesis by (subst SkipName.simps, subst (2) SkipName.simps) simp
  qed
qed

lemma skip_questions_cong:
  assumes "\<And>i. i < n \<Longrightarrow> peek i = peek' i"
  shows "skip_questions peek n k off = skip_questions peek' n k off"
  using SkipName_cong [of n peek peek', OF assms]
  by (induction k arbitrary: off) (auto split: option.split)

lemma scan_answers_cong:
  assumes "\<And>i. i < n \<Longrightarrow> peek i = peek' i"
  shows "scan_answers peek n out_size k off = scan_answers peek' n out_size k off"
proof (induction k arbitrary: off)
  case (Suc k)
  have s: "SkipName peek n off = SkipName peek' n off" using SkipName_cong [OF assms] .
  show ?case
  proof (cases "SkipName peek' n off")
    case (Some o1)
    show ?thesis
    proof (cases "o1 + 10 \<le> n")
      case True
      then have h: "peek o1 = peek' o1" "peek (o1 + 1) = peek' (o1 + 1)" "peek (o1 + 8) = peek' (o1 + 8)"
        "peek (o1 + 9) = peek' (o1 + 9)" by (simp_all add: assms)
      let ?r = "unat (be16 (peek' (o1 + 8)) (peek' (o1 + 9)))"
      have c: "peek (o1 + 10) = peek' (o1 + 10)" if "?r \<noteq> 0" "o1 + 10 + ?r \<le> n"
        using that by (intro assms) simp
      have "copy_txt peek (o1 + 10) out_size = copy_txt peek' (o1 + 10) out_size"
        if "unat (peek' (o1 + 10)) + 1 \<le> ?r" "o1 + 10 + ?r \<le> n"
        using that c assms by (auto simp: copy_txt_def Let_def intro!: arg_cong [where f = cstr])
      then show ?thesis
        using Some c Suc.IH by (auto simp: s h Let_def simp del: One_nat_def)
    qed (simp add: s Some)
  qed (simp add: s)
qed simp

lemma length_cstr_le: "length (cstr xs) \<le> length xs"
  by (simp add: cstr_def length_takeWhile_le)

lemma scan_answers_fits: "scan_answers peek n out_size k off = Some txt \<Longrightarrow> length txt \<le> out_size - 1"
proof (induction k arbitrary: off)
  case (Suc k)
  have "length (copy_txt peek off' out_size) \<le> out_size - 1" for off'
    unfolding copy_txt_def Let_def by (rule order_trans [OF length_cstr_le]) simp
  with Suc show ?case by (auto simp: Let_def split: option.splits if_splits)
qed simp

text \<open>C20: safety of the parser. Whatever datagram arrives, the result depends on the received bytes alone
  (not on the rest of the stack buffer, although one byte behind an empty record is read), and the
  text returned fits the caller's buffer with its NUL.\<close>

theorem DnsTxtQuery_safe:
  "DnsTxtQuery net junk qname out_size = DnsTxtQuery net junk' qname out_size \<and>
   (\<forall>txt. DnsTxtQuery net junk qname out_size = Some txt \<longrightarrow> length txt \<le> out_size - 1 \<and> CHR 0x00 \<notin> set txt)"
proof -
  have j: "parse_txt (rx_buffer junk d) (length d) out_size = parse_txt (rx_buffer junk' d) (length d) out_size" for d
  proof -
    have e: "rx_buffer junk d i = rx_buffer junk' d i" if "i < length d" for i
      using that by (simp add: rx_buffer_def)
    show ?thesis
      using skip_questions_cong [of "length d" "rx_buffer junk d" "rx_buffer junk' d", OF e]
        scan_answers_cong [of "length d" "rx_buffer junk d" "rx_buffer junk' d", OF e]
      by (auto simp: parse_txt_def Let_def rx_buffer_def split: option.split)
  qed
  have nul: "scan_answers peek n out_size k off = Some t \<Longrightarrow> CHR 0x00 \<notin> set t" for peek n k off t
    by (induction k arbitrary: off) (auto simp: Let_def copy_txt_def split: option.splits if_splits)
  show ?thesis
    using j nul scan_answers_fits
    by (fastforce simp: DnsTxtQuery_def parse_txt_def Let_def split: option.splits if_splits)
qed

section \<open>A query and its answer\<close>

text \<open>What a name server sends back to a TXT query: its header and question, and one TXT record with
  one string, whose name points at the question.\<close>

definition txt_reply :: "u8 list \<Rightarrow> u8 list \<Rightarrow> cstring \<Rightarrow> u8 list \<Rightarrow> u8 list" where
  "txt_reply authority ttl t query =
     take 4 query @ [0, 1, 0, 1] @ authority @ drop 12 query @ [0xC0, 0x0C, 0, 16, 0, 1] @ ttl @
     [hi_byte (of_nat (length t + 1)), lo_byte (of_nat (length t + 1))] @ of_nat (length t) # map char_byte t"

lemma byte_char_byte [simp]: "byte_char (char_byte c) = c"
  using code_less [of c] by (simp add: byte_char_def char_byte_def unat_of_nat)

lemma copy_txt_lies:
  assumes "lies peek off (of_nat (length t) # map char_byte t)" and "length t \<le> 255" and "CHR 0x00 \<notin> set t"
  shows "copy_txt peek off out_size = take (out_size - 1) t"
proof -
  have l: "unat (peek off) = length t" using assms(1,2) by (simp add: lies_Cons unat_of_nat)
  have c: "byte_char (peek (off + 1 + i)) = t ! i" if "i < length t" for i
    using assms(1) that by (simp add: lies_Cons) (simp add: lies_def)
  let ?k = "if length t < out_size - 1 then length t else out_size - 1"
  have "map (\<lambda>i. byte_char (peek (off + 1 + i))) [0..<?k] = take (out_size - 1) t"
    by (rule nth_equalityI) (auto simp: c [simplified] split: if_splits)
  moreover have "CHR 0x00 \<notin> set (take (out_size - 1) t)" using assms(3) by (auto dest: in_set_takeD)
  ultimately show ?thesis by (simp add: copy_txt_def Let_def l)
qed

lemma parse_txt_reply:
  assumes "list_all label_ok ls" and "length q = 12" and "length authority = 4" and "length ttl = 4"
    and "length t \<le> 255" and "CHR 0x00 \<notin> set t"
    and d: "data = txt_reply authority ttl t (q @ (concat (map enc_label ls) @ [0]) @ [0, 16, 0, 1])"
  shows "parse_txt (rx_buffer junk data) (length data) out_size = Some (take (out_size - 1) t)"
proof -
  let ?E = "concat (map enc_label ls) @ [0]"
  let ?p = "rx_buffer junk data"
  let ?m = "12 + length ?E + 4"
  have t4: "length (take 4 q) = 4" using assms(2) by simp
  have dat: "data = take 4 q @ [0, 1, 0, 1] @ authority @ ?E @ [0, 16, 0, 1] @ [0xC0, 0x0C, 0, 16, 0, 1] @ ttl @
      [hi_byte (of_nat (length t + 1)), lo_byte (of_nat (length t + 1))] @ of_nat (length t) # map char_byte t"
    unfolding d txt_reply_def using assms(2) by simp
  have n: "length data = ?m + 13 + length t" unfolding dat using assms(2-4) by simp
  note l = lies_rx [of junk data, unfolded dat]
  have l4: "lies ?p 4 [0, 1, 0, 1]" and lE: "lies ?p 12 ?E"
    and lA: "lies ?p ?m [0xC0, 0x0C, 0, 16, 0, 1]"
    and lR: "lies ?p (?m + 10) [hi_byte (of_nat (length t + 1)), lo_byte (of_nat (length t + 1))]"
    and lT: "lies ?p (?m + 12) (of_nat (length t) # map char_byte t)"
    using l t4 assms(3,4) unfolding dat lies_append by (simp_all add: add.assoc add.commute add.left_commute numeral_eq_Suc)
  have b: "be16 0 1 = 1" "be16 0 16 = 16" by code_simp+
  have p4: "?p 4 = 0" "?p 5 = 1" "?p 6 = 0" "?p 7 = 1" using l4 by (simp_all add: lies_Cons)
  have pA: "?p ?m = 0xC0" "?p (?m + 2) = 0" "?p (?m + 3) = 16"
    using lA by (simp_all add: lies_Cons numeral_eq_Suc)
  have pR: "be16 (?p (?m + 10)) (?p (?m + 11)) = of_nat (length t + 1)"
    using lR by (simp add: lies_Cons numeral_eq_Suc)
  have pT: "unat (?p (?m + 12)) = length t" using lT assms(5) by (simp add: lies_Cons unat_of_nat)
  have "skip_questions ?p (length data) 1 12 = Some ?m"
    using SkipName_labels [OF assms(1) lE, of "length data"] n by simp
  moreover have "SkipName ?p (length data) ?m = Some (?m + 2)"
    using pA(1) n by (intro SkipName_pointer) simp_all
  moreover have "unat (of_nat (length t + 1) :: u16) = length t + 1"
    using assms(5) unfolding unat_of_nat by simp
  ultimately show ?thesis
    using n p4 pA pR pT copy_txt_lies [OF lT assms(5,6)]
    by (simp add: parse_txt_def Let_def b numeral_eq_Suc)
qed

text \<open>C21: a TXT lookup. For every legal name the query is sent, and when the server answers with one TXT
  record under that question, the caller gets its string, cut to its buffer.\<close>

theorem DnsTxtQuery_answer:
  assumes "list_all label_ok ls" and "ls \<noteq> []" and "length (concat (map enc_label ls)) + 1 \<le> 496"
    and "length authority = 4" and "length ttl = 4" and "length t \<le> 255" and "CHR 0x00 \<notin> set t"
  shows "DnsTxtQuery (\<lambda>query. Some (txt_reply authority ttl t query)) junk (joined CHR ''.'' ls) out_size =
    Some (take (out_size - 1) t)"
proof -
  let ?q = "[0x12, 0x34, 0x01, 0, 0, 0x01, 0, 0, 0, 0, 0, 0] :: u8 list"
  let ?E = "concat (map enc_label ls) @ [0]"
  have e: "EncodeName (joined CHR ''.'' ls) 500 = ?E"
    using encode_labels_joined [OF assms(1,2), of "[]" 500] assms(3) by (simp add: EncodeName_def)
  have q: "txt_query (joined CHR ''.'' ls) = Some (?q @ ?E @ [0, 16, 0, 1])"
    using assms(3) unfolding txt_query_def by (simp add: e [simplified] del: length_concat)
  let ?d = "txt_reply authority ttl t (?q @ ?E @ [0, 16, 0, 1])"
  have "length ?d \<le> 1024" using assms(3-6) by (simp add: txt_reply_def)
  then have "take 1024 ?d = ?d" by simp
  then show ?thesis
    using parse_txt_reply [OF assms(1) _ assms(4-7) refl, of ?q junk out_size]
    by (simp add: DnsTxtQuery_def q Let_def)
qed

theorem DnsTxtQuery_answer_witness:
  "DnsTxtQuery (\<lambda>query. Some (txt_reply [0, 0, 0, 0] [0, 0, 0, 60] ''13335 | US'' query)) (\<lambda>i. 255)
     (joined CHR ''.'' [''1'', ''origin'', ''asn'', ''cymru'', ''com'']) 6 = Some ''13335''"
  using DnsTxtQuery_answer [of "[''1'', ''origin'', ''asn'', ''cymru'', ''com'']" "[0, 0, 0, 0]" "[0, 0, 0, 60]"
      "''13335 | US''" "\<lambda>i. 255" 6]
  by (simp add: label_ok_def enc_label_def)

theorem DnsTxtQuery_safe_witness:
  "DnsTxtQuery (\<lambda>query. Some (replicate 1024 255)) (\<lambda>i. 0) ''a'' 16 = DnsTxtQuery (\<lambda>query. Some (replicate 1024 255)) (\<lambda>i. 7) ''a'' 16"
  using DnsTxtQuery_safe [of "\<lambda>query. Some (replicate 1024 255)" "\<lambda>i. 0" "''a''" 16 "\<lambda>i. 7"] by blast

section \<open>The annotation\<close>

lemma cymru_scan_fields:
  "cymru_scan cur idx f p =
     (if cur \<le> idx \<and> idx - cur < length (fields (\<lambda>c. c = CHR ''|'') p)
      then Some (if cur = idx then f @ fields (\<lambda>c. c = CHR ''|'') p ! 0 else fields (\<lambda>c. c = CHR ''|'') p ! (idx - cur))
      else None)"
proof (induction cur idx f p rule: cymru_scan.induct)
  case (2 cur idx field c p)
  let ?F = "fields (\<lambda>c. c = CHR ''|'') p"
  show ?case
  proof (cases "c = CHR ''|''")
    case True
    then show ?thesis using 2(1) by (cases "cur = idx") (auto simp: nth_Cons' Suc_le_eq)
  next
    case False
    have F: "?F = hd ?F # tl ?F" by simp
    then show ?thesis using 2(2) [OF False] False
      by (cases "cur = idx") (auto simp: nth_Cons' hd_conv_nth nth_tl Suc_diff_Suc le_neq_implies_less)
  qed
qed auto

lemma CymruField_fields:
  "CymruField r idx n =
     (let fs = fields (\<lambda>c. c = CHR ''|'') r
      in if idx < length fs then bounded_copy n (trim_spaces (fs ! idx)) else [])"
  by (auto simp: CymruField_def cymru_scan_fields Let_def)

lemma CymruField_length: "length (CymruField r idx n) \<le> n - 1"
  by (auto simp: CymruField_fields Let_def simp del: One_nat_def)



end

