(* ===== verification/Cpool.thy ===== *)
theory Cpool
  imports Targets "HOL-Library.Multiset"
begin

text \<open>
  \<open>cpool.c\<close>: the worker pool of the concurrent scheduler. Every thread is at a program counter
  between two points where it takes or gives up the mutex, and one step is the code of one thread
  between two such points, so the steps of a run are an interleaving of the threads. \<open>pthread_cond_wait\<close>
  gives up the mutex and sleeps until it is woken (or wakes by itself), then takes the mutex again.
  \<open>Log\<close> and \<open>Started\<close> record the probes made since the last cycle began; the code does not read them.
\<close>

section \<open>One probe\<close>

text \<open>\<open>connect\<close> is \<open>Connect\<close>: result, time, address text (\<open>None\<close> when it is not written) and TTL.\<close>

definition Probe_One ::
  "(host_t \<Rightarrow> u32 \<Rightarrow> int \<times> f64 \<times> cstring option \<times> int) \<Rightarrow> u32 \<Rightarrow> probe_target_t \<Rightarrow> probe_target_t" where
  "Probe_One connect timeout t =
     (let (r, rtt, ip, ttl) = connect (Resolved t) timeout
      in t\<lparr>LastResult := r, LastRtt := rtt, LastTtl := ttl,
           LastIp := bounded_copy 64 (case ip of None \<Rightarrow> [] | Some s \<Rightarrow> s)\<rparr>)"

section \<open>The pool\<close>

text \<open>Where a worker is: before its first lock, at the test of its outer loop, asleep in \<open>StartCv\<close>,
  woken, at the test of the inner loop, probing, back from a probe, or ended; and the main thread:
  outside, at the test of \<open>Cpool_RunCycle\<close>, asleep in \<open>DoneCv\<close>, woken, joining the workers, done.\<close>

datatype wpc = W_start | W_check | W_wait | W_wake | W_claim | W_probe nat | W_lock | W_exit
datatype mpc = M_idle | M_check | M_wait | M_wake | M_join | M_gone
datatype thread = Main | Worker nat

record cpool =
  NThreads :: nat
  Rc :: nat
  WorkIndex :: nat
  Remaining :: ulong
  Gen :: ulong
  Shutdown :: bool
  Owner :: "thread option"
  Pc :: "nat \<Rightarrow> wpc"
  Seen :: "nat \<Rightarrow> ulong"
  MainPc :: mpc
  Log :: "nat list"
  Started :: bool

abbreviation CPOOL_MAX_THREADS :: nat where "CPOOL_MAX_THREADS \<equiv> 64"

text \<open>\<open>created i\<close> tells whether \<open>pthread_create\<close> succeeds for thread \<open>i\<close>; \<open>alloc\<close> whether both calls of
  \<open>calloc\<close> do.\<close>

definition Cpool_Create :: "bool \<Rightarrow> (nat \<Rightarrow> bool) \<Rightarrow> nat \<Rightarrow> cpool option" where
  "Cpool_Create alloc created rc =
     (if rc = 0 \<or> \<not> alloc then None
      else let nthreads = (if rc > CPOOL_MAX_THREADS then CPOOL_MAX_THREADS else rc);
               n = length (takeWhile created [0..<nthreads])
           in if n = 0 then None
              else Some \<lparr>NThreads = n, Rc = rc, WorkIndex = rc, Remaining = 0, Gen = 0, Shutdown = False,
                         Owner = None, Pc = (\<lambda>i. W_start), Seen = (\<lambda>i. 0), MainPc = M_idle, Log = [],
                         Started = False\<rparr>)"

abbreviation goto :: "nat \<Rightarrow> wpc \<Rightarrow> cpool \<Rightarrow> cpool" where
  "goto i pc p \<equiv> p\<lparr>Pc := (Pc p)(i := pc)\<rparr>"

definition broadcast_start :: "cpool \<Rightarrow> cpool" where
  "broadcast_start p = p\<lparr>Pc := (\<lambda>i. if Pc p i = W_wait then W_wake else Pc p i)\<rparr>"

definition signal_done :: "cpool \<Rightarrow> cpool" where
  "signal_done p = (if MainPc p = M_wait then p\<lparr>MainPc := M_wake\<rparr> else p)"

text \<open>The outer loop of \<open>WorkerMain\<close> with the mutex held, up to the wait, the exit or the inner loop.\<close>

definition worker_check :: "nat \<Rightarrow> cpool \<Rightarrow> cpool" where
  "worker_check i p =
     (if \<not> Shutdown p \<and> Gen p = Seen p i then goto i W_wait (p\<lparr>Owner := None\<rparr>)
      else if Shutdown p then goto i W_exit (p\<lparr>Owner := None\<rparr>)
      else goto i W_claim (p\<lparr>Seen := (Seen p)(i := Gen p)\<rparr>))"

text \<open>The inner loop with the mutex held: claim a target and give up the mutex, or leave the cycle.\<close>

definition worker_claim :: "nat \<Rightarrow> cpool \<Rightarrow> cpool" where
  "worker_claim i p =
     (if WorkIndex p \<ge> Rc p
      then let p1 = goto i W_check (p\<lparr>Remaining := Remaining p - 1\<rparr>)
           in if Remaining p1 = 0 then signal_done p1 else p1
      else goto i (W_probe (WorkIndex p)) (p\<lparr>WorkIndex := WorkIndex p + 1, Owner := None\<rparr>))"

definition worker_probe :: "nat \<Rightarrow> nat \<Rightarrow> cpool \<Rightarrow> cpool" where
  "worker_probe i idx p = goto i W_lock (p\<lparr>Log := Log p @ [idx]\<rparr>)"

text \<open>\<open>Cpool_RunCycle\<close> from its lock to the test of its loop, and the test.\<close>

definition cycle_begin :: "cpool \<Rightarrow> cpool" where
  "cycle_begin p =
     broadcast_start (p\<lparr>WorkIndex := 0, Remaining := of_nat (NThreads p), Gen := Gen p + 1, Owner := Some Main,
                        MainPc := M_check, Log := [], Started := True\<rparr>)"

definition cycle_check :: "cpool \<Rightarrow> cpool" where
  "cycle_check p =
     (if Remaining p > 0 then p\<lparr>Owner := None, MainPc := M_wait\<rparr> else p\<lparr>Owner := None, MainPc := M_idle\<rparr>)"

text \<open>\<open>Cpool_Destroy\<close> up to the joins.\<close>

definition destroy_begin :: "cpool \<Rightarrow> cpool" where
  "destroy_begin p = broadcast_start (p\<lparr>Shutdown := True, MainPc := M_join\<rparr>)"

section \<open>Steps\<close>

text \<open>The steps the pool makes by itself.\<close>

inductive pool_step :: "cpool \<Rightarrow> cpool \<Rightarrow> bool" where
  w_enter: "i < NThreads p \<Longrightarrow> Pc p i = W_start \<or> Pc p i = W_wake \<Longrightarrow> Owner p = None \<Longrightarrow>
     pool_step p (goto i W_check (p\<lparr>Owner := Some (Worker i)\<rparr>))"
| w_check: "i < NThreads p \<Longrightarrow> Pc p i = W_check \<Longrightarrow> pool_step p (worker_check i p)"
| w_claim: "i < NThreads p \<Longrightarrow> Pc p i = W_claim \<Longrightarrow> pool_step p (worker_claim i p)"
| w_probe: "i < NThreads p \<Longrightarrow> Pc p i = W_probe idx \<Longrightarrow> pool_step p (worker_probe i idx p)"
| w_relock: "i < NThreads p \<Longrightarrow> Pc p i = W_lock \<Longrightarrow> Owner p = None \<Longrightarrow>
     pool_step p (goto i W_claim (p\<lparr>Owner := Some (Worker i)\<rparr>))"
| m_check: "MainPc p = M_check \<Longrightarrow> pool_step p (cycle_check p)"
| m_wake: "MainPc p = M_wake \<Longrightarrow> Owner p = None \<Longrightarrow> pool_step p (p\<lparr>MainPc := M_check, Owner := Some Main\<rparr>)"
| m_joined: "MainPc p = M_join \<Longrightarrow> \<forall>i < NThreads p. Pc p i = W_exit \<Longrightarrow> pool_step p (p\<lparr>MainPc := M_gone\<rparr>)"

text \<open>Wake-ups without a signal, which \<open>pthread_cond_wait\<close> may make.\<close>

inductive spurious_step :: "cpool \<Rightarrow> cpool \<Rightarrow> bool" where
  w_spurious: "i < NThreads p \<Longrightarrow> Pc p i = W_wait \<Longrightarrow> spurious_step p (goto i W_wake p)"
| m_spurious: "MainPc p = M_wait \<Longrightarrow> spurious_step p (p\<lparr>MainPc := M_wake\<rparr>)"

text \<open>The calls of the main thread.\<close>

inductive call_step :: "cpool \<Rightarrow> cpool \<Rightarrow> bool" where
  run_cycle: "MainPc p = M_idle \<Longrightarrow> Owner p = None \<Longrightarrow> call_step p (cycle_begin p)"
| destroy: "MainPc p = M_idle \<Longrightarrow> Owner p = None \<Longrightarrow> call_step p (destroy_begin p)"

inductive reachable :: "cpool \<Rightarrow> bool" where
  created: "Cpool_Create alloc cr rc = Some p \<Longrightarrow> reachable p"
| internal: "reachable p \<Longrightarrow> pool_step p q \<Longrightarrow> reachable q"
| spurious: "reachable p \<Longrightarrow> spurious_step p q \<Longrightarrow> reachable q"
| called: "reachable p \<Longrightarrow> call_step p q \<Longrightarrow> reachable q"

inductive_cases pool_stepE: "pool_step p q"
inductive_cases spurious_stepE: "spurious_step p q"
inductive_cases call_stepE: "call_step p q"
inductive_simps call_step_iff: "call_step p q"

section \<open>The invariant\<close>

text \<open>A worker takes part in the current cycle until it has left its inner loop.\<close>

fun at_work :: "wpc \<Rightarrow> bool" where
  "at_work W_claim = True"
| "at_work W_lock = True"
| "at_work (W_probe x) = True"
| "at_work _ = False"

definition pending :: "cpool \<Rightarrow> nat \<Rightarrow> bool" where
  "pending p i \<longleftrightarrow> Seen p i \<noteq> Gen p \<or> at_work (Pc p i)"

definition busy :: "cpool \<Rightarrow> nat set" where
  "busy p = {i. i < NThreads p \<and> pending p i}"

fun flight :: "wpc \<Rightarrow> nat multiset" where
  "flight (W_probe x) = {#x#}"
| "flight _ = {#}"

definition in_flight :: "cpool \<Rightarrow> nat multiset" where
  "in_flight p = (\<Sum>i < NThreads p. flight (Pc p i))"

definition holds_lock :: "wpc \<Rightarrow> bool" where
  "holds_lock pc \<longleftrightarrow> pc = W_check \<or> pc = W_claim"

definition mutex_inv :: "cpool \<Rightarrow> bool" where
  "mutex_inv p \<longleftrightarrow> (\<forall>i < NThreads p. holds_lock (Pc p i) \<longleftrightarrow> Owner p = Some (Worker i)) \<and>
     (MainPc p = M_check \<longleftrightarrow> Owner p = Some Main) \<and> (\<forall>i. Owner p = Some (Worker i) \<longrightarrow> i < NThreads p)"

definition worker_ok :: "cpool \<Rightarrow> nat \<Rightarrow> bool" where
  "worker_ok p i \<longleftrightarrow> (Pc p i = W_wait \<or> at_work (Pc p i) \<longrightarrow> Seen p i = Gen p) \<and>
     (Pc p i = W_wait \<longrightarrow> \<not> Shutdown p) \<and> (Pc p i = W_exit \<longrightarrow> Shutdown p)"

definition main_ok :: "cpool \<Rightarrow> bool" where
  "main_ok p \<longleftrightarrow> (MainPc p = M_wait \<longrightarrow> busy p \<noteq> {}) \<and>
     (MainPc p \<in> {M_idle, M_join, M_gone} \<longrightarrow> busy p = {}) \<and>
     (Shutdown p \<longleftrightarrow> MainPc p \<in> {M_join, M_gone})"

definition wake_inv :: "cpool \<Rightarrow> bool" where
  "wake_inv p \<longleftrightarrow> (\<forall>i < NThreads p. worker_ok p i) \<and> main_ok p"

definition count_inv :: "cpool \<Rightarrow> bool" where
  "count_inv p \<longleftrightarrow> 0 < NThreads p \<and> NThreads p \<le> CPOOL_MAX_THREADS \<and> Remaining p = of_nat (card (busy p))"

definition work_inv :: "cpool \<Rightarrow> bool" where
  "work_inv p \<longleftrightarrow> WorkIndex p \<le> Rc p \<and>
     (Started p \<longrightarrow> mset (Log p) + in_flight p = mset [0..<WorkIndex p]) \<and>
     (busy p \<noteq> {..<NThreads p} \<longrightarrow> WorkIndex p = Rc p)"

definition pool_inv :: "cpool \<Rightarrow> bool" where
  "pool_inv p \<longleftrightarrow> mutex_inv p \<and> wake_inv p \<and> count_inv p \<and> work_inv p"

subsection \<open>How the sets change\<close>

lemma busy_cong:
  "NThreads q = NThreads p \<Longrightarrow> (\<And>j. j < NThreads p \<Longrightarrow> pending q j = pending p j) \<Longrightarrow> busy q = busy p"
  by (auto simp: busy_def)

lemma busy_drop:
  "NThreads q = NThreads p \<Longrightarrow> (\<And>j. j < NThreads p \<Longrightarrow> j \<noteq> i \<Longrightarrow> pending q j = pending p j) \<Longrightarrow>
   \<not> pending q i \<Longrightarrow> busy q = busy p - {i}"
  by (auto simp: busy_def)

lemma finite_busy[simp]: "finite (busy p)"
  by (simp add: busy_def)

lemma card_busy: "card (busy p) \<le> NThreads p"
  using card_mono[of "{..<NThreads p}" "busy p"] by (auto simp: busy_def)

lemma in_flight_goto:
  assumes "i < NThreads p" "NThreads q = NThreads p" "Pc q = (Pc p)(i := x)"
  shows "in_flight q + flight (Pc p i) = in_flight p + flight x"
proof -
  have "in_flight q = flight x + (\<Sum>j\<in>{..<NThreads p} - {i}. flight (Pc p j))"
    using assms by (simp add: in_flight_def sum.remove[of _ i])
  moreover have "in_flight p = flight (Pc p i) + (\<Sum>j\<in>{..<NThreads p} - {i}. flight (Pc p j))"
    using assms by (simp add: in_flight_def sum.remove[of _ i])
  ultimately show ?thesis by (simp add: ac_simps)
qed

lemma in_flight_cong:
  "NThreads q = NThreads p \<Longrightarrow> (\<And>j. j < NThreads p \<Longrightarrow> flight (Pc q j) = flight (Pc p j)) \<Longrightarrow>
   in_flight q = in_flight p"
  by (simp add: in_flight_def)

lemma in_flight_busy: "busy p = {} \<Longrightarrow> in_flight p = {#}"
proof -
  assume b: "busy p = {}"
  have "flight (Pc p j) = {#}" if "j < NThreads p" for j
    using b that by (cases "Pc p j") (auto simp: busy_def pending_def)
  then show ?thesis by (simp add: in_flight_def)
qed

lemma broadcast_start_sel[simp]:
  "NThreads (broadcast_start p) = NThreads p" "Rc (broadcast_start p) = Rc p"
  "WorkIndex (broadcast_start p) = WorkIndex p" "Remaining (broadcast_start p) = Remaining p"
  "Gen (broadcast_start p) = Gen p" "Shutdown (broadcast_start p) = Shutdown p"
  "Owner (broadcast_start p) = Owner p" "Seen (broadcast_start p) = Seen p"
  "MainPc (broadcast_start p) = MainPc p" "Log (broadcast_start p) = Log p"
  "Started (broadcast_start p) = Started p"
  "Pc (broadcast_start p) i = (if Pc p i = W_wait then W_wake else Pc p i)"
  by (simp_all add: broadcast_start_def)

lemma signal_done_sel[simp]:
  "NThreads (signal_done p) = NThreads p" "Rc (signal_done p) = Rc p"
  "WorkIndex (signal_done p) = WorkIndex p" "Remaining (signal_done p) = Remaining p"
  "Gen (signal_done p) = Gen p" "Shutdown (signal_done p) = Shutdown p"
  "Owner (signal_done p) = Owner p" "Seen (signal_done p) = Seen p" "Pc (signal_done p) = Pc p"
  "Log (signal_done p) = Log p" "Started (signal_done p) = Started p"
  "MainPc (signal_done p) = (if MainPc p = M_wait then M_wake else MainPc p)"
  by (simp_all add: signal_done_def)

lemma pending_simps:
  "pending (broadcast_start p) i = pending p i" "pending (signal_done p) i = pending p i"
  by (auto simp: pending_def)

lemma holds_lock_simps[simp]:
  "holds_lock W_check" "holds_lock W_claim" "\<not> holds_lock W_start" "\<not> holds_lock W_wait" "\<not> holds_lock W_wake"
  "\<not> holds_lock (W_probe x)" "\<not> holds_lock W_lock" "\<not> holds_lock W_exit"
  by (simp_all add: holds_lock_def)

lemma of_nat_small_0: "n < 2 ^ 64 \<Longrightarrow> (of_nat n :: ulong) = 0 \<longleftrightarrow> n = 0"
proof -
  assume n: "n < 2 ^ 64"
  have "(of_nat n :: ulong) = 0 \<longleftrightarrow> 2 ^ LENGTH(64) dvd n" by (rule word_of_nat_eq_0_iff)
  also have "\<dots> \<longleftrightarrow> n = 0" using n nat_dvd_not_less[of n "2 ^ 64"] by auto
  finally show ?thesis .
qed

lemma of_nat_card_0:
  "NThreads p \<le> 64 \<Longrightarrow> (of_nat (card (busy p)) :: ulong) = 0 \<longleftrightarrow> busy p = {}"
  using card_busy[of p] of_nat_small_0[of "card (busy p)"] by simp

subsection \<open>Every step keeps it\<close>

lemma mutex_inv_step: "pool_step p q \<Longrightarrow> mutex_inv p \<Longrightarrow> mutex_inv q"
  by (induction rule: pool_step.induct)
    (auto simp: mutex_inv_def worker_check_def worker_claim_def worker_probe_def cycle_check_def Let_def)

text \<open>A worker that leaves its inner loop leaves the busy ones; its count is what the code keeps.\<close>

lemma busy_claim:
  assumes "i < NThreads p" "Pc p i = W_claim" "Seen p i = Gen p"
  shows "busy (worker_claim i p) = (if WorkIndex p \<ge> Rc p then busy p - {i} else busy p)" "i \<in> busy p"
proof -
  show "i \<in> busy p" using assms by (simp add: busy_def pending_def)
  show "busy (worker_claim i p) = (if WorkIndex p \<ge> Rc p then busy p - {i} else busy p)"
  proof (cases "WorkIndex p \<ge> Rc p")
    case True
    then have "busy (worker_claim i p) = busy p - {i}"
      using assms by (intro busy_drop) (auto simp: pending_def worker_claim_def Let_def)
    then show ?thesis using True by simp
  next
    case False
    then have "busy (worker_claim i p) = busy p"
      using assms by (intro busy_cong) (auto simp: pending_def worker_claim_def)
    then show ?thesis using False by simp
  qed
qed

lemma busy_step:
  assumes "pool_step p q" "wake_inv p"
  shows "(busy q = busy p \<and> Remaining q = Remaining p \<and>
      (MainPc q = MainPc p \<or> MainPc p = M_check \<and> q = cycle_check p \<or> MainPc p = M_wake \<and> MainPc q = M_check \<or>
       MainPc p = M_join \<and> MainPc q = M_gone) \<and> Shutdown q = Shutdown p) \<or>
    (\<exists>i \<in> busy p. Pc p i = W_claim \<and> WorkIndex p \<ge> Rc p \<and> q = worker_claim i p \<and> busy q = busy p - {i})"
    (is "?A \<or> ?B")
  using assms(1)
proof (cases rule: pool_step.cases)
  case (w_enter i)
  then have "busy q = busy p" by (intro busy_cong) (auto simp: pending_def)
  then show ?thesis using w_enter by simp
next
  case (w_claim i)
  then have "Seen p i = Gen p" using assms(2) by (simp add: wake_inv_def worker_ok_def)
  note b = busy_claim[OF w_claim(2,3) this]
  show ?thesis
  proof (cases "WorkIndex p \<ge> Rc p")
    case True
    then show ?thesis using w_claim b by auto
  next
    case False
    then show ?thesis using w_claim b by (simp add: worker_claim_def)
  qed
next
  case (w_check i)
  then have "busy q = busy p"
    by (intro busy_cong) (auto simp: pending_def worker_check_def)
  then show ?thesis using w_check by (simp add: worker_check_def)
next
  case (w_probe i idx)
  then have "busy q = busy p" by (intro busy_cong) (auto simp: pending_def worker_probe_def)
  then show ?thesis using w_probe by (simp add: worker_probe_def)
next
  case (w_relock i)
  then have "busy q = busy p" by (intro busy_cong) (auto simp: pending_def)
  then show ?thesis using w_relock by simp
next
  case m_check
  then have "busy q = busy p" by (intro busy_cong) (auto simp: pending_def cycle_check_def)
  then show ?thesis using m_check by (simp add: cycle_check_def)
next
  case m_wake
  then have "busy q = busy p" by (intro busy_cong) (auto simp: pending_def)
  then show ?thesis using m_wake by simp
next
  case m_joined
  then have "busy q = busy p" by (intro busy_cong) (auto simp: pending_def)
  then show ?thesis using m_joined by simp
qed

lemma worker_claim_leaves:
  "WorkIndex p \<ge> Rc p \<Longrightarrow> Remaining (worker_claim i p) = Remaining p - 1"
  "WorkIndex p \<ge> Rc p \<Longrightarrow> MainPc (worker_claim i p) =
     (if Remaining p = 1 \<and> MainPc p = M_wait then M_wake else MainPc p)"
  "Shutdown (worker_claim i p) = Shutdown p"
  by (auto simp: worker_claim_def Let_def)

lemma worker_ok_step: "pool_step p q \<Longrightarrow> j < NThreads p \<Longrightarrow> worker_ok p j \<Longrightarrow> worker_ok q j"
  by (induction rule: pool_step.induct)
    (auto simp: worker_ok_def worker_check_def worker_claim_def worker_probe_def cycle_check_def Let_def
      split: if_splits)

lemma NThreads_step: "pool_step p q \<Longrightarrow> NThreads q = NThreads p \<and> Rc q = Rc p"
  by (induction rule: pool_step.induct)
    (auto simp: worker_check_def worker_claim_def worker_probe_def cycle_check_def Let_def)

lemma count_leaves:
  assumes "i \<in> busy p" "busy q = busy p - {i}"
  shows "(of_nat (card (busy p)) :: ulong) = 1 + of_nat (card (busy q))"
proof -
  have "card (busy p) = Suc (card (busy q))" using assms card_Suc_Diff1[of "busy p" i] by simp
  then show ?thesis by (simp only: of_nat_Suc)
qed

lemma count_inv_step:
  assumes "pool_step p q" "wake_inv p" "count_inv p"
  shows "count_inv q"
proof -
  have n: "0 < NThreads q" "NThreads q \<le> CPOOL_MAX_THREADS" and r: "Remaining p = of_nat (card (busy p))"
    using assms(3) NThreads_step[OF assms(1)] by (auto simp: count_inv_def)
  have "Remaining q = of_nat (card (busy q))"
    using busy_step[OF assms(1,2)]
  proof
    assume "\<exists>i \<in> busy p. Pc p i = W_claim \<and> WorkIndex p \<ge> Rc p \<and> q = worker_claim i p \<and> busy q = busy p - {i}"
    then obtain i where i: "i \<in> busy p" "WorkIndex p \<ge> Rc p" "q = worker_claim i p" "busy q = busy p - {i}"
      by blast
    have "Remaining q = Remaining p - 1" using i(2,3) by (simp add: worker_claim_leaves)
    also have "\<dots> = of_nat (card (busy q))"
      unfolding r count_leaves[OF i(1,4)] by (rule add_diff_cancel_left')
    finally show ?thesis .
  qed (auto simp: r)
  with n show ?thesis by (simp only: count_inv_def)
qed

lemma remaining_iff: "count_inv p \<Longrightarrow> Remaining p = 0 \<longleftrightarrow> busy p = {}"
  by (simp add: count_inv_def of_nat_card_0)

lemma cycle_check_MainPc:
  assumes "count_inv p"
  shows "MainPc (cycle_check p) = (if busy p = {} then M_idle else M_wait)"
  using remaining_iff[OF assms] word_gt_0[of "Remaining p"] by (auto simp: cycle_check_def)

lemma main_ok_step:
  assumes "pool_step p q" "wake_inv p" "count_inv p"
  shows "main_ok q"
proof -
  have m: "main_ok p" using assms by (simp add: wake_inv_def)
  show ?thesis using busy_step[OF assms(1,2)]
  proof (elim disjE bexE)
    fix i assume i: "i \<in> busy p"
      "Pc p i = W_claim \<and> Rc p \<le> WorkIndex p \<and> q = worker_claim i p \<and> busy q = busy p - {i}"
    have "Remaining q = 0 \<longleftrightarrow> busy q = {}" by (rule remaining_iff[OF count_inv_step[OF assms]])
    moreover have "Remaining q = Remaining p - 1" "Shutdown q = Shutdown p"
      "MainPc q = (if Remaining p = 1 \<and> MainPc p = M_wait then M_wake else MainPc p)"
      using i by (simp_all add: worker_claim_leaves)
    moreover have "busy p \<noteq> {}" using i by auto
    ultimately show ?thesis using m i by (auto simp: main_ok_def split: if_splits)
  next
    assume a: "busy q = busy p \<and> Remaining q = Remaining p \<and>
      (MainPc q = MainPc p \<or> MainPc p = M_check \<and> q = cycle_check p \<or> MainPc p = M_wake \<and> MainPc q = M_check \<or>
       MainPc p = M_join \<and> MainPc q = M_gone) \<and> Shutdown q = Shutdown p"
    then show ?thesis
      using m cycle_check_MainPc[OF assms(3)] by (auto simp: main_ok_def split: if_splits)
  qed
qed

lemma wake_inv_step: "pool_step p q \<Longrightarrow> wake_inv p \<Longrightarrow> count_inv p \<Longrightarrow> wake_inv q"
  using worker_ok_step main_ok_step NThreads_step by (fastforce simp: wake_inv_def)

lemma flight_not_probe: "\<not> at_work pc \<Longrightarrow> flight pc = {#}"
  by (cases pc) auto

lemma claim_accounts:
  assumes i: "i < NThreads p" "Pc p i = W_claim" and "WorkIndex p \<le> Rc p"
    and "Started p \<Longrightarrow> mset (Log p) + in_flight p = mset [0..<WorkIndex p]" and "Started (worker_claim i p)"
  shows "mset (Log (worker_claim i p)) + in_flight (worker_claim i p) = mset [0..<WorkIndex (worker_claim i p)]"
proof (cases "WorkIndex p \<ge> Rc p")
  case True
  then have "in_flight (worker_claim i p) = in_flight p"
    using in_flight_goto [of i p "worker_claim i p" W_check] i by (auto simp: worker_claim_def Let_def)
  then show ?thesis using assms(4,5) True by (auto simp: worker_claim_def Let_def split: if_splits)
next
  case False
  then have "in_flight (worker_claim i p) = in_flight p + {#WorkIndex p#}"
    using in_flight_goto [of i p "worker_claim i p" "W_probe (WorkIndex p)"] i by (simp add: worker_claim_def)
  then show ?thesis using assms(4,5) False by (simp add: worker_claim_def)
qed

lemma check_accounts:
  assumes i: "i < NThreads p" "Pc p i = W_check"
  shows "in_flight (worker_check i p) = in_flight p"
proof -
  define pc where "pc = (if \<not> Shutdown p \<and> Gen p = Seen p i then W_wait else if Shutdown p then W_exit else W_claim)"
  have "Pc (worker_check i p) = (Pc p)(i := pc)" "NThreads (worker_check i p) = NThreads p"
    by (simp_all add: worker_check_def pc_def)
  then show ?thesis
    using in_flight_goto [of i p "worker_check i p" pc] i by (auto simp: pc_def split: if_splits)
qed

lemma work_inv_step:
  assumes "pool_step p q" "wake_inv p" "work_inv p"
  shows "work_inv q"
proof -
  have n: "NThreads q = NThreads p" "Rc q = Rc p" using NThreads_step[OF assms(1)] by auto
  have w: "WorkIndex p \<le> Rc p" "Started p \<Longrightarrow> mset (Log p) + in_flight p = mset [0..<WorkIndex p]"
    "busy p \<noteq> {..<NThreads p} \<Longrightarrow> WorkIndex p = Rc p" using assms(3) by (auto simp: work_inv_def)
  have le: "WorkIndex q \<le> Rc p \<and> WorkIndex p \<le> WorkIndex q" using assms(1) w(1)
    by (cases rule: pool_step.cases)
      (auto simp: worker_check_def worker_claim_def worker_probe_def cycle_check_def Let_def)
  moreover have "busy q \<noteq> {..<NThreads q} \<Longrightarrow> WorkIndex q = Rc q"
    using busy_step[OF assms(1,2)] w(3) n le by fastforce
  moreover have "mset (Log q) + in_flight q = mset [0..<WorkIndex q]" if st: "Started q"
    using assms(1)
  proof (cases rule: pool_step.cases)
    case (w_enter i)
    then have "in_flight q = in_flight p" using in_flight_goto[of i p q W_check] by auto
    then show ?thesis using w_enter w st by simp
  next
    case (w_check i)
    then show ?thesis using check_accounts [of i p] w st by (simp add: worker_check_def split: if_splits)
  next
    case (w_claim i)
    then show ?thesis using claim_accounts [of i p] w st by simp
  next
    case (w_probe i idx)
    then have "in_flight q + {#idx#} = in_flight p" using in_flight_goto[of i p q W_lock] by (simp add: worker_probe_def)
    moreover have "mset (Log q) = mset (Log p) + {#idx#}" "Started p" "WorkIndex q = WorkIndex p"
      using w_probe st by (simp_all add: worker_probe_def)
    ultimately show ?thesis using w(2) by (metis union_commute union_assoc)
  next
    case (w_relock i)
    then have "in_flight q = in_flight p" using in_flight_goto[of i p q W_claim] by auto
    then show ?thesis using w_relock w st by simp
  next
    case m_check
    then have "in_flight q = in_flight p" by (simp add: in_flight_def cycle_check_def)
    moreover have "Log q = Log p" "WorkIndex q = WorkIndex p" "Started p"
      using m_check st by (simp_all add: cycle_check_def split: if_splits)
    ultimately show ?thesis using w(2) by simp
  qed (use w st in \<open>simp_all add: in_flight_def\<close>)
  ultimately show ?thesis using n by (simp add: work_inv_def)
qed

lemma pool_inv_step: "pool_step p q \<Longrightarrow> pool_inv p \<Longrightarrow> pool_inv q"
  using mutex_inv_step wake_inv_step count_inv_step work_inv_step by (simp add: pool_inv_def)

subsection \<open>Wake-ups, calls and the first state\<close>

text \<open>A state that differs from another only in places that are asleep or waking.\<close>

lemma pool_inv_wakes:
  assumes "pool_inv p" "\<And>i. Pc q i = Pc p i \<or> Pc p i = W_wait \<and> Pc q i = W_wake"
    "MainPc q = MainPc p \<or> MainPc p = M_wait \<and> MainPc q = M_wake"
    "NThreads q = NThreads p" "Rc q = Rc p" "WorkIndex q = WorkIndex p" "Remaining q = Remaining p" "Gen q = Gen p"
    "Shutdown q = Shutdown p" "Owner q = Owner p" "Seen q = Seen p" "Log q = Log p" "Started q = Started p"
  shows "pool_inv q"
proof -
  have pc: "holds_lock (Pc q i) = holds_lock (Pc p i)" "at_work (Pc q i) = at_work (Pc p i)"
    "flight (Pc q i) = flight (Pc p i)" "worker_ok p i \<Longrightarrow> worker_ok q i" for i
    using assms(2)[of i] assms(4-) by (auto simp: worker_ok_def)
  have b: "busy q = busy p" using pc assms by (intro busy_cong) (auto simp: pending_def)
  have f: "in_flight q = in_flight p" using pc assms by (intro in_flight_cong) auto
  have "mutex_inv q" using assms pc by (auto simp: pool_inv_def mutex_inv_def)
  moreover have "main_ok q" using assms b by (auto simp: pool_inv_def wake_inv_def main_ok_def)
  moreover have "count_inv q" "work_inv q" using assms b f by (auto simp: pool_inv_def count_inv_def work_inv_def)
  ultimately show ?thesis using assms(1,4) pc(4) by (auto simp: pool_inv_def wake_inv_def)
qed

lemma pool_inv_spurious: "spurious_step p q \<Longrightarrow> pool_inv p \<Longrightarrow> pool_inv q"
  by (erule spurious_stepE) (erule pool_inv_wakes; simp)+

text \<open>When the main thread is idle every worker is out of the cycle, so the next one finds them all.\<close>

lemma busy_cycle_begin:
  assumes "busy p = {}"
  shows "busy (cycle_begin p) = {..<NThreads p}"
  using assms by (auto simp: busy_def pending_def cycle_begin_def)

lemma pool_inv_cycle_begin:
  assumes "pool_inv p" "MainPc p = M_idle" "Owner p = None"
  shows "pool_inv (cycle_begin p)"
proof -
  have b: "busy p = {}" using assms by (simp add: pool_inv_def wake_inv_def main_ok_def)
  have nw: "\<not> at_work (Pc p i)" if "i < NThreads p" for i using b that by (auto simp: busy_def pending_def)
  have "mutex_inv (cycle_begin p)"
    using assms by (auto simp: pool_inv_def mutex_inv_def cycle_begin_def)
  moreover have "worker_ok (cycle_begin p) i" if "i < NThreads p" for i
    using assms(1) that nw[OF that] by (auto simp: pool_inv_def wake_inv_def worker_ok_def cycle_begin_def)
  moreover have "main_ok (cycle_begin p)"
    using assms by (auto simp: pool_inv_def wake_inv_def main_ok_def cycle_begin_def)
  moreover have "count_inv (cycle_begin p)"
    using assms busy_cycle_begin[OF b] by (simp add: pool_inv_def count_inv_def) (simp add: cycle_begin_def)
  moreover have "flight (Pc (cycle_begin p) i) = {#}" if "i < NThreads p" for i
    using flight_not_probe[OF nw[OF that]] by (auto simp: cycle_begin_def)
  then have "in_flight (cycle_begin p) = {#}" by (simp add: in_flight_def cycle_begin_def)
  then have "work_inv (cycle_begin p)"
    using busy_cycle_begin[OF b] by (simp add: work_inv_def) (simp add: cycle_begin_def)
  ultimately show ?thesis by (simp add: pool_inv_def wake_inv_def) (simp add: cycle_begin_def)
qed

lemma pool_inv_destroy_begin:
  assumes "pool_inv p" "MainPc p = M_idle" "Owner p = None"
  shows "pool_inv (destroy_begin p)"
proof -
  have b: "busy (destroy_begin p) = busy p" by (intro busy_cong) (auto simp: destroy_begin_def pending_def)
  have f: "in_flight (destroy_begin p) = in_flight p" by (intro in_flight_cong) (auto simp: destroy_begin_def)
  have "mutex_inv (destroy_begin p)" using assms by (auto simp: pool_inv_def mutex_inv_def destroy_begin_def)
  moreover have "worker_ok (destroy_begin p) i" if "i < NThreads p" for i
    using assms(1) that by (auto simp: pool_inv_def wake_inv_def worker_ok_def destroy_begin_def)
  moreover have "main_ok (destroy_begin p)"
    using assms b by (simp add: pool_inv_def wake_inv_def main_ok_def) (simp add: destroy_begin_def)
  moreover have "count_inv (destroy_begin p)" "work_inv (destroy_begin p)"
    using assms b f by (simp_all add: pool_inv_def count_inv_def work_inv_def) (simp_all add: destroy_begin_def)
  ultimately show ?thesis by (simp add: pool_inv_def wake_inv_def) (simp add: destroy_begin_def)
qed

lemma pool_inv_call: "call_step p q \<Longrightarrow> pool_inv p \<Longrightarrow> pool_inv q"
  by (auto simp: call_step_iff intro: pool_inv_cycle_begin pool_inv_destroy_begin)

lemma Cpool_Create_inv:
  assumes "Cpool_Create alloc cr rc = Some p"
  shows "pool_inv p"
proof -
  have "length (takeWhile cr [0..<min 64 rc]) \<le> 64" using length_takeWhile_le[of cr "[0..<min 64 rc]"] by simp
  moreover have "(if rc > CPOOL_MAX_THREADS then CPOOL_MAX_THREADS else rc) = min 64 rc" by simp
  ultimately show ?thesis
    using assms
    by (auto simp: Cpool_Create_def Let_def pool_inv_def mutex_inv_def wake_inv_def main_ok_def worker_ok_def
        count_inv_def work_inv_def busy_def pending_def split: if_splits)
qed

lemma reachable_inv: "reachable p \<Longrightarrow> pool_inv p"
  by (induction rule: reachable.induct) (auto intro: Cpool_Create_inv pool_inv_step pool_inv_spurious pool_inv_call)

section \<open>Every call returns\<close>

text \<open>What a thread still has to do: every step of the pool makes the total smaller.\<close>

fun wcost :: "wpc \<Rightarrow> nat" where
  "wcost W_wait = 0"
| "wcost W_exit = 0"
| "wcost W_check = 1"
| "wcost W_start = 2"
| "wcost W_wake = 2"
| "wcost W_claim = 4"
| "wcost W_lock = 5"
| "wcost (W_probe x) = 6"

fun mcost :: "mpc \<Rightarrow> nat" where
  "mcost M_check = 1"
| "mcost M_wake = 2"
| "mcost M_join = 1"
| "mcost _ = 0"

definition worker_cost :: "cpool \<Rightarrow> nat \<Rightarrow> nat" where
  "worker_cost p i = wcost (Pc p i) + (if Seen p i = Gen p then 0 else 4)"

definition pool_cost :: "cpool \<Rightarrow> nat" where
  "pool_cost p = (\<Sum>i < NThreads p. worker_cost p i) + 3 * (Rc p - WorkIndex p) + mcost (MainPc p)"

lemma pool_cost_worker:
  assumes "i < NThreads p" "NThreads q = NThreads p" "Rc q = Rc p"
    "\<And>j. j \<noteq> i \<Longrightarrow> worker_cost q j = worker_cost p j"
    "worker_cost q i + 3 * (Rc p - WorkIndex q) + mcost (MainPc q) < worker_cost p i + 3 * (Rc p - WorkIndex p) + mcost (MainPc p)"
  shows "pool_cost q < pool_cost p"
proof -
  have "(\<Sum>j < NThreads p. worker_cost r j) = worker_cost r i + (\<Sum>j\<in>{..<NThreads p} - {i}. worker_cost r j)" for r
    using assms(1) by (simp add: sum.remove[of _ i])
  then show ?thesis using assms by (simp add: pool_cost_def)
qed

lemma pool_cost_step:
  assumes "pool_step p q" "WorkIndex p \<le> Rc p"
  shows "pool_cost q < pool_cost p"
  using assms(1)
proof (cases rule: pool_step.cases)
  case (w_enter i)
  then show ?thesis by (intro pool_cost_worker[of i]) (auto simp: worker_cost_def)
next
  case (w_check i)
  then show ?thesis by (intro pool_cost_worker[of i]) (auto simp: worker_cost_def worker_check_def)
next
  case (w_claim i)
  then show ?thesis
    by (intro pool_cost_worker[of i])
      (auto simp: worker_cost_def worker_claim_def Let_def split: if_splits)
next
  case (w_probe i idx)
  then show ?thesis by (intro pool_cost_worker[of i]) (auto simp: worker_cost_def worker_probe_def)
next
  case (w_relock i)
  then show ?thesis by (intro pool_cost_worker[of i]) (auto simp: worker_cost_def)
qed (auto simp: pool_cost_def worker_cost_def cycle_check_def)

lemma pool_cost_spurious:
  assumes "spurious_step p q"
  shows "pool_cost q \<le> pool_cost p + 2"
  using assms
proof (cases rule: spurious_step.cases)
  case (w_spurious i)
  have "(\<Sum>j < NThreads p. worker_cost r j) = worker_cost r i + (\<Sum>j\<in>{..<NThreads p} - {i}. worker_cost r j)" for r
    using w_spurious by (simp add: sum.remove[of _ i])
  then show ?thesis using w_spurious by (simp add: pool_cost_def) (simp add: worker_cost_def)
qed (auto simp: pool_cost_def worker_cost_def)

text \<open>A pool that has no step left is at rest: no thread is between two locks.\<close>

lemma stuck_rest:
  assumes "pool_inv p" "\<nexists>q. pool_step p q"
  shows "Owner p = None" "i < NThreads p \<Longrightarrow> Pc p i = W_wait \<or> Pc p i = W_exit" "MainPc p \<noteq> M_check"
proof -
  have mu: "mutex_inv p" using assms by (simp add: pool_inv_def)
  have m: "MainPc p \<noteq> M_check" using assms(2) pool_step.m_check by blast
  have w: "\<not> holds_lock (Pc p i)" if "i < NThreads p" for i
    using assms(2) pool_step.w_check[OF that] pool_step.w_claim[OF that] by (auto simp: holds_lock_def)
  show o: "Owner p = None"
  proof (cases "Owner p")
    case (Some t)
    then show ?thesis using mu m w by (cases t) (auto simp: mutex_inv_def)
  qed
  show "Pc p i = W_wait \<or> Pc p i = W_exit" if "i < NThreads p"
    using assms(2) o that w[OF that] pool_step.w_enter[OF that _ o] pool_step.w_probe[OF that]
      pool_step.w_relock[OF that _ o]
    by (cases "Pc p i") auto
qed (use assms(2) pool_step.m_check in blast)

lemma stuck_main:
  assumes "pool_inv p" "\<nexists>q. pool_step p q"
  shows "MainPc p = M_idle \<or> MainPc p = M_gone"
proof -
  note r = stuck_rest[OF assms]
  have ok: "worker_ok p i" if "i < NThreads p" for i using assms that by (simp add: pool_inv_def wake_inv_def)
  have mo: "main_ok p" using assms by (simp add: pool_inv_def wake_inv_def)
  have "MainPc p \<noteq> M_wake" using assms(2) r(1) pool_step.m_wake by blast
  moreover have "MainPc p \<noteq> M_join"
  proof
    assume j: "MainPc p = M_join"
    then have "\<forall>i < NThreads p. Pc p i = W_exit" using r(2) ok mo by (auto simp: worker_ok_def main_ok_def)
    then show False using assms(2) pool_step.m_joined[OF j] by blast
  qed
  moreover have "MainPc p \<noteq> M_wait"
  proof
    assume j: "MainPc p = M_wait"
    then obtain i where i: "i < NThreads p" "pending p i" using mo by (auto simp: main_ok_def busy_def)
    then have "Pc p i = W_wait" using r(2)[OF i(1)] ok[OF i(1)] mo j by (auto simp: worker_ok_def main_ok_def)
    then show False using i ok[OF i(1)] by (auto simp: pending_def worker_ok_def)
  qed
  ultimately show ?thesis using r(3) by (cases "MainPc p") auto
qed

text \<open>A run: \<open>k\<close> steps of the pool and \<open>s\<close> wake-ups without a signal.\<close>

inductive run :: "cpool \<Rightarrow> nat \<Rightarrow> nat \<Rightarrow> cpool \<Rightarrow> bool" where
  run_nil: "run p 0 0 p"
| run_pool: "run p k s q \<Longrightarrow> pool_step q r \<Longrightarrow> run p (Suc k) s r"
| run_spurious: "run p k s q \<Longrightarrow> spurious_step q r \<Longrightarrow> run p k (Suc s) r"

lemma run_inv: "run p k s q \<Longrightarrow> pool_inv p \<Longrightarrow> pool_inv q"
  by (induction rule: run.induct) (auto intro: pool_inv_step pool_inv_spurious)

lemma run_cost: "run p k s q \<Longrightarrow> pool_inv p \<Longrightarrow> k + pool_cost q \<le> pool_cost p + 2 * s"
proof (induction rule: run.induct)
  case (run_pool p k s q r)
  then have "WorkIndex q \<le> Rc q" using run_inv by (auto simp: pool_inv_def work_inv_def)
  then show ?case using run_pool pool_cost_step[of q r] by simp
next
  case (run_spurious p k s q r)
  then show ?case using pool_cost_spurious[of q r] by simp
qed simp

lemma run_phase:
  "run p k s q \<Longrightarrow> NThreads q = NThreads p \<and> Rc q = Rc p \<and> Started q = Started p \<and>
     (MainPc p \<in> {M_join, M_gone} \<longleftrightarrow> MainPc q \<in> {M_join, M_gone})"
proof (induction rule: run.induct)
  case (run_pool p k s q r)
  from run_pool.hyps(2) have "NThreads r = NThreads q \<and> Rc r = Rc q \<and> Started r = Started q \<and>
     (MainPc q \<in> {M_join, M_gone} \<longleftrightarrow> MainPc r \<in> {M_join, M_gone})"
    by (cases rule: pool_step.cases)
      (auto simp: worker_check_def worker_claim_def worker_probe_def cycle_check_def Let_def)
  then show ?case using run_pool by simp
next
  case (run_spurious p k s q r)
  from run_spurious.hyps(2) have "NThreads r = NThreads q \<and> Rc r = Rc q \<and> Started r = Started q \<and>
     (MainPc q \<in> {M_join, M_gone} \<longleftrightarrow> MainPc r \<in> {M_join, M_gone})"
    by (auto elim!: spurious_stepE)
  then show ?case using run_spurious by simp
qed simp

lemma cycle_begin_cost:
  assumes "pool_inv p" "MainPc p = M_idle" "Owner p = None"
  shows "pool_cost (cycle_begin p) \<le> 6 * NThreads p + 3 * Rc p + 1"
proof -
  have "busy p = {}" using assms by (simp add: pool_inv_def wake_inv_def main_ok_def)
  then have "worker_cost (cycle_begin p) i \<le> 6" if "i < NThreads p" for i
    using that assms by (cases "Pc p i") (auto simp: worker_cost_def cycle_begin_def busy_def pending_def
      pool_inv_def mutex_inv_def holds_lock_def)
  then have "(\<Sum>i < NThreads p. worker_cost (cycle_begin p) i) \<le> (\<Sum>i < NThreads p. 6)"
    by (intro sum_mono) auto
  then show ?thesis by (simp add: pool_cost_def) (simp add: cycle_begin_def)
qed

lemma idle_complete:
  assumes "pool_inv p" "Started p" "MainPc p \<in> {M_idle, M_join, M_gone}"
  shows "mset (Log p) = mset [0..<Rc p]" "Remaining p = 0"
proof -
  have b: "busy p = {}" using assms by (auto simp: pool_inv_def wake_inv_def main_ok_def)
  have c: "count_inv p" "work_inv p" using assms by (simp_all add: pool_inv_def)
  then have "WorkIndex p = Rc p" using b by (auto simp: work_inv_def count_inv_def)
  then show "mset (Log p) = mset [0..<Rc p]"
    using c assms(2) in_flight_busy[OF b] by (simp add: work_inv_def)
  show "Remaining p = 0" using remaining_iff[OF c(1)] b by simp
qed

lemma in_flight_one: "i < NThreads p \<Longrightarrow> flight (Pc p i) \<subseteq># in_flight p"
  by (simp add: in_flight_def sum.remove[of _ i])

lemma in_flight_two:
  assumes "i < NThreads p" "j < NThreads p" "i \<noteq> j"
  shows "flight (Pc p i) + flight (Pc p j) \<subseteq># in_flight p"
proof -
  have "in_flight p = flight (Pc p i) + (flight (Pc p j) + (\<Sum>l\<in>{..<NThreads p} - {i} - {j}. flight (Pc p l)))"
    using assms by (simp add: in_flight_def sum.remove[of _ i] sum.remove[of "{..<NThreads p} - {i}" j])
  then show ?thesis by (simp add: ac_simps)
qed

lemma work_unique:
  assumes "pool_inv p" "Started p"
  shows "distinct (Log p)" "set (Log p) \<subseteq> {..<Rc p}"
    "i < NThreads p \<Longrightarrow> Pc p i = W_probe x \<Longrightarrow> x < Rc p \<and> x \<notin> set (Log p)"
    "i < NThreads p \<Longrightarrow> j < NThreads p \<Longrightarrow> i \<noteq> j \<Longrightarrow> Pc p i = W_probe x \<Longrightarrow> Pc p j \<noteq> W_probe x"
proof -
  have m: "mset (Log p) + in_flight p = mset [0..<WorkIndex p]" and le: "WorkIndex p \<le> Rc p"
    using assms by (auto simp: pool_inv_def work_inv_def)
  have one: "count (mset (Log p)) y + count (in_flight p) y = (if y < WorkIndex p then 1 else 0)" for y
    using arg_cong[OF m, of "\<lambda>M. count M y"] by simp
  have le1: "count (mset (Log p)) y \<le> 1" for y
  proof -
    have "(if y < WorkIndex p then 1 else 0 :: nat) \<le> 1" by simp
    then show ?thesis using one[of y] by linarith
  qed
  have "count (mset (Log p)) y = (if y \<in> set (Log p) then 1 else 0)" for y
    using le1[of y] count_mset_0_iff[of "Log p" y]
    by (cases "count (mset (Log p)) y") auto
  then show "distinct (Log p)" by (simp add: distinct_count_atmost_1)
  show "set (Log p) \<subseteq> {..<Rc p}"
  proof
    fix y assume "y \<in> set (Log p)"
    then have "count (mset (Log p)) y > 0" by (simp add: count_mset_gt_0)
    then show "y \<in> {..<Rc p}" using one[of y] le by (auto split: if_splits)
  qed
  show "x < Rc p \<and> x \<notin> set (Log p)" if "i < NThreads p" "Pc p i = W_probe x"
  proof -
    have f: "count (in_flight p) x \<ge> 1"
      using mset_subset_eq_count[OF in_flight_one[OF that(1)], of x] that(2) by simp
    have "(if x < WorkIndex p then 1 else 0 :: nat) = 0 \<or> x < WorkIndex p" by simp
    then have x: "x < WorkIndex p" using f one[of x] by linarith
    have "(if x < WorkIndex p then 1 else 0 :: nat) \<le> 1" by simp
    then have "count (mset (Log p)) x = 0" using f one[of x] by linarith
    then show ?thesis using x le by simp
  qed
  show "Pc p j \<noteq> W_probe x" if "i < NThreads p" "j < NThreads p" "i \<noteq> j" "Pc p i = W_probe x"
  proof
    assume "Pc p j = W_probe x"
    then have "count {#x, x#} x \<le> count (in_flight p) x"
      using mset_subset_eq_count[OF in_flight_two[OF that(1-3)], of x] that(4) by simp
    then show False using one[of x] by (auto split: if_splits)
  qed
qed

section \<open>The results of a cycle\<close>

text \<open>The targets after the probes of a log, one after the other; \<open>connect i\<close> is what \<open>Connect\<close> answers for
  target \<open>i\<close> in this cycle.\<close>

fun probe_log ::
  "(nat \<Rightarrow> host_t \<Rightarrow> u32 \<Rightarrow> int \<times> f64 \<times> cstring option \<times> int) \<Rightarrow> u32 \<Rightarrow> nat list \<Rightarrow> probe_target_t list \<Rightarrow>
   probe_target_t list" where
  "probe_log connect timeout [] rt = rt"
| "probe_log connect timeout (i # is) rt =
     probe_log connect timeout is (rt[i := Probe_One (connect i) timeout (rt ! i)])"

lemma probe_log_nth:
  "distinct l \<Longrightarrow> set l \<subseteq> {..<length rt} \<Longrightarrow> i < length rt \<Longrightarrow>
   probe_log connect timeout l rt ! i = (if i \<in> set l then Probe_One (connect i) timeout (rt ! i) else rt ! i) \<and>
   length (probe_log connect timeout l rt) = length rt"
  by (induction l arbitrary: rt) (auto simp: nth_list_update)

lemma probe_log_all:
  assumes "mset l = mset [0..<length rt]"
  shows "probe_log connect timeout l rt = map (\<lambda>(i, t). Probe_One (connect i) timeout t) (enumerate 0 rt)"
proof -
  have d: "distinct l" using mset_eq_imp_distinct_iff[OF assms] by simp
  moreover have "set l = {..<length rt}" unfolding mset_eq_setD[OF assms] by auto
  moreover have "length (probe_log connect timeout l rt) = length rt"
    by (induction l arbitrary: rt) auto
  ultimately show ?thesis using probe_log_nth[of l rt _ connect timeout]
    by (intro nth_equalityI) (simp_all add: nth_enumerate_eq)
qed

section \<open>Schedules\<close>

text \<open>The step of one thread as a function, and a run given by the order in which threads move.\<close>

definition thread_step :: "thread \<Rightarrow> cpool \<Rightarrow> cpool option" where
  "thread_step t p = (case t of
     Main \<Rightarrow> (case MainPc p of
         M_check \<Rightarrow> Some (cycle_check p)
       | M_wake \<Rightarrow> (if Owner p = None then Some (p\<lparr>MainPc := M_check, Owner := Some Main\<rparr>) else None)
       | M_join \<Rightarrow> (if list_all (\<lambda>i. Pc p i = W_exit) [0..<NThreads p] then Some (p\<lparr>MainPc := M_gone\<rparr>) else None)
       | _ \<Rightarrow> None)
   | Worker i \<Rightarrow>
       (if i \<ge> NThreads p then None
        else case Pc p i of
            W_check \<Rightarrow> Some (worker_check i p)
          | W_claim \<Rightarrow> Some (worker_claim i p)
          | W_probe idx \<Rightarrow> Some (worker_probe i idx p)
          | W_lock \<Rightarrow> (if Owner p = None then Some (goto i W_claim (p\<lparr>Owner := Some (Worker i)\<rparr>)) else None)
          | W_wait \<Rightarrow> None
          | W_exit \<Rightarrow> None
          | _ \<Rightarrow> (if Owner p = None then Some (goto i W_check (p\<lparr>Owner := Some (Worker i)\<rparr>)) else None)))"

fun schedule :: "thread list \<Rightarrow> cpool \<Rightarrow> cpool option" where
  "schedule [] p = Some p"
| "schedule (t # ts) p = (case thread_step t p of None \<Rightarrow> None | Some q \<Rightarrow> schedule ts q)"

lemmas lock_steps = pool_step.w_enter[simplified] pool_step.w_relock[simplified]

lemma thread_step_sound: "thread_step t p = Some q \<Longrightarrow> pool_step p q"
proof (cases t)
  case (Worker i)
  moreover assume "thread_step t p = Some q"
  ultimately show ?thesis
    by (cases "Pc p i")
      (auto simp: thread_step_def intro: lock_steps pool_step.w_check pool_step.w_claim pool_step.w_probe
        split: if_splits)
next
  case Main
  moreover assume "thread_step t p = Some q"
  ultimately show ?thesis
    by (cases "MainPc p")
      (auto simp: thread_step_def list_all_iff intro: pool_step.m_check pool_step.m_wake pool_step.m_joined
        split: if_splits)
qed

lemma thread_step_complete:
  assumes "pool_step p q"
  shows "\<exists>t. thread_step t p = Some q"
  using assms
proof (cases rule: pool_step.cases)
  case (w_enter i)
  then show ?thesis by (intro exI[of _ "Worker i"]) (auto simp: thread_step_def)
next
  case (w_check i)
  then show ?thesis by (intro exI[of _ "Worker i"]) (auto simp: thread_step_def)
next
  case (w_claim i)
  then show ?thesis by (intro exI[of _ "Worker i"]) (auto simp: thread_step_def)
next
  case (w_probe i idx)
  then show ?thesis by (intro exI[of _ "Worker i"]) (auto simp: thread_step_def)
next
  case (w_relock i)
  then show ?thesis by (intro exI[of _ "Worker i"]) (auto simp: thread_step_def)
qed (auto simp: thread_step_def list_all_iff intro!: exI[of _ Main])

lemma run_append: "run p k s q \<Longrightarrow> schedule ts q = Some r \<Longrightarrow> run p (k + length ts) s r"
proof (induction ts arbitrary: q k)
  case (Cons t ts)
  then obtain q' where q': "thread_step t q = Some q'" "schedule ts q' = Some r" by (auto split: option.splits)
  then have "run p (Suc k) s q'" using Cons.prems(1) thread_step_sound by (blast intro: run_pool)
  then show ?case using Cons.IH[OF _ q'(2)] by fastforce
qed simp

lemma schedule_run: "schedule ts p = Some q \<Longrightarrow> run p (length ts) 0 q"
  using run_append[OF run_nil] by fastforce

lemma run_reachable: "run p k s q \<Longrightarrow> reachable p \<Longrightarrow> reachable q"
  by (induction rule: run.induct) (auto intro: reachable.intros)

definition one_worker :: cpool where
  "one_worker = the (Cpool_Create True (\<lambda>i. True) 1)"

definition one_cycle :: "thread list" where
  "one_cycle = [Main, Worker 0, Worker 0, Worker 0, Worker 0, Worker 0, Worker 0, Worker 0, Main, Main]"

lemma one_worker_Some: "Cpool_Create True (\<lambda>i. True) 1 = Some one_worker"
  by (simp add: one_worker_def Cpool_Create_def)

lemma one_cycle_ends:
  "map_option (\<lambda>q. (MainPc q, Pc q 0, Owner q, NThreads q, Log q)) (schedule one_cycle (cycle_begin one_worker)) =
   Some (M_idle, W_wait, None, 1, [0])"
  by code_simp

lemma one_cycle_probing:
  "map_option (\<lambda>q. (Pc q 0, Started q)) (schedule (take 4 one_cycle) (cycle_begin one_worker)) =
   Some (W_probe 0, True)"
  by code_simp

section \<open>Properties\<close>

text \<open>C3: In every state that any interleaving of the threads can reach, at most one thread is inside
  the mutex, no target is probed by two workers or twice in one cycle, every index used is inside the
  array, and when \<open>Cpool_RunCycle\<close> has returned each target has been probed exactly once.\<close>

theorem pool_safe:
  assumes "reachable p" "Started p"
  shows "distinct (Log p) \<and> set (Log p) \<subseteq> {..<Rc p} \<and>
    (\<forall>i x. i < NThreads p \<longrightarrow> Pc p i = W_probe x \<longrightarrow> x < Rc p \<and> x \<notin> set (Log p)) \<and>
    (\<forall>i j x. i < NThreads p \<longrightarrow> j < NThreads p \<longrightarrow> Pc p i = W_probe x \<longrightarrow> Pc p j = W_probe x \<longrightarrow> i = j) \<and>
    (\<forall>i j. i < NThreads p \<longrightarrow> j < NThreads p \<longrightarrow> holds_lock (Pc p i) \<longrightarrow> holds_lock (Pc p j) \<longrightarrow>
       i = j \<and> MainPc p \<noteq> M_check) \<and>
    (MainPc p = M_idle \<longrightarrow> mset (Log p) = mset [0..<Rc p] \<and> Remaining p = 0)"
proof (intro conjI)
  note inv = reachable_inv[OF assms(1)]
  note w = work_unique[OF inv assms(2)]
  show "distinct (Log p)" "set (Log p) \<subseteq> {..<Rc p}" by (fact w)+
  show "\<forall>i x. i < NThreads p \<longrightarrow> Pc p i = W_probe x \<longrightarrow> x < Rc p \<and> x \<notin> set (Log p)" using w(3) by blast
  show "\<forall>i j x. i < NThreads p \<longrightarrow> j < NThreads p \<longrightarrow> Pc p i = W_probe x \<longrightarrow> Pc p j = W_probe x \<longrightarrow> i = j"
    using w(4) by blast
  show "\<forall>i j. i < NThreads p \<longrightarrow> j < NThreads p \<longrightarrow> holds_lock (Pc p i) \<longrightarrow> holds_lock (Pc p j) \<longrightarrow>
      i = j \<and> MainPc p \<noteq> M_check"
    using inv by (auto simp: pool_inv_def mutex_inv_def)
  show "MainPc p = M_idle \<longrightarrow> mset (Log p) = mset [0..<Rc p] \<and> Remaining p = 0"
    using idle_complete[OF inv assms(2)] by simp
qed

theorem pool_safe_witness:
  "\<exists>p. reachable p \<and> Pc p 0 = W_probe 0 \<and> distinct (Log p) \<and> 0 \<notin> set (Log p)"
proof -
  obtain p where p: "schedule (take 4 one_cycle) (cycle_begin one_worker) = Some p" "Pc p 0 = W_probe 0" "Started p"
    using one_cycle_probing by auto
  have m: "MainPc one_worker = M_idle" "Owner one_worker = None" by code_simp+
  have "reachable p"
    using run_reachable[OF schedule_run[OF p(1)] reachable.called[OF reachable.created[OF one_worker_Some] run_cycle[OF m]]] .
  moreover have "NThreads p > 0" using reachable_inv[OF calculation] by (simp add: pool_inv_def count_inv_def)
  ultimately show ?thesis using pool_safe[of p] p by blast
qed

text \<open>C4: Every call of \<open>Cpool_RunCycle\<close> returns, whatever the interleaving: a run of the pool from the
  call has at most \<open>6 N + 3 R + 1\<close> steps and two more for each wake-up without a signal (\<open>N\<close> threads,
  \<open>R\<close> targets); where it has no further step the call is over, every target was probed once, and the array
  holds for each target what one call of \<open>Probe_One\<close> makes of it, in whatever order the probes were made.\<close>

theorem RunCycle_returns:
  assumes "reachable p" "MainPc p = M_idle" "Owner p = None" "run (cycle_begin p) k s q"
  shows "k \<le> 6 * NThreads p + 3 * Rc p + 1 + 2 * s \<and>
    ((\<nexists>r. pool_step q r) \<longrightarrow> MainPc q = M_idle \<and> mset (Log q) = mset [0..<Rc p] \<and>
       (\<forall>rt. length rt = Rc p \<longrightarrow>
          probe_log connect timeout (Log q) rt = map (\<lambda>(i, t). Probe_One (connect i) timeout t) (enumerate 0 rt)))"
proof -
  have c: "pool_inv (cycle_begin p)"
    using pool_inv_cycle_begin[OF reachable_inv] assms by blast
  have "k \<le> 6 * NThreads p + 3 * Rc p + 1 + 2 * s"
    using run_cost[OF assms(4) c] cycle_begin_cost[OF reachable_inv[OF assms(1)] assms(2,3)] by simp
  moreover have "MainPc q = M_idle \<and> mset (Log q) = mset [0..<Rc p]" if "\<nexists>r. pool_step q r"
    using stuck_main[OF run_inv[OF assms(4) c] that] run_phase[OF assms(4)]
      idle_complete[OF run_inv[OF assms(4) c]] by (auto simp: cycle_begin_def broadcast_start_def)
  ultimately show ?thesis using probe_log_all by metis
qed

theorem RunCycle_returns_witness:
  "\<exists>q. schedule one_cycle (cycle_begin one_worker) = Some q \<and> length one_cycle = 10 \<and>
     10 \<le> 6 * NThreads one_worker + 3 * Rc one_worker + 1 + 2 * (0::nat) \<and> mset (Log q) = mset [0..<Rc one_worker]"
proof -
  obtain q where q: "schedule one_cycle (cycle_begin one_worker) = Some q" "MainPc q = M_idle" "Pc q 0 = W_wait"
    "NThreads q = 1" using one_cycle_ends by auto
  have m: "MainPc one_worker = M_idle" "Owner one_worker = None" by code_simp+
  have l: "length one_cycle = 10" by (simp add: one_cycle_def)
  have "\<nexists>r. pool_step q r" using q(2-4) by (auto elim!: pool_stepE)
  then show ?thesis
    using RunCycle_returns[where connect = "\<lambda>i h t. (0, NaN, None, 64)" and timeout = 1000, OF reachable.created[OF one_worker_Some] m schedule_run[OF q(1)]] q(1) l by auto
qed

end
