(* ===== verification/Csv.thy ===== *)
theory Csv
  imports Report
begin

text \<open>
  \<open>csv.c\<close>, and the time stamp of \<open>main.c\<close>. A file is modelled by the text written to it. \<open>tm\<close> is the
  broken-down local time that \<open>localtime\<close> gives; \<open>timezone\<close> and \<open>daylight\<close> are the two globals of the
  C library (seconds west of UTC, and whether the zone ever has summer time).
\<close>

section \<open>Time stamps\<close>

record tm =
  tm_year :: int
  tm_mon :: int
  tm_mday :: int
  tm_hour :: int
  tm_min :: int
  tm_sec :: int

text \<open>\<open>%0<w>d\<close>, and the division of C, which rounds towards zero.\<close>

definition fmt_zero :: "nat \<Rightarrow> int \<Rightarrow> cstring" where
  "fmt_zero w n = (if n < 0 then CHR ''-'' # fmt_pad (w - 1) (dec (nat (- n))) else fmt_pad w (dec (nat n)))"

definition c_div :: "int \<Rightarrow> int \<Rightarrow> int" where
  "c_div a b = sgn a * sgn b * (\<bar>a\<bar> div \<bar>b\<bar>)"

definition c_mod :: "int \<Rightarrow> int \<Rightarrow> int" where
  "c_mod a b = a - c_div a b * b"

definition offset_minutes :: "int \<Rightarrow> int \<Rightarrow> int" where
  "offset_minutes timezone daylight =
     (let tz_seconds = (if daylight \<noteq> 0 then timezone - 3600 else timezone) in - c_div tz_seconds 60)"

definition timestamp_text :: "tm \<Rightarrow> int \<Rightarrow> cstring" where
  "timestamp_text t offset =
     (let hours = c_div offset 60; mins = \<bar>c_mod offset 60\<bar>
      in bounded_copy 64
           (fmt_zero 4 (tm_year t + 1900) @ ''-'' @ fmt_zero 2 (tm_mon t + 1) @ ''-'' @ fmt_zero 2 (tm_mday t) @
            ''T'' @ fmt_zero 2 (tm_hour t) @ '':'' @ fmt_zero 2 (tm_min t) @ '':'' @ fmt_zero 2 (tm_sec t) @
            (if offset \<ge> 0 then ''+'' else ''-'') @ fmt_zero 2 \<bar>hours\<bar> @ '':'' @ fmt_zero 2 mins))"

definition GetTimestampString :: "tm \<Rightarrow> int \<Rightarrow> int \<Rightarrow> cstring" where
  "GetTimestampString t timezone daylight = timestamp_text t (offset_minutes timezone daylight)"

section \<open>File names\<close>

definition sanitize_char :: "char \<Rightarrow> char" where
  "sanitize_char c =
     (if isalnum c \<or> c = CHR ''.'' \<or> c = CHR ''-'' \<or> c = CHR ''_'' then c else CHR ''_'')"

definition SanitizeForFilename :: "cstring \<Rightarrow> nat \<Rightarrow> cstring" where
  "SanitizeForFilename src dst_size =
     (if dst_size = 0 then [] else map sanitize_char (take (dst_size - 1) src))"

definition BuildLogFilename :: "arguments_t \<Rightarrow> tm \<Rightarrow> cstring \<Rightarrow> cstring" where
  "BuildLogFilename args t ext =
     (let dest = (case Destination args of
                    None \<Rightarrow> ''unknown''
                  | Some d \<Rightarrow> SanitizeForFilename d 128)
      in bounded_copy 256
           (''PingDD-'' @ dest @ ''-'' @ fmt_zero 4 (tm_year t + 1900) @ fmt_zero 2 (tm_mon t + 1) @
            fmt_zero 2 (tm_mday t) @ ''_'' @ fmt_zero 2 (tm_hour t) @ fmt_zero 2 (tm_min t) @
            fmt_zero 2 (tm_sec t) @ ''.'' @ ext))"

definition GenerateCSVFilename :: "arguments_t \<Rightarrow> tm \<Rightarrow> cstring" where
  "GenerateCSVFilename args t = BuildLogFilename args t ''csv''"

definition GenerateJsonFilename :: "arguments_t \<Rightarrow> tm \<Rightarrow> cstring" where
  "GenerateJsonFilename args t = BuildLogFilename args t ''json''"

section \<open>Rows\<close>

definition WriteCSVHeader :: cstring where
  "WriteCSVHeader = ''DateTime,Host,IPAddress,Protocol,Port,Time_ms'' @ [newline]"

definition WriteCSVRow :: "host_t \<Rightarrow> f64 \<Rightarrow> cstring \<Rightarrow> cstring \<Rightarrow> cstring \<Rightarrow> cstring" where
  "WriteCSVRow h rtt datetime ip proto =
     (let ip_field = (if ip \<noteq> [] then ip else IPAddress h)
      in [dquote] @ datetime @ ''\",\"'' @ Hostname h @ ''\",\"'' @ ip_field @ ''\",\"'' @ proto @ ''\",'' @
         port_text (HostPort h) @ '','' @ fmt_fixed 4 (ms rtt) @ [newline])"

section \<open>Reading a row\<close>

text \<open>A reader of one record: a field in double quotes goes up to the next quote, any other up to the
  next comma; a newline outside quotes ends the record.\<close>

fun csv_read :: "bool \<Rightarrow> cstring \<Rightarrow> cstring \<Rightarrow> cstring list" where
  "csv_read q acc [] = [acc]"
| "csv_read True acc (c # cs) =
     (if c = dquote then csv_read False acc cs else csv_read True (acc @ [c]) cs)"
| "csv_read False acc (c # cs) =
     (if c = dquote then csv_read True acc cs
      else if c = CHR '','' then acc # csv_read False [] cs
      else if c = newline then [acc]
      else csv_read False (acc @ [c]) cs)"

lemma csv_read_quoted: "dquote \<notin> set xs \<Longrightarrow> csv_read True acc (xs @ ys) = csv_read True (acc @ xs) ys"
  by (induction xs arbitrary: acc) auto

lemma csv_read_plain:
  "set xs \<inter> {dquote, CHR '','', newline} = {} \<Longrightarrow> csv_read False acc (xs @ ys) = csv_read False (acc @ xs) ys"
  by (induction xs arbitrary: acc) auto

lemma csv_plain_dec: "set (dec n) \<inter> {dquote, CHR '','', newline} = {}"
  using dec_digits[of _ n] by (auto simp: isdigit_def code_def)

lemma csv_plain_pad: "set (fmt_pad w (dec n)) \<inter> {dquote, CHR '','', newline} = {}"
  by (auto dest!: fmt_pad_digits simp: isdigit_def code_def)

lemma csv_plain_fixed: "set (fmt_fixed d x) \<inter> {dquote, CHR '','', newline} = {}"
proof (cases x)
  case (Fin q)
  have "set (fixed_digits d n) \<inter> {dquote, CHR '','', newline} = {}" for n
    using csv_plain_dec[of "n div 10 ^ d"] csv_plain_pad[of d "n mod 10 ^ d"] by (auto simp: fixed_digits_def)
  then show ?thesis using Fin by auto
qed auto

section \<open>The parts of a name\<close>

definition name_char :: "char \<Rightarrow> bool" where
  "name_char c \<longleftrightarrow> isalnum c \<or> c \<in> {CHR ''.'', CHR ''-'', CHR ''_''}"

lemma name_char_sanitize [simp]: "name_char (sanitize_char c)"
  by (simp add: name_char_def sanitize_char_def)

lemma name_char_digit: "isdigit c \<Longrightarrow> name_char c"
  by (simp add: name_char_def isalnum_def isdigit_def)

lemma fmt_zero_length: "0 \<le> n \<Longrightarrow> n < 10 ^ w \<Longrightarrow> 0 < w \<Longrightarrow> length (fmt_zero w n) = w"
proof -
  assume n: "0 \<le> n" "n < 10 ^ w" "0 < w"
  have "nat n < 10 ^ w" using n by (simp add: nat_less_iff)
  then show "length (fmt_zero w n) = w"
    using n dec_length[of "nat n" w] by (simp add: fmt_zero_def fmt_pad_length)
qed

lemma fmt_zero_chars: "0 \<le> n \<Longrightarrow> list_all name_char (fmt_zero w n)"
  by (auto simp: fmt_zero_def list_all_iff intro: name_char_digit dest: fmt_pad_digits)

lemma name_char_slug: "list_all name_char (SanitizeForFilename d n)"
  by (simp add: SanitizeForFilename_def list_all_iff)

text \<open>What \<open>localtime\<close> answers for the years 0 to 9999.\<close>

definition tm_ok :: "tm \<Rightarrow> bool" where
  "tm_ok t \<longleftrightarrow> - 1900 \<le> tm_year t \<and> tm_year t < 8100 \<and> 0 \<le> tm_mon t \<and> tm_mon t < 12 \<and>
     0 \<le> tm_mday t \<and> tm_mday t \<le> 31 \<and> 0 \<le> tm_hour t \<and> tm_hour t < 24 \<and>
     0 \<le> tm_min t \<and> tm_min t < 60 \<and> 0 \<le> tm_sec t \<and> tm_sec t \<le> 60"

definition name_stamp :: "tm \<Rightarrow> cstring" where
  "name_stamp t = fmt_zero 4 (tm_year t + 1900) @ fmt_zero 2 (tm_mon t + 1) @ fmt_zero 2 (tm_mday t) @ ''_'' @
     fmt_zero 2 (tm_hour t) @ fmt_zero 2 (tm_min t) @ fmt_zero 2 (tm_sec t)"

lemma name_stamp_spec:
  assumes "tm_ok t"
  shows "length (name_stamp t) = 15" "list_all name_char (name_stamp t)"
  using assms by (simp_all add: name_stamp_def tm_ok_def fmt_zero_length fmt_zero_chars name_char_def[of "CHR ''_''"])

section \<open>Properties\<close>

text \<open>A row of the CSV file reads back as its six fields, whatever commas or line breaks the texts
  hold, if none of them holds a double quote (the writer does not double them).\<close>

theorem CSVRow_reads_back:
  assumes "dquote \<notin> set datetime \<union> set (Hostname h) \<union> set (IPAddress h) \<union> set ip \<union> set proto"
  shows "csv_read False [] (WriteCSVRow h rtt datetime ip proto) =
    [datetime, Hostname h, if ip \<noteq> [] then ip else IPAddress h, proto, port_text (HostPort h), fmt_fixed 4 (ms rtt)]"
  using assms
  by (simp add: WriteCSVRow_def csv_read_quoted csv_read_plain[OF csv_plain_dec] csv_read_plain[OF csv_plain_fixed])

theorem CSVRow_reads_back_witness:
  "csv_read False [] (WriteCSVRow (blank_host\<lparr>Hostname := ''a,b'', IPAddress := ''10.0.0.1'', HostPort := 443\<rparr>)
      (Fin (1 / 4)) ''2024-01-01'' [] ''TCP'') =
   [''2024-01-01'', ''a,b'', ''10.0.0.1'', ''TCP'', port_text 443, fmt_fixed 4 (ms (Fin (1 / 4)))]"
  by (subst CSVRow_reads_back) (simp_all add: blank_host_def)

text \<open>The name of a log file is one path component of letters, digits, dots, dashes and underscores,
  whatever the destination is; it begins with \<open>PingDD-\<close>, keeps its extension and fits its buffer.\<close>

theorem LogFilename_safe:
  assumes "tm_ok t" "ext \<in> {''csv'', ''json''}"
  shows "\<exists>slug. BuildLogFilename args t ext = ''PingDD-'' @ slug @ ''.'' @ ext \<and> list_all name_char slug \<and>
    length (BuildLogFilename args t ext) < 256"
proof -
  define dest where "dest = (case Destination args of None \<Rightarrow> ''unknown'' | Some d \<Rightarrow> SanitizeForFilename d 128)"
  let ?slug = "dest @ ''-'' @ name_stamp t"
  have "list_all name_char ''unknown''" by (simp add: name_char_def isalnum_def code_def)
  then have d: "list_all name_char dest" "length dest < 128"
    using name_char_slug[of _ 128] by (auto simp: dest_def SanitizeForFilename_def split: option.splits)
  have l: "length (''PingDD-'' @ ?slug @ ''.'' @ ext) < 256"
    using d(2) assms name_stamp_spec(1)[OF assms(1)] by auto
  moreover have "BuildLogFilename args t ext = ''PingDD-'' @ ?slug @ ''.'' @ ext"
    using bounded_copy_fits[OF l] by (simp add: BuildLogFilename_def dest_def name_stamp_def)
  moreover have "list_all name_char ?slug"
    using d(1) name_stamp_spec(2)[OF assms(1)] by (simp add: name_char_def[of "CHR ''-''"])
  ultimately show ?thesis by metis
qed

theorem LogFilename_safe_witness:
  "\<exists>slug. BuildLogFilename (InitDefaults\<lparr>Destination := Some ''../etc/passwd''\<rparr>)
      \<lparr>tm_year = 124, tm_mon = 0, tm_mday = 31, tm_hour = 23, tm_min = 5, tm_sec = 9\<rparr> ''csv'' =
     ''PingDD-'' @ slug @ ''.'' @ ''csv'' \<and> list_all name_char slug"
  using LogFilename_safe[of "\<lparr>tm_year = 124, tm_mon = 0, tm_mday = 31, tm_hour = 23, tm_min = 5, tm_sec = 9\<rparr>" "''csv''"
      "InitDefaults\<lparr>Destination := Some ''../etc/passwd''\<rparr>"]
  by (auto simp: tm_ok_def)

end
