(* ===== verification/Probing.thy ===== *)
theory Probing
  imports Csv Cpool Timer
begin

text \<open>
  \<open>ProbeLoop\<close> of \<open>main.c\<close>: the cycles of probes, what each probe adds to the statistics, the diagnostics
  and the outputs, when the loop ends, the summaries and the exit status. What the loop reads of its
  surroundings in one cycle (the interrupt flag, the clock, the answers of \<open>Connect\<close>, the local time, the
  memory) is a record; the loop takes a list of them and has no value when it would need another one.
\<close>

section \<open>Surroundings\<close>

record cycle_env =
  Ce_interrupted :: bool  \<comment> \<open>\<open>g_interrupted\<close> at the test of the loop\<close>
  Ce_now :: timespec
  Ce_connect :: "nat \<Rightarrow> host_t \<Rightarrow> u32 \<Rightarrow> int \<times> f64 \<times> cstring option \<times> int"
  Ce_order :: "nat list"  \<comment> \<open>the order in which the pool probed the targets\<close>
  Ce_stop :: "nat \<Rightarrow> bool"  \<comment> \<open>\<open>g_interrupted\<close> after the probe of a target in turn\<close>
  Ce_time :: "nat \<Rightarrow> tm"
  Ce_alloc :: "nat \<Rightarrow> bool"
  Ce_after :: bool
  Ce_later :: timespec

record ctx =
  cx_args :: arguments_t
  cx_color :: bool
  cx_multi :: bool
  cx_csv :: bool  \<comment> \<open>\<open>csv_file\<close> is open\<close>
  cx_json :: bool
  cx_pool :: bool
  cx_rt :: "nat list"  \<comment> \<open>the indices of the resolved targets\<close>
  cx_zone :: "int \<times> int"

record outputs =
  out_stdout :: cstring
  out_csv :: cstring
  out_json :: cstring

abbreviation to_stdout :: "cstring \<Rightarrow> outputs \<Rightarrow> outputs" where
  "to_stdout s o1 \<equiv> o1\<lparr>out_stdout := out_stdout o1 @ s\<rparr>"

definition human :: "ctx \<Rightarrow> bool" where
  "human c \<longleftrightarrow> \<not> Json (cx_args c) \<and> \<not> Prometheus (cx_args c)"

text \<open>A line for every JSON sink; \<open>quiet\<close> silences the one on the standard output.\<close>

definition to_sinks :: "ctx \<Rightarrow> bool \<Rightarrow> cstring \<Rightarrow> outputs \<Rightarrow> outputs" where
  "to_sinks c quiet line o1 =
     (let o2 = (if Json (cx_args c) \<and> \<not> quiet then to_stdout line o1 else o1)
      in if JsonFile (cx_args c) \<and> cx_json c then o2\<lparr>out_json := out_json o2 @ line\<rparr> else o2)"

section \<open>One result\<close>

definition record_result :: "bool \<Rightarrow> probe_target_t \<Rightarrow> stats_t" where
  "record_result ok t =
     (let s = TgStats t;
          s1 = (if LastResult t = SUCCESS
                then let s2 = Stats_AddSample ok s (LastRtt t) in s2\<lparr>Connects := Connects s2 + 1\<rparr>
                else s\<lparr>Failures := Failures s + 1\<rparr>)
      in s1\<lparr>Attempts := Attempts s1 + 1\<rparr>)"

definition process_target :: "ctx \<Rightarrow> cstring \<Rightarrow> bool \<Rightarrow> probe_target_t \<Rightarrow> outputs \<Rightarrow> probe_target_t \<times> outputs" where
  "process_target c datetime ok t o0 =
     (let a = cx_args c; r = LastResult t; proto = ProtoLabel (TgType t) (LastIp t);
          show_port = (TgType t \<noteq> IPPROTO_ICMP); seq = Attempts (TgStats t); success = (r = SUCCESS);
          o1 = (if success \<and> Audible a then to_stdout [CHR 0x07] o0 else o0);
          o2 = (if success \<and> CSVOutput a \<and> cx_csv c
                then o1\<lparr>out_csv := out_csv o1 @ WriteCSVRow (Resolved t) (LastRtt t) datetime (LastIp t) proto\<rparr>
                else o1);
          t1 = t\<lparr>TgStats := record_result ok t\<rparr>;
          o3 = to_sinks c (Quiet a)
                 (PrintProbeJson r seq (LastIp t) (LastRtt t) proto show_port (TgPort t) datetime (Host t) (LastTtl t)) o2;
          o4 = (if \<not> Quiet a \<and> human c
                then to_stdout (PrintProbeHuman (cx_color c) r seq (LastIp t) (LastRtt t) proto show_port (TgPort t)
                       datetime (if cx_multi c then Some (Label t) else None) (LastTtl t)) o3
                else o3);
          (d, alerts) = Diag_Observe (TgDiag t) success (LastRtt t)
      in (t1\<lparr>TgDiag := d\<rparr>, to_stdout (concat (map (Alert (cx_color c) (TgDiag t)) alerts)) o4))"

section \<open>One cycle\<close>

fun probe_seq :: "ctx \<Rightarrow> cycle_env \<Rightarrow> nat list \<Rightarrow> probe_target_t list \<Rightarrow> probe_target_t list" where
  "probe_seq c e [] items = items"
| "probe_seq c e (i # is) items =
     (let items1 = items[i := Probe_One (Ce_connect e i) (Timeout (cx_args c)) (items ! i)]
      in if Ce_stop e i then items1 else probe_seq c e is items1)"

definition probe_cycle :: "ctx \<Rightarrow> cycle_env \<Rightarrow> probe_target_t list \<Rightarrow> probe_target_t list" where
  "probe_cycle c e items =
     (if cx_pool c then probe_log (Ce_connect e) (Timeout (cx_args c)) (Ce_order e) items
      else probe_seq c e (cx_rt c) items)"

fun process_all ::
  "ctx \<Rightarrow> cycle_env \<Rightarrow> nat list \<Rightarrow> probe_target_t list \<Rightarrow> outputs \<Rightarrow> bool \<Rightarrow> probe_target_t list \<times> outputs \<times> bool" where
  "process_all c e [] items o1 interrupted_now = (items, o1, interrupted_now)"
| "process_all c e (i # is) items o1 interrupted_now =
     (if LastResult (items ! i) = PINGDD_INTERRUPTED then process_all c e is items o1 True
      else let datetime = GetTimestampString (Ce_time e i) (fst (cx_zone c)) (snd (cx_zone c));
               (t, o2) = process_target c datetime (Ce_alloc e i) (items ! i) o1
           in process_all c e is (items[i := t]) o2 interrupted_now)"

section \<open>The loop\<close>

record loop_state =
  Ls_items :: "probe_target_t list"
  Ls_out :: outputs
  Ls_cycle :: ulong
  Ls_sleeps :: "timespec list"  \<comment> \<open>the calls of \<open>nanosleep\<close>\<close>

definition delay_ms :: "u32 \<Rightarrow> timespec" where
  "delay_ms m = \<lparr>tv_sec = uint (m div 1000), tv_nsec = uint (m mod 1000) * 1000000\<rparr>"

definition deadline_passed :: "arguments_t \<Rightarrow> pingdd_timer_t \<Rightarrow> timespec \<Rightarrow> bool" where
  "deadline_passed a tmr now \<longleftrightarrow>
     Deadline a > 0 \<and> fle (f64_of_nat (unat (Deadline a))) (fst (ElapsedMs now tmr))"

definition count_left :: "arguments_t \<Rightarrow> ulong \<Rightarrow> bool" where
  "count_left a n \<longleftrightarrow> Count a = -1 \<or> n < word_of_int (Count a)"

text \<open>The probes of a cycle and their results; the flag tells whether one of them was interrupted.\<close>

definition run_cycle :: "ctx \<Rightarrow> cycle_env \<Rightarrow> loop_state \<Rightarrow> loop_state \<times> bool" where
  "run_cycle c e st =
     (let (items, o1, interrupted_now) =
            process_all c e (cx_rt c) (probe_cycle c e (Ls_items st)) (Ls_out st) False
      in (st\<lparr>Ls_items := items, Ls_out := o1\<rparr>, interrupted_now))"

fun probe_loop :: "ctx \<Rightarrow> pingdd_timer_t \<Rightarrow> cycle_env list \<Rightarrow> loop_state \<Rightarrow> loop_state option" where
  "probe_loop c tmr [] st = None"
| "probe_loop c tmr (e # es) st =
     (let a = cx_args c
      in if Ce_interrupted e \<or> \<not> count_left a (Ls_cycle st) then Some st
         else if deadline_passed a tmr (Ce_now e) then Some st
         else let (st1, interrupted_now) = run_cycle c e st
              in if Ce_after e \<or> interrupted_now then Some st1
                 else let st2 = st1\<lparr>Ls_cycle := Ls_cycle st1 + 1\<rparr>
                      in if Count a \<noteq> -1 \<and> Ls_cycle st2 \<ge> word_of_int (Count a) then Some st2
                         else if deadline_passed a tmr (Ce_later e) then Some st2
                         else probe_loop c tmr es
                                (st2\<lparr>Ls_sleeps := Ls_sleeps st2 @ [delay_ms (if Rate a > 0 then Rate a else 50)]\<rparr>))"

section \<open>What is printed before and after\<close>

definition program_line :: cstring where
  "program_line = bounded_copy 420 (''PingDD v2.1.0'' @ [newline])"

definition target_line :: "ctx \<Rightarrow> probe_target_t \<Rightarrow> cstring" where
  "target_line c t =
     FormattedPrint (cx_color c) (if ResolveOk t then PRINT_GREEN else PRINT_RED)
       (bounded_copy 420 (''  ['' @ Label t @ '']'' @ (if ResolveOk t then [] else ''  (unresolved)'') @ [newline])) @
     (if ResolveOpt (cx_args c) \<and> ResolveOk t
      then (case FormatAnnotation (Resolved t) 420 of
              None \<Rightarrow> []
            | Some ann \<Rightarrow> FormattedPrint (cx_color c) PRINT_BLUE (bounded_copy 460 (''      '' @ ann @ [newline])))
      else [])"

definition connect_line :: "ctx \<Rightarrow> cstring \<Rightarrow> probe_target_t \<Rightarrow> cstring" where
  "connect_line c ts t =
     (let yellow = FormattedPrint (cx_color c) PRINT_YELLOW; green = FormattedPrint (cx_color c) PRINT_GREEN
      in yellow ''Connecting to '' @ green (Host t) @ yellow '' on '' @
         green (ProtoLabel (TgType t) (IPAddress (Resolved t))) @
         (if TgType t \<noteq> IPPROTO_ICMP then green (bounded_copy 420 ('' '' @ port_text (TgPort t))) else []) @
         yellow '' on '' @ green ts @ yellow ('':'' @ [newline]) @
         (if ResolveOpt (cx_args c) \<and> ResolveOk t
          then (case FormatAnnotation (Resolved t) 420 of
                  None \<Rightarrow> []
                | Some ann \<Rightarrow> FormattedPrint (cx_color c) PRINT_BLUE
                    (bounded_copy 500 (''  '' @ IPAddress (Resolved t) @ '' -> '' @ ann @ [newline])))
          else []))"

definition probe_header :: "ctx \<Rightarrow> tm \<Rightarrow> probe_target_t list \<Rightarrow> outputs \<Rightarrow> outputs" where
  "probe_header c now items o0 =
     (let o1 = fold (\<lambda>t. to_sinks c False (PrintTargetJson t)) items o0;
          ts = GetTimestampString now (fst (cx_zone c)) (snd (cx_zone c))
      in if \<not> human c then o1
         else to_stdout
                (FormattedPrint (cx_color c) PRINT_BLUE program_line @
                 (if cx_multi c
                  then FormattedPrint (cx_color c) PRINT_YELLOW
                         (bounded_copy 420 (''Probing '' @ dec (length items) @ '' targets:'' @ [newline])) @
                       concat (map (target_line c) items)
                  else connect_line c ts (items ! 0)) @
                 ResetColor (cx_color c)) o1)"

definition availability_line :: "ctx \<Rightarrow> stats_t \<Rightarrow> cstring" where
  "availability_line c s =
     (let avail = (if Attempts s > 0
                   then fmul (fdiv (f64_of_nat (unat (Connects s))) (f64_of_nat (unat (Attempts s)))) (Fin 100)
                   else Fin 0)
      in FormattedPrint (cx_color c) PRINT_BLUE
           (bounded_copy 96 (''        Availability   = '' @ fmt_fixed 3 avail @ ''% over '' @ lu (Attempts s) @
              '' probes'' @ [newline])))"

definition target_summary :: "ctx \<Rightarrow> (nat \<Rightarrow> bool) \<Rightarrow> probe_target_t \<Rightarrow> outputs \<Rightarrow> outputs" where
  "target_summary c ok t o0 =
     (let o1 = (if cx_multi c \<and> human c
                then to_stdout (FormattedPrint (cx_color c) PRINT_YELLOW
                       (bounded_copy 360 ([newline] @ ''-- '' @ Label t @ '' --'' @ [newline])) @
                       ResetColor (cx_color c)) o0
                else o0)
      in if \<not> ResolveOk t
         then if human c
              then to_stdout (FormattedPrint (cx_color c) PRINT_RED (''        unresolved'' @ [newline])) o1 else o1
         else let o2 = to_sinks c False (PrintSummaryJson ok (TgStats t) (Host t) @
                         Diag_PrintJson (ok 95) (TgDiag t) (TgStats t)) o1
              in if human c
                 then to_stdout (PrintSummaryHuman (cx_color c) ok (TgStats t) @
                        Diag_PrintSummary (cx_color c) (ok 95) (TgDiag t) (TgStats t) @
                        (if Monitor (cx_args c) then availability_line c (TgStats t) else [])) o2
                 else o2)"

definition probe_footer :: "ctx \<Rightarrow> bool \<Rightarrow> (nat \<Rightarrow> bool) \<Rightarrow> probe_target_t list \<Rightarrow> outputs \<Rightarrow> outputs" where
  "probe_footer c interrupted ok items o0 =
     (let o1 = (if interrupted \<and> human c
                then to_stdout (FormattedPrint (cx_color c) PRINT_YELLOW
                       ([newline] @ ''^C interrupted'' @ [newline]) @ ResetColor (cx_color c)) o0
                else o0);
          o2 = fold (target_summary c ok) items o1;
          l = \<lparr>Items = items, TgCap = length items\<rparr>;
          o3 = (if cx_multi c \<and> human c then to_stdout (PrintCombinedHuman (cx_color c) l) o2 else o2)
      in if Prometheus (cx_args c) then to_stdout (WritePrometheus ok l) o3 else o3)"

section \<open>The whole loop\<close>

definition prepare_target :: "bool \<Rightarrow> f64 \<Rightarrow> probe_target_t \<Rightarrow> probe_target_t" where
  "prepare_target silent_diag dns_ms t =
     t\<lparr>TgDiag := Diag_SetDns (Diag_Init silent_diag) dns_ms (\<not> ResolveOk t)\<rparr>"

definition resolved_indices :: "probe_target_t list \<Rightarrow> nat list" where
  "resolved_indices items = filter (\<lambda>i. ResolveOk (items ! i)) [0..<length items]"

definition exit_status :: "probe_target_t list \<Rightarrow> int" where
  "exit_status items =
     (let att = sum_list (map (Attempts \<circ> TgStats) items); con = sum_list (map (Connects \<circ> TgStats) items)
      in if att > 0 \<and> con = 0 then 1 else 0)"

record probe_setup =
  Su_color :: bool
  Su_calloc :: bool
  Su_pool :: bool  \<comment> \<open>\<open>Cpool_Create\<close> succeeds\<close>
  Su_csv :: bool
  Su_json :: bool
  Su_zone :: "int \<times> int"
  Su_time :: tm
  Su_start :: timespec
  Su_interrupted :: bool  \<comment> \<open>\<open>g_interrupted\<close> after the loop\<close>
  Su_sort :: "nat \<Rightarrow> bool"

definition probe_ctx :: "arguments_t \<Rightarrow> probe_setup \<Rightarrow> probe_target_t list \<Rightarrow> ctx" where
  "probe_ctx a u items =
     (let rt = resolved_indices items
      in \<lparr>cx_args = a, cx_color = Su_color u, cx_multi = (length items > 1), cx_csv = Su_csv u,
          cx_json = Su_json u, cx_pool = (Concurrent a \<and> rt \<noteq> [] \<and> Su_pool u), cx_rt = rt, cx_zone = Su_zone u\<rparr>)"

definition ProbeLoop ::
  "arguments_t \<Rightarrow> probe_setup \<Rightarrow> f64 \<Rightarrow> cycle_env list \<Rightarrow> probe_target_t list \<Rightarrow> outputs \<Rightarrow>
   (int \<times> probe_target_t list \<times> outputs) option" where
  "ProbeLoop a u dns_ms es items o0 =
     (if \<not> Su_calloc u then Some (1, items, o0)
      else let silent_diag = (Quiet a \<or> Json a \<or> length items > 1);
               items1 = map (prepare_target silent_diag dns_ms) items;
               c = probe_ctx a u items1;
               o1 = probe_header c (Su_time u) items1 o0;
               tmr = Timer_Start (Su_start u) \<lparr>hasValue = False, start = \<lparr>tv_sec = 0, tv_nsec = 0\<rparr>\<rparr>
           in (case probe_loop c tmr es \<lparr>Ls_items = items1, Ls_out = o1, Ls_cycle = 0, Ls_sleeps = []\<rparr> of
                 None \<Rightarrow> None
               | Some st \<Rightarrow>
                   Some (exit_status (Ls_items st), Ls_items st,
                         probe_footer c (Su_interrupted u) (Su_sort u) (Ls_items st) (Ls_out st))))"

section \<open>The log of a run\<close>

text \<open>
  The reference: a run is a list of events, one for each result the loop counts. A target's counters and
  diagnostics are those of its own events, and the two files hold one line for each event, in order, and
  one row for each success.
\<close>

record event =
  Ev_index :: nat
  Ev_result :: int
  Ev_rtt :: f64
  Ev_ip :: cstring
  Ev_ttl :: int
  Ev_seq :: ulong
  Ev_time :: cstring

definition events_of :: "nat \<Rightarrow> event list \<Rightarrow> event list" where
  "events_of i evs = filter (\<lambda>e. Ev_index e = i) evs"

abbreviation succeeded :: "event \<Rightarrow> bool" where "succeeded e \<equiv> Ev_result e = SUCCESS"

definition event_json :: "probe_target_t list \<Rightarrow> event \<Rightarrow> cstring" where
  "event_json items e =
     (let t = items ! Ev_index e
      in PrintProbeJson (Ev_result e) (Ev_seq e) (Ev_ip e) (Ev_rtt e) (ProtoLabel (TgType t) (Ev_ip e))
           (TgType t \<noteq> IPPROTO_ICMP) (TgPort t) (Ev_time e) (Host t) (Ev_ttl e))"

definition event_csv :: "probe_target_t list \<Rightarrow> event \<Rightarrow> cstring" where
  "event_csv items e =
     (let t = items ! Ev_index e
      in WriteCSVRow (Resolved t) (Ev_rtt e) (Ev_time e) (Ev_ip e) (ProtoLabel (TgType t) (Ev_ip e)))"

definition same_target :: "probe_target_t \<Rightarrow> probe_target_t \<Rightarrow> bool" where
  "same_target t u \<longleftrightarrow> Label u = Label t \<and> Host u = Host t \<and> TgPort u = TgPort t \<and> TgType u = TgType t \<and>
     Resolved u = Resolved t \<and> ResolveOk u = ResolveOk t \<and> Silent (TgDiag u) = Silent (TgDiag t)"

text \<open>Target \<open>u\<close> is target \<open>t\<close> after the events \<open>es\<close>.\<close>

definition accounts :: "event list \<Rightarrow> probe_target_t \<Rightarrow> probe_target_t \<Rightarrow> bool" where
  "accounts es t u \<longleftrightarrow>
     Attempts (TgStats u) = Attempts (TgStats t) + of_nat (length es) \<and>
     Connects (TgStats u) = Connects (TgStats t) + of_nat (length (filter succeeded es)) \<and>
     Failures (TgStats u) = Failures (TgStats t) + of_nat (length (filter (\<lambda>e. \<not> succeeded e) es)) \<and>
     map Ev_seq es = map (\<lambda>n. Attempts (TgStats t) + of_nat n) [0..<length es] \<and>
     TgDiag u = fst (observe_all (TgDiag t) (map (\<lambda>e. (succeeded e, Ev_rtt e)) es))"

definition files_agree :: "ctx \<Rightarrow> probe_target_t list \<Rightarrow> event list \<Rightarrow> outputs \<Rightarrow> outputs \<Rightarrow> bool" where
  "files_agree c items evs o0 o1 \<longleftrightarrow>
     out_json o1 = out_json o0 @
       (if JsonFile (cx_args c) \<and> cx_json c then concat (map (event_json items) evs) else []) \<and>
     out_csv o1 = out_csv o0 @
       (if CSVOutput (cx_args c) \<and> cx_csv c then concat (map (event_csv items) (filter succeeded evs)) else []) \<and>
     (Json (cx_args c) \<and> \<not> Audible (cx_args c) \<and> (\<forall>t \<in> set items. Silent (TgDiag t)) \<longrightarrow>
        out_stdout o1 = out_stdout o0 @ (if Quiet (cx_args c) then [] else concat (map (event_json items) evs)))"

definition logged ::
  "ctx \<Rightarrow> probe_target_t list \<Rightarrow> outputs \<Rightarrow> event list \<Rightarrow> probe_target_t list \<Rightarrow> outputs \<Rightarrow> bool" where
  "logged c items0 o0 evs items o1 \<longleftrightarrow>
     length items = length items0 \<and> (\<forall>e \<in> set evs. Ev_index e \<in> set (cx_rt c) \<and> Ev_result e \<noteq> PINGDD_INTERRUPTED) \<and>
     (\<forall>i < length items0. same_target (items0 ! i) (items ! i) \<and>
        accounts (events_of i evs) (items0 ! i) (items ! i)) \<and>
     files_agree c items0 evs o0 o1"

subsection \<open>Probes change only the last result\<close>

definition last_only :: "probe_target_t \<Rightarrow> probe_target_t \<Rightarrow> bool" where
  "last_only t u \<longleftrightarrow> same_target t u \<and> TgStats u = TgStats t \<and> TgDiag u = TgDiag t"

lemma last_only_refl [simp]: "last_only t t"
  by (simp add: last_only_def same_target_def)

lemma last_only_Probe_One: "last_only t u \<Longrightarrow> last_only t (Probe_One f timeout u)"
  by (auto simp: last_only_def same_target_def Probe_One_def split: prod.splits)

lemma last_only_update:
  assumes "list_all2 last_only items0 items"
  shows "list_all2 last_only items0 (items[i := Probe_One f timeout (items ! i)])"
proof (cases "i < length items")
  case True
  then have "last_only (items0 ! i) (items ! i)" using assms by (simp add: list_all2_conv_all_nth)
  then have "list_all2 last_only (items0[i := items0 ! i]) (items[i := Probe_One f timeout (items ! i)])"
    by (intro list_all2_update_cong assms last_only_Probe_One)
  then show ?thesis by simp
qed (use assms in \<open>simp add: list_update_beyond\<close>)

lemma last_only_probe_log: "list_all2 last_only items0 items \<Longrightarrow> list_all2 last_only items0 (probe_log f timeout l items)"
  by (induction l arbitrary: items) (auto intro: last_only_update)

lemma last_only_probe_seq: "list_all2 last_only items0 items \<Longrightarrow> list_all2 last_only items0 (probe_seq c e l items)"
  by (induction l arbitrary: items) (auto simp: Let_def intro: last_only_update)

lemma last_only_probe_cycle: "list_all2 last_only items (probe_cycle c e items)"
  unfolding probe_cycle_def
  using last_only_probe_log[of items items] last_only_probe_seq[of items items] by (simp add: list_all2_refl)

lemma logged_probes:
  assumes "logged c items0 o0 evs items o1" "list_all2 last_only items items1"
  shows "logged c items0 o0 evs items1 o1"
  using assms
  by (auto simp: logged_def list_all2_conv_all_nth last_only_def same_target_def accounts_def)

subsection \<open>Each result is one event\<close>

definition event_at :: "nat \<Rightarrow> cstring \<Rightarrow> probe_target_t \<Rightarrow> event" where
  "event_at i datetime t =
     \<lparr>Ev_index = i, Ev_result = LastResult t, Ev_rtt = LastRtt t, Ev_ip = LastIp t, Ev_ttl = LastTtl t,
      Ev_seq = Attempts (TgStats t), Ev_time = datetime\<rparr>"

lemma AddSample_counts [simp]:
  "Attempts (Stats_AddSample ok s x) = Attempts s" "Connects (Stats_AddSample ok s x) = Connects s"
  "Failures (Stats_AddSample ok s x) = Failures s"
  by (simp_all add: Stats_AddSample_def Let_def retain_sample_def add_aggregates_def store_sample_def)

lemma record_result_counts:
  "Attempts (record_result ok t) = Attempts (TgStats t) + 1"
  "Connects (record_result ok t) = Connects (TgStats t) + (if LastResult t = SUCCESS then 1 else 0)"
  "Failures (record_result ok t) = Failures (TgStats t) + (if LastResult t = SUCCESS then 0 else 1)"
  by (simp_all add: record_result_def Let_def)

lemma Observe_silent [simp]: "Silent (fst (Diag_Observe d success x)) = Silent d"
  by (simp add: Diag_Observe_def observe_recovery_def observe_rtt_def observe_latency_def observe_failure_def Let_def)

lemma process_target_item:
  assumes "process_target c datetime ok t o1 = (u, o2)"
  shows "u = t\<lparr>TgStats := record_result ok t,
    TgDiag := fst (Diag_Observe (TgDiag t) (LastResult t = SUCCESS) (LastRtt t))\<rparr>"
  using assms
  by (cases "Diag_Observe (TgDiag t) (LastResult t = SUCCESS) (LastRtt t)") (simp add: process_target_def Let_def)

lemma process_target_same: "process_target c datetime ok t o1 = (u, o2) \<Longrightarrow> same_target t u"
  using process_target_item[of c datetime ok t o1 u o2] by (simp add: same_target_def)

lemma accounts_snoc:
  assumes "accounts es t u" "process_target c datetime ok u o1 = (v, o2)"
  shows "accounts (es @ [event_at i datetime u]) t v"
  using assms(1) process_target_item[OF assms(2)]
  by (auto simp: accounts_def record_result_counts event_at_def observe_all_snoc)

lemma to_sinks_sel [simp]:
  "out_csv (to_sinks c q l o1) = out_csv o1"
  "out_json (to_sinks c q l o1) = out_json o1 @ (if JsonFile (cx_args c) \<and> cx_json c then l else [])"
  "out_stdout (to_sinks c q l o1) = out_stdout o1 @ (if Json (cx_args c) \<and> \<not> q then l else [])"
  by (simp_all add: to_sinks_def Let_def)

lemma process_target_files:
  assumes "process_target c datetime ok t o1 = (u, o2)" "same_target (items ! i) t" "i < length items"
  shows "files_agree c items [event_at i datetime t] o1 o2"
proof -
  have j: "event_json items (event_at i datetime t) = PrintProbeJson (LastResult t) (Attempts (TgStats t)) (LastIp t)
      (LastRtt t) (ProtoLabel (TgType t) (LastIp t)) (TgType t \<noteq> IPPROTO_ICMP) (TgPort t) datetime (Host t) (LastTtl t)"
    using assms(2) by (simp add: event_json_def event_at_def same_target_def Let_def)
  have r: "event_csv items (event_at i datetime t) =
      WriteCSVRow (Resolved t) (LastRtt t) datetime (LastIp t) (ProtoLabel (TgType t) (LastIp t))"
    using assms(2) by (simp add: event_csv_def event_at_def same_target_def Let_def)
  have q: "Silent (TgDiag t)" if "\<forall>t \<in> set items. Silent (TgDiag t)"
    using that assms(2,3) by (simp add: same_target_def)
  have s: "Ev_result (event_at i datetime t) = LastResult t" by (simp add: event_at_def)
  obtain d alerts where d: "Diag_Observe (TgDiag t) (LastResult t = SUCCESS) (LastRtt t) = (d, alerts)" by fastforce
  have a: "concat (map (Alert (cx_color c) (TgDiag t)) alerts) = []" if "Silent (TgDiag t)"
    using that by (simp add: Alert_def concat_eq_Nil_conv)
  show ?thesis
    using assms(1) q a
    by (auto simp: files_agree_def process_target_def Let_def d j r s human_def)
qed

lemma files_agree_append:
  "files_agree c items evs o0 o1 \<Longrightarrow> files_agree c items evs' o1 o2 \<Longrightarrow> files_agree c items (evs @ evs') o0 o2"
  by (auto simp: files_agree_def)

lemma logged_step:
  assumes "logged c items0 o0 evs items o1" "i < length items" "i \<in> set (cx_rt c)"
    "LastResult (items ! i) \<noteq> PINGDD_INTERRUPTED" "process_target c datetime ok (items ! i) o1 = (t, o2)"
  shows "logged c items0 o0 (evs @ [event_at i datetime (items ! i)]) (items[i := t]) o2"
proof -
  let ?e = "event_at i datetime (items ! i)"
  have same: "same_target (items0 ! i) (items ! i)" and len: "length items = length items0"
    using assms(1,2) by (auto simp: logged_def)
  have "same_target (items0 ! j) (items[i := t] ! j) \<and> accounts (events_of j (evs @ [?e])) (items0 ! j) (items[i := t] ! j)"
    if "j < length items0" for j
  proof (cases "j = i")
    case True
    then show ?thesis
      using assms(1,2) same process_target_same[OF assms(5)] accounts_snoc[OF _ assms(5), of _ _ i] that
      by (auto simp: logged_def events_of_def event_at_def same_target_def)
  next
    case False
    then show ?thesis using assms(1) that by (simp add: logged_def events_of_def event_at_def)
  qed
  moreover have "files_agree c items0 (evs @ [?e]) o0 o2"
    using files_agree_append[OF _ process_target_files[OF assms(5) same]] assms(1,2) len by (simp add: logged_def)
  ultimately show ?thesis using assms(1,3,4) by (simp add: logged_def event_at_def)
qed

text \<open>The events of one cycle: one for each target in turn, unless its probe was interrupted.\<close>

abbreviation stamp :: "ctx \<Rightarrow> cycle_env \<Rightarrow> nat \<Rightarrow> cstring" where
  "stamp c e i \<equiv> GetTimestampString (Ce_time e i) (fst (cx_zone c)) (snd (cx_zone c))"

definition cycle_events :: "ctx \<Rightarrow> cycle_env \<Rightarrow> probe_target_t list \<Rightarrow> nat list \<Rightarrow> event list" where
  "cycle_events c e items ks =
     map (\<lambda>i. event_at i (stamp c e i) (items ! i)) (filter (\<lambda>i. LastResult (items ! i) \<noteq> PINGDD_INTERRUPTED) ks)"

lemma logged_process_all:
  assumes "process_all c e ks items o1 b = (items', o2, b')" "logged c items0 o0 evs items o1"
    "set ks \<subseteq> {..<length items0}" "set ks \<subseteq> set (cx_rt c)" "distinct ks"
  shows "logged c items0 o0 (evs @ cycle_events c e items ks) items' o2 \<and>
    (b' \<longleftrightarrow> b \<or> (\<exists>i \<in> set ks. LastResult (items ! i) = PINGDD_INTERRUPTED))"
  using assms
proof (induction ks arbitrary: items o1 b evs)
  case Nil
  then show ?case by (simp add: cycle_events_def)
next
  case (Cons i ks)
  have i: "i < length items" using Cons.prems by (simp add: logged_def)
  show ?case
  proof (cases "LastResult (items ! i) = PINGDD_INTERRUPTED")
    case True
    then show ?thesis using Cons.IH[of items o1 True evs] Cons.prems by (simp add: cycle_events_def)
  next
    case False
    obtain t o3 where t: "process_target c (stamp c e i) (Ce_alloc e i) (items ! i) o1 = (t, o3)" by fastforce
    have rest: "items[i := t] ! j = items ! j" if "j \<in> set ks" for j
      using that Cons.prems(5) by (cases "j = i") auto
    then have "cycle_events c e (items[i := t]) ks = cycle_events c e items ks"
      by (auto simp: cycle_events_def intro!: map_cong filter_cong)
    moreover have "cycle_events c e items (i # ks) = event_at i (stamp c e i) (items ! i) # cycle_events c e items ks"
      using False by (simp add: cycle_events_def)
    ultimately show ?thesis
      using Cons.IH[of "items[i := t]" o3 b "evs @ [event_at i (stamp c e i) (items ! i)]"] rest
        Cons.prems logged_step[OF Cons.prems(2) i _ False t] by (simp add: False t)
  qed
qed

definition ctx_ok :: "ctx \<Rightarrow> nat \<Rightarrow> bool" where
  "ctx_ok c n \<longleftrightarrow> distinct (cx_rt c) \<and> set (cx_rt c) \<subseteq> {..<n}"

lemma logged_run_cycle:
  assumes "run_cycle c e st = (st1, b)" "logged c items0 o0 evs (Ls_items st) (Ls_out st)" "ctx_ok c (length items0)"
  shows "logged c items0 o0 (evs @ cycle_events c e (probe_cycle c e (Ls_items st)) (cx_rt c)) (Ls_items st1) (Ls_out st1) \<and>
    (b \<longleftrightarrow> (\<exists>i \<in> set (cx_rt c). LastResult (probe_cycle c e (Ls_items st) ! i) = PINGDD_INTERRUPTED)) \<and>
    Ls_cycle st1 = Ls_cycle st \<and> Ls_sleeps st1 = Ls_sleeps st"
proof -
  obtain items o1 b' where p:
    "process_all c e (cx_rt c) (probe_cycle c e (Ls_items st)) (Ls_out st) False = (items, o1, b')"
    by (metis surj_pair)
  then have "st1 = st\<lparr>Ls_items := items, Ls_out := o1\<rparr> \<and> b = b'" using assms(1) by (simp add: run_cycle_def)
  then show ?thesis
    using logged_process_all[OF p logged_probes[OF assms(2) last_only_probe_cycle]] assms(3) by (auto simp: ctx_ok_def)
qed

abbreviation slept :: "ctx \<Rightarrow> loop_state \<Rightarrow> loop_state" where
  "slept c st \<equiv> st\<lparr>Ls_cycle := Ls_cycle st + 1,
     Ls_sleeps := Ls_sleeps st @ [delay_ms (if Rate (cx_args c) > 0 then Rate (cx_args c) else 50)]\<rparr>"

text \<open>What every cycle keeps of a log, its targets and its outputs, the loop keeps.\<close>

lemma probe_loop_log:
  assumes "probe_loop c tmr es st = Some st'" "P evs (Ls_items st) (Ls_out st)"
    and "\<And>evs e st st1 b. e \<in> set es \<Longrightarrow> P evs (Ls_items st) (Ls_out st) \<Longrightarrow> run_cycle c e st = (st1, b) \<Longrightarrow>
      \<exists>evs1. P (evs @ evs1) (Ls_items st1) (Ls_out st1)"
  shows "\<exists>evs'. P (evs @ evs') (Ls_items st') (Ls_out st')"
  using assms
proof (induction es arbitrary: st evs)
  case (Cons e es)
  obtain st1 b where r: "run_cycle c e st = (st1, b)" by fastforce
  obtain evs1 where e1: "P (evs @ evs1) (Ls_items st1) (Ls_out st1)"
    using Cons.prems(3)[OF _ Cons.prems(2) r] by auto
  have "Ls_items st' = Ls_items st \<and> Ls_out st' = Ls_out st \<or> Ls_items st' = Ls_items st1 \<and> Ls_out st' = Ls_out st1 \<or>
      probe_loop c tmr es (slept c st1) = Some st'"
    using Cons.prems(1) by (auto simp: Let_def r split: if_splits)
  then show ?case
  proof (elim disjE)
    assume "probe_loop c tmr es (slept c st1) = Some st'"
    moreover have "P (evs @ evs1) (Ls_items (slept c st1)) (Ls_out (slept c st1))" using e1 by simp
    ultimately have "\<exists>evs'. P ((evs @ evs1) @ evs') (Ls_items st') (Ls_out st')"
      by (rule Cons.IH) (rule Cons.prems(3), simp_all)
    then show ?thesis unfolding append_assoc by blast
  qed (use e1 Cons.prems(2) append_Nil2 in metis)+
qed simp

lemma logged_probe_loop:
  assumes "probe_loop c tmr es st = Some st'" "logged c items0 o0 evs (Ls_items st) (Ls_out st)"
    "ctx_ok c (length items0)"
  shows "\<exists>evs'. logged c items0 o0 (evs @ evs') (Ls_items st') (Ls_out st')"
  using assms(1,2) by (rule probe_loop_log) (use logged_run_cycle assms(3) in blast)

lemma logged_start: "logged c items o1 [] items o1"
  by (simp add: logged_def same_target_def accounts_def events_of_def files_agree_def)

lemma accounts_balance:
  assumes "accounts es t u" "Attempts (TgStats t) = Connects (TgStats t) + Failures (TgStats t)"
  shows "Attempts (TgStats u) = Connects (TgStats u) + Failures (TgStats u)"
proof -
  have split: "(of_nat (length es) :: ulong) =
      of_nat (length (filter succeeded es)) + of_nat (length (filter (\<lambda>e. \<not> succeeded e) es))"
    by (simp only: of_nat_add[symmetric] sum_length_filter_compl)
  have "Attempts (TgStats u) = Connects (TgStats t) + Failures (TgStats t) + of_nat (length es)"
    "Connects (TgStats u) = Connects (TgStats t) + of_nat (length (filter succeeded es))"
    "Failures (TgStats u) = Failures (TgStats t) + of_nat (length (filter (\<lambda>e. \<not> succeeded e) es))"
    using assms by (simp_all only: accounts_def)
  then show ?thesis unfolding split by (simp only: ac_simps)
qed

lemma logged_balance:
  assumes "logged c items0 o0 evs items o1"
    "\<And>t. t \<in> set items0 \<Longrightarrow> Attempts (TgStats t) = Connects (TgStats t) + Failures (TgStats t)" "t \<in> set items"
  shows "Attempts (TgStats t) = Connects (TgStats t) + Failures (TgStats t)"
proof -
  obtain i where i: "i < length items" "t = items ! i" using assms(3) by (auto simp: in_set_conv_nth)
  then have "i < length items0" "accounts (events_of i evs) (items0 ! i) t" using assms(1) by (auto simp: logged_def)
  then show ?thesis using accounts_balance assms(2) nth_mem by blast
qed

subsection \<open>The exit status\<close>

lemma sum_list_of_nat:
  "sum_list (map (\<lambda>i. of_nat (f i)) xs) = (of_nat (sum_list (map f xs)) :: ulong)"
  by (induction xs) simp_all

lemma sum_events_of:
  assumes "\<forall>e \<in> set evs. Ev_index e < n"
  shows "sum_list (map (\<lambda>i. length (filter P (events_of i evs))) [0..<n]) = length (filter P evs)"
  using assms
proof (induction evs)
  case Nil
  show ?case by (simp add: events_of_def)
next
  case (Cons e evs)
  have "length (filter P (events_of i (e # evs))) =
      length (filter P (events_of i evs)) + (if i = Ev_index e then if P e then 1 else 0 else 0)" for i
    by (simp add: events_of_def)
  then have "sum_list (map (\<lambda>i. length (filter P (events_of i (e # evs)))) [0..<n]) =
      sum_list (map (\<lambda>i. length (filter P (events_of i evs))) [0..<n]) +
      sum_list (map (\<lambda>i. if i = Ev_index e then if P e then 1 else 0 else 0) [0..<n])"
    by (simp add: sum_list_addf)
  also have "sum_list (map (\<lambda>i. if i = Ev_index e then if P e then 1 else 0 else 0) [0..<n]) = (if P e then 1 else 0 :: nat)"
    using Cons.prems by (simp add: interv_sum_list_conv_sum_set_nat)
  finally show ?case using Cons by simp
qed

lemma exit_status_events:
  assumes "logged c items0 o0 evs items o1" "ctx_ok c (length items0)" "length evs < 2 ^ 64"
    "\<forall>t \<in> set items0. Attempts (TgStats t) = 0 \<and> Connects (TgStats t) = 0"
  shows "exit_status items = (if evs \<noteq> [] \<and> (\<forall>e \<in> set evs. \<not> succeeded e) then 1 else 0)"
proof -
  have len: "length items = length items0" and ix: "\<forall>e \<in> set evs. Ev_index e < length items0"
    using assms(1,2) by (auto simp: logged_def ctx_ok_def)
  have items: "map f items = map (\<lambda>i. f (items ! i)) [0..<length items0]" for f :: "probe_target_t \<Rightarrow> ulong"
    unfolding len[symmetric] by (rule nth_equalityI) simp_all
  have "map (Attempts \<circ> TgStats) items = map (\<lambda>i. of_nat (length (filter (\<lambda>e. True) (events_of i evs)))) [0..<length items0]"
    "map (Connects \<circ> TgStats) items = map (\<lambda>i. of_nat (length (filter succeeded (events_of i evs)))) [0..<length items0]"
    unfolding items using assms(1,4) by (auto simp: logged_def accounts_def)
  then have "sum_list (map (Attempts \<circ> TgStats) items) = of_nat (length evs)"
    "sum_list (map (Connects \<circ> TgStats) items) = of_nat (length (filter succeeded evs))"
    using sum_events_of[OF ix, of "\<lambda>e. True"] sum_events_of[OF ix, of succeeded] by (simp_all add: sum_list_of_nat)
  moreover have "length (filter succeeded evs) < 2 ^ 64"
    by (rule le_less_trans[OF length_filter_le assms(3)])
  ultimately show ?thesis
    using assms(3) of_nat_small_0 by (auto simp: exit_status_def word_gt_0 filter_empty_conv)
qed

section \<open>Runs that are not disturbed\<close>

text \<open>A cycle in which nothing interrupts the program; the pool's order is one that \<open>Cpool_RunCycle\<close> gives.\<close>

definition outcome :: "ctx \<Rightarrow> cycle_env \<Rightarrow> probe_target_t list \<Rightarrow> nat \<Rightarrow> int \<times> f64 \<times> cstring option \<times> int" where
  "outcome c e items i = Ce_connect e i (Resolved (items ! i)) (Timeout (cx_args c))"

definition undisturbed :: "ctx \<Rightarrow> probe_target_t list \<Rightarrow> cycle_env \<Rightarrow> bool" where
  "undisturbed c items e \<longleftrightarrow> \<not> Ce_interrupted e \<and> \<not> Ce_after e \<and> (\<forall>i. \<not> Ce_stop e i) \<and>
     (cx_pool c \<longrightarrow> mset (Ce_order e) = mset (cx_rt c)) \<and>
     (\<forall>i \<in> set (cx_rt c). fst (outcome c e items i) \<noteq> PINGDD_INTERRUPTED)"

lemma probe_seq_log:
  "\<forall>i. \<not> Ce_stop e i \<Longrightarrow> probe_seq c e ks items = probe_log (Ce_connect e) (Timeout (cx_args c)) ks items"
  by (induction ks arbitrary: items) (simp_all add: Let_def)

lemma probe_cycle_each:
  assumes "undisturbed c items0 e" "ctx_ok c (length items)" "i \<in> set (cx_rt c)"
  shows "probe_cycle c e items ! i = Probe_One (Ce_connect e i) (Timeout (cx_args c)) (items ! i)"
proof -
  have *: "probe_log f tmo l items ! i = Probe_One (f i) tmo (items ! i)" if "mset l = mset (cx_rt c)" for f tmo l
  proof -
    have "distinct l" "set l = set (cx_rt c)"
      using assms(2) mset_eq_imp_distinct_iff[OF that] mset_eq_setD[OF that] by (auto simp: ctx_ok_def)
    then show ?thesis using assms(2,3) probe_log_nth[of l items i f tmo] by (auto simp: ctx_ok_def)
  qed
  then show ?thesis
    using assms(1) probe_seq_log[of e c "cx_rt c" items] by (auto simp: probe_cycle_def undisturbed_def)
qed

lemma events_of_one:
  assumes "distinct ks" "i \<in> set ks" "LastResult (items ! i) \<noteq> PINGDD_INTERRUPTED"
  shows "events_of i (cycle_events c e items ks) = [event_at i (stamp c e i) (items ! i)]"
proof -
  have "events_of i (map (\<lambda>i. event_at i (stamp c e i) (items ! i)) ks) =
      (if i \<in> set ks then [event_at i (stamp c e i) (items ! i)] else [])" if "distinct ks" for ks
    using that by (induction ks) (auto simp: events_of_def event_at_def)
  then show ?thesis using assms by (simp add: cycle_events_def)
qed

text \<open>One undisturbed cycle adds one event for each resolved target, with the result of its probe.\<close>

lemma undisturbed_cycle:
  assumes "undisturbed c items0 e" "ctx_ok c (length items0)" "logged c items0 o0 evs (Ls_items st) (Ls_out st)"
    "run_cycle c e st = (st1, b)"
  shows "\<not> b \<and> Ls_cycle st1 = Ls_cycle st \<and> Ls_sleeps st1 = Ls_sleeps st \<and>
    (\<exists>evs'. logged c items0 o0 (evs @ evs') (Ls_items st1) (Ls_out st1) \<and>
       (\<forall>i \<in> set (cx_rt c). map (\<lambda>e. (Ev_result e, Ev_rtt e)) (events_of i evs') =
          [(fst (outcome c e items0 i), fst (snd (outcome c e items0 i)))]))"
proof -
  let ?items = "probe_cycle c e (Ls_items st)"
  have len: "length (Ls_items st) = length items0" "length ?items = length items0"
    using assms(3) list_all2_lengthD[OF last_only_probe_cycle[of "Ls_items st" c e]] by (simp_all add: logged_def)
  have each: "LastResult (?items ! i) = fst (outcome c e items0 i) \<and> LastRtt (?items ! i) = fst (snd (outcome c e items0 i))"
    if "i \<in> set (cx_rt c)" for i
  proof -
    have "same_target (items0 ! i) (Ls_items st ! i)"
      using assms(2,3) that by (auto simp: logged_def ctx_ok_def)
    then show ?thesis
      using probe_cycle_each[OF assms(1) _ that, of "Ls_items st"] assms(2) len
      by (simp add: Probe_One_def outcome_def same_target_def split: prod.splits)
  qed
  then have ni: "\<forall>i \<in> set (cx_rt c). LastResult (?items ! i) \<noteq> PINGDD_INTERRUPTED"
    using assms(1) by (simp add: undisturbed_def)
  have "map (\<lambda>e. (Ev_result e, Ev_rtt e)) (events_of i (cycle_events c e ?items (cx_rt c))) =
      [(fst (outcome c e items0 i), fst (snd (outcome c e items0 i)))]" if "i \<in> set (cx_rt c)" for i
    using events_of_one[of "cx_rt c" i ?items c e, OF _ that bspec[OF ni that]] assms(2) each[OF that]
    by (simp add: event_at_def ctx_ok_def)
  then show ?thesis using logged_run_cycle[OF assms(4,3,2)] ni by blast
qed

lemma of_nat_less_small: "a < 2 ^ 64 \<Longrightarrow> n < 2 ^ 64 \<Longrightarrow> (of_nat a :: ulong) < of_nat n \<longleftrightarrow> a < n"
  by (simp add: word_less_nat_alt unat_of_nat)

lemma undisturbed_loop:
  assumes "\<forall>e \<in> set es. undisturbed c items0 e" "ctx_ok c (length items0)"
    "logged c items0 o0 evs (Ls_items st) (Ls_out st)" "Deadline (cx_args c) = 0"
    "Count (cx_args c) = int n" "n < 2 ^ 31" "Ls_cycle st = of_nat k" "k < n" "n \<le> k + length es"
  shows "\<exists>st' evs'. probe_loop c tmr es st = Some st' \<and> Ls_cycle st' = of_nat n \<and>
    length (Ls_sleeps st') = length (Ls_sleeps st) + (n - k - 1) \<and>
    logged c items0 o0 (evs @ evs') (Ls_items st') (Ls_out st') \<and>
    (\<forall>i \<in> set (cx_rt c). map (\<lambda>e. (Ev_result e, Ev_rtt e)) (events_of i evs') =
       map (\<lambda>e. (fst (outcome c e items0 i), fst (snd (outcome c e items0 i)))) (take (n - k) es))"
  using assms
proof (induction es arbitrary: st evs k)
  case (Cons e es)
  obtain st1 b where r: "run_cycle c e st = (st1, b)" by fastforce
  have ue: "undisturbed c items0 e" using Cons.prems(1) by simp
  obtain ev1 where ev1: "\<not> b" "Ls_cycle st1 = of_nat k" "Ls_sleeps st1 = Ls_sleeps st"
    "logged c items0 o0 (evs @ ev1) (Ls_items st1) (Ls_out st1)"
    "\<forall>i \<in> set (cx_rt c). map (\<lambda>e. (Ev_result e, Ev_rtt e)) (events_of i ev1) =
       [(fst (outcome c e items0 i), fst (snd (outcome c e items0 i)))]"
    using undisturbed_cycle[OF ue Cons.prems(2,3) r] Cons.prems(7) by auto
  have no_deadline: "\<not> deadline_passed (cx_args c) tmr now" for now
    using Cons.prems(4) by (simp add: deadline_passed_def)
  have less: "(of_nat a :: ulong) < word_of_int (Count (cx_args c)) \<longleftrightarrow> a < n" if "a < 2 ^ 32" for a
    using of_nat_less_small[of a n] that Cons.prems(5,6) by simp
  have "(of_nat (Suc k) :: ulong) = Ls_cycle st1 + 1" using ev1(2) by (simp add: add.commute)
  then have full: "(word_of_int (Count (cx_args c)) :: ulong) \<le> Ls_cycle st1 + 1 \<longleftrightarrow> n \<le> Suc k"
    using less[of "Suc k"] Cons.prems(6,8) by (simp add: linorder_not_less[symmetric] del: of_nat_Suc)
  have go: "count_left (cx_args c) (Ls_cycle st)" using less[of k] Cons.prems by (simp add: count_left_def)
  have un: "\<not> Ce_interrupted e" "\<not> Ce_after e" using ue by (simp_all add: undisturbed_def)
  have take: "take (n - k) (e # es) = e # take (n - Suc k) es" using Cons.prems(8) by (simp add: take_Cons')
  show ?case
  proof (cases "Suc k = n")
    case True
    then have "probe_loop c tmr (e # es) st = Some (st1\<lparr>Ls_cycle := Ls_cycle st1 + 1\<rparr>)"
      using un no_deadline go r ev1(1) full Cons.prems(5) by (simp add: Let_def)
    then show ?thesis using ev1 True take by (intro exI[of _ "st1\<lparr>Ls_cycle := Ls_cycle st1 + 1\<rparr>"] exI[of _ ev1]) auto
  next
    case False
    then have "probe_loop c tmr (e # es) st = probe_loop c tmr es (slept c st1)"
      using un no_deadline go r ev1(1) full Cons.prems(5,8) by (simp add: Let_def)
    moreover obtain st' ev2 where "probe_loop c tmr es (slept c st1) = Some st'" "Ls_cycle st' = of_nat n"
      "length (Ls_sleeps st') = length (Ls_sleeps (slept c st1)) + (n - Suc k - 1)"
      "logged c items0 o0 ((evs @ ev1) @ ev2) (Ls_items st') (Ls_out st')"
      "\<forall>i \<in> set (cx_rt c). map (\<lambda>e. (Ev_result e, Ev_rtt e)) (events_of i ev2) =
         map (\<lambda>e. (fst (outcome c e items0 i), fst (snd (outcome c e items0 i)))) (take (n - Suc k) es)"
      using Cons.IH[of "evs @ ev1" "slept c st1" "Suc k"] Cons.prems ev1 False by auto
    ultimately show ?thesis
      using ev1 take False Cons.prems(8) by (intro exI[of _ st'] exI[of _ "ev1 @ ev2"]) (auto simp: events_of_def)
  qed
qed simp

section \<open>The whole program\<close>

lemma prepare_target_simps [simp]:
  "TgStats (prepare_target b d t) = TgStats t" "ResolveOk (prepare_target b d t) = ResolveOk t"
  by (simp_all add: prepare_target_def)

lemma probe_ctx_ok: "ctx_ok (probe_ctx a u items) (length items)"
  by (auto simp: ctx_ok_def probe_ctx_def resolved_indices_def Let_def)

definition prepared :: "arguments_t \<Rightarrow> f64 \<Rightarrow> probe_target_t list \<Rightarrow> probe_target_t list" where
  "prepared a dns_ms items = map (prepare_target (Quiet a \<or> Json a \<or> length items > 1) dns_ms) items"

definition main_ctx :: "arguments_t \<Rightarrow> probe_setup \<Rightarrow> f64 \<Rightarrow> probe_target_t list \<Rightarrow> ctx" where
  "main_ctx a u dns_ms items = probe_ctx a u (prepared a dns_ms items)"

lemma main_ctx_ok: "ctx_ok (main_ctx a u dns_ms items) (length (prepared a dns_ms items))"
  unfolding main_ctx_def by (rule probe_ctx_ok)

definition loop_start :: "arguments_t \<Rightarrow> probe_setup \<Rightarrow> f64 \<Rightarrow> probe_target_t list \<Rightarrow> outputs \<Rightarrow> loop_state" where
  "loop_start a u dns_ms items o0 =
     \<lparr>Ls_items = prepared a dns_ms items,
      Ls_out = probe_header (main_ctx a u dns_ms items) (Su_time u) (prepared a dns_ms items) o0,
      Ls_cycle = 0, Ls_sleeps = []\<rparr>"

definition total_timer :: "probe_setup \<Rightarrow> pingdd_timer_t" where
  "total_timer u = Timer_Start (Su_start u) \<lparr>hasValue = False, start = \<lparr>tv_sec = 0, tv_nsec = 0\<rparr>\<rparr>"

lemma ProbeLoop_unfold:
  "Su_calloc u \<Longrightarrow> ProbeLoop a u dns_ms es items o0 =
     map_option (\<lambda>st. (exit_status (Ls_items st), Ls_items st,
         probe_footer (main_ctx a u dns_ms items) (Su_interrupted u) (Su_sort u) (Ls_items st) (Ls_out st)))
       (probe_loop (main_ctx a u dns_ms items) (total_timer u) es (loop_start a u dns_ms items o0))"
  by (simp add: ProbeLoop_def Let_def prepared_def main_ctx_def loop_start_def total_timer_def split: option.split)

lemma main_ctx_sel [simp]:
  "cx_args (main_ctx a u dns_ms items) = a"
  by (simp add: main_ctx_def probe_ctx_def Let_def)

lemma main_loop_runs:
  assumes "Count a = int n" "0 < n" "n < 2 ^ 31" "Deadline a = 0" "n \<le> length es"
    "\<forall>e \<in> set es. undisturbed (main_ctx a u dns_ms items) (prepared a dns_ms items) e"
  shows "\<exists>st evs. probe_loop (main_ctx a u dns_ms items) (total_timer u) es (loop_start a u dns_ms items o0) = Some st \<and>
    Ls_cycle st = of_nat n \<and> length (Ls_sleeps st) = n - 1 \<and>
    logged (main_ctx a u dns_ms items) (prepared a dns_ms items) (Ls_out (loop_start a u dns_ms items o0)) evs
      (Ls_items st) (Ls_out st) \<and>
    (\<forall>i \<in> set (cx_rt (main_ctx a u dns_ms items)). map (\<lambda>e. (Ev_result e, Ev_rtt e)) (events_of i evs) =
       map (\<lambda>e. (fst (outcome (main_ctx a u dns_ms items) e (prepared a dns_ms items) i),
                  fst (snd (outcome (main_ctx a u dns_ms items) e (prepared a dns_ms items) i)))) (take n es))"
  using undisturbed_loop[OF assms(6) main_ctx_ok, of "Ls_out (loop_start a u dns_ms items o0)" "[]"
      "loop_start a u dns_ms items o0" n 0 "total_timer u"] assms(1-5) logged_start
  by (simp add: loop_start_def)

section \<open>The files of a run\<close>

lemma header_files:
  "out_json (probe_header c now items o0) =
     out_json o0 @ (if JsonFile (cx_args c) \<and> cx_json c then concat (map PrintTargetJson items) else [])"
  "out_csv (probe_header c now items o0) = out_csv o0"
proof -
  have "out_json (fold (\<lambda>t. to_sinks c False (PrintTargetJson t)) ts o1) =
      out_json o1 @ (if JsonFile (cx_args c) \<and> cx_json c then concat (map PrintTargetJson ts) else []) \<and>
    out_csv (fold (\<lambda>t. to_sinks c False (PrintTargetJson t)) ts o1) = out_csv o1" for ts o1
    by (induction ts arbitrary: o1) (simp_all add: to_sinks_def Let_def)
  then show
    "out_json (probe_header c now items o0) =
       out_json o0 @ (if JsonFile (cx_args c) \<and> cx_json c then concat (map PrintTargetJson items) else [])"
    "out_csv (probe_header c now items o0) = out_csv o0"
    by (simp_all add: probe_header_def Let_def)
qed

definition summary_json :: "(nat \<Rightarrow> bool) \<Rightarrow> probe_target_t \<Rightarrow> cstring" where
  "summary_json ok t =
     (if ResolveOk t then PrintSummaryJson ok (TgStats t) (Host t) @ Diag_PrintJson (ok 95) (TgDiag t) (TgStats t) else [])"

lemma footer_files:
  "out_json (probe_footer c interrupted ok items o0) =
     out_json o0 @ (if JsonFile (cx_args c) \<and> cx_json c then concat (map (summary_json ok) items) else [])"
  "out_csv (probe_footer c interrupted ok items o0) = out_csv o0"
proof -
  have "out_json (fold (target_summary c ok) ts o1) =
      out_json o1 @ (if JsonFile (cx_args c) \<and> cx_json c then concat (map (summary_json ok) ts) else []) \<and>
    out_csv (fold (target_summary c ok) ts o1) = out_csv o1" for ts o1
    by (induction ts arbitrary: o1) (simp_all add: target_summary_def summary_json_def to_sinks_def Let_def)
  then show
    "out_json (probe_footer c interrupted ok items o0) =
       out_json o0 @ (if JsonFile (cx_args c) \<and> cx_json c then concat (map (summary_json ok) items) else [])"
    "out_csv (probe_footer c interrupted ok items o0) = out_csv o0"
    by (simp_all add: probe_footer_def Let_def)
qed

text \<open>A run is a log, and its files are the header, the log and the summary.\<close>

lemma ProbeLoop_logged:
  assumes "ProbeLoop a u dns_ms es items o0 = Some (rc, items', o1)" "Su_calloc u"
  shows "\<exists>evs o2.
    logged (main_ctx a u dns_ms items) (prepared a dns_ms items)
      (probe_header (main_ctx a u dns_ms items) (Su_time u) (prepared a dns_ms items) o0) evs items' o2 \<and>
    o1 = probe_footer (main_ctx a u dns_ms items) (Su_interrupted u) (Su_sort u) items' o2 \<and> rc = exit_status items'"
proof -
  let ?c = "main_ctx a u dns_ms items" and ?items = "prepared a dns_ms items"
  obtain st where st: "probe_loop ?c (total_timer u) es (loop_start a u dns_ms items o0) = Some st"
    and r: "rc = exit_status (Ls_items st)" "items' = Ls_items st"
      "o1 = probe_footer ?c (Su_interrupted u) (Su_sort u) (Ls_items st) (Ls_out st)"
    using assms(1) unfolding ProbeLoop_unfold[OF assms(2)] by auto
  obtain evs where "logged ?c ?items (probe_header ?c (Su_time u) ?items o0) evs items' (Ls_out st)"
    using logged_probe_loop[OF st _ main_ctx_ok, of _ "[]"] logged_start[of ?c ?items] r
    by (auto simp: loop_start_def)
  then show ?thesis using r by blast
qed

lemma ProbeLoop_files:
  assumes "ProbeLoop a u dns_ms es items o0 = Some (rc, items', o1)" "Su_calloc u" "\<forall>t \<in> set items. TgStats t = Stats_Init"
  defines "items0 \<equiv> prepared a dns_ms items"
  shows "\<exists>evs. length items' = length items \<and> (\<forall>i < length items. accounts (events_of i evs) (items0 ! i) (items' ! i)) \<and>
    (\<forall>e \<in> set evs. Ev_index e < length items \<and> ResolveOk (items ! Ev_index e) \<and> Ev_result e \<noteq> PINGDD_INTERRUPTED) \<and>
    out_csv o1 = out_csv o0 @ (if CSVOutput a \<and> Su_csv u then concat (map (event_csv items0) (filter succeeded evs)) else []) \<and>
    out_json o1 = out_json o0 @ (if JsonFile a \<and> Su_json u
      then concat (map PrintTargetJson items0) @ concat (map (event_json items0) evs) @ concat (map (summary_json (Su_sort u)) items')
      else []) \<and>
    (length evs < 2 ^ 64 \<longrightarrow> rc = (if evs \<noteq> [] \<and> (\<forall>e \<in> set evs. \<not> succeeded e) then 1 else 0))"
proof -
  let ?c = "main_ctx a u dns_ms items"
  obtain evs o2 where e: "logged ?c items0 (probe_header ?c (Su_time u) items0 o0) evs items' o2"
      "o1 = probe_footer ?c (Su_interrupted u) (Su_sort u) items' o2" "rc = exit_status items'"
    using ProbeLoop_logged[OF assms(1,2)] by (auto simp: items0_def)
  have len: "length items0 = length items" by (simp add: items0_def prepared_def)
  have rt: "i \<in> set (cx_rt ?c) \<Longrightarrow> i < length items \<and> ResolveOk (items ! i)" for i
    by (auto simp: main_ctx_def probe_ctx_def resolved_indices_def prepared_def prepare_target_def Let_def)
  have sel: "cx_args ?c = a" "cx_csv ?c = Su_csv u" "cx_json ?c = Su_json u" 
    by (simp_all add: main_ctx_def probe_ctx_def Let_def)
  have fresh: "\<forall>t \<in> set items0. Attempts (TgStats t) = 0 \<and> Connects (TgStats t) = 0"
    using assms(3) by (auto simp: items0_def prepared_def prepare_target_def Stats_Init_def Stats_Reset_def)
  have "length evs < 2 ^ 64 \<longrightarrow> rc = (if evs \<noteq> [] \<and> (\<forall>e \<in> set evs. \<not> succeeded e) then 1 else 0)"
    using exit_status_events[OF e(1)] main_ctx_ok fresh e(3) by (simp add: items0_def)
  then show ?thesis
    using e(1,2) rt sel len by (intro exI[of _ evs]) (auto simp: logged_def files_agree_def header_files footer_files)
qed

section \<open>One target, one probe\<close>

definition demo_items :: "probe_target_t list" where
  "demo_items = [(new_target ''h'' 443 IPPROTO_TCP)\<lparr>ResolveOk := True\<rparr>]"

definition demo_time :: timespec where "demo_time = \<lparr>tv_sec = 0, tv_nsec = 0\<rparr>"

definition demo_tm :: tm where
  "demo_tm = \<lparr>tm_year = 124, tm_mon = 0, tm_mday = 1, tm_hour = 0, tm_min = 0, tm_sec = 0\<rparr>"

definition demo_env :: cycle_env where
  "demo_env = \<lparr>Ce_interrupted = False, Ce_now = demo_time, Ce_connect = (\<lambda>i h t. (SUCCESS, Fin 1, None, 64)),
     Ce_order = [0], Ce_stop = (\<lambda>i. False), Ce_time = (\<lambda>i. demo_tm), Ce_alloc = (\<lambda>i. True), Ce_after = False,
     Ce_later = demo_time\<rparr>"

definition demo_setup :: probe_setup where
  "demo_setup = \<lparr>Su_color = False, Su_calloc = True, Su_pool = True, Su_csv = True, Su_json = True, Su_zone = (0, 0),
     Su_time = demo_tm, Su_start = demo_time, Su_interrupted = False, Su_sort = (\<lambda>n. True)\<rparr>"

definition demo_args :: arguments_t where
  "demo_args = InitDefaults\<lparr>Count := 1, Deadline := 0, Concurrent := True, CSVOutput := True\<rparr>"

definition demo_out :: outputs where "demo_out = \<lparr>out_stdout = [], out_csv = [], out_json = []\<rparr>"

lemma demo_rt: "cx_rt (main_ctx demo_args demo_setup d demo_items) = [0]"
  by (simp add: main_ctx_def probe_ctx_def resolved_indices_def prepared_def prepare_target_def demo_items_def Let_def)

lemma demo_undisturbed: "undisturbed (main_ctx demo_args demo_setup d demo_items) items demo_env"
  unfolding undisturbed_def demo_rt by (simp add: demo_env_def outcome_def)

lemma demo_ends: "\<exists>r. ProbeLoop demo_args demo_setup d [demo_env] demo_items demo_out = Some r"
proof -
  have "\<exists>st. probe_loop (main_ctx demo_args demo_setup d demo_items) (total_timer demo_setup) [demo_env]
      (loop_start demo_args demo_setup d demo_items demo_out) = Some st"
    using main_loop_runs[of demo_args 1 "[demo_env]" demo_setup d demo_items demo_out] demo_undisturbed
    by (auto simp: demo_args_def)
  then show ?thesis by (auto simp: ProbeLoop_unfold demo_setup_def)
qed

section \<open>Properties\<close>

text \<open>C1: A run of the probe loop is a log of results. What each target has at the end is what its own
  results make of it (one attempt each, every attempt a connect or a failure, consecutive numbers, the
  diagnostics of exactly this history); the JSON file gets one line for each result and the CSV file one row
  for each success, in the same order, between the header and the summary; and the exit status is 1 exactly
  when there was a result and no success.\<close>

theorem ProbeLoop_log:
  assumes "ProbeLoop a u dns_ms es items o0 = Some (rc, items', o1)" "Su_calloc u"
    "\<forall>t \<in> set items. TgStats t = Stats_Init"
  shows "\<exists>evs o2.
    logged (main_ctx a u dns_ms items) (prepared a dns_ms items)
      (probe_header (main_ctx a u dns_ms items) (Su_time u) (prepared a dns_ms items) o0) evs items' o2 \<and>
    o1 = probe_footer (main_ctx a u dns_ms items) (Su_interrupted u) (Su_sort u) items' o2 \<and>
    (\<forall>t \<in> set items'. Attempts (TgStats t) = Connects (TgStats t) + Failures (TgStats t)) \<and>
    (length evs < 2 ^ 64 \<longrightarrow> rc = (if evs \<noteq> [] \<and> (\<forall>e \<in> set evs. \<not> succeeded e) then 1 else 0))"
proof -
  let ?c = "main_ctx a u dns_ms items" and ?items = "prepared a dns_ms items"
  obtain evs o2 where evs: "logged ?c ?items (probe_header ?c (Su_time u) ?items o0) evs items' o2"
    and r: "o1 = probe_footer ?c (Su_interrupted u) (Su_sort u) items' o2" "rc = exit_status items'"
    using ProbeLoop_logged[OF assms(1,2)] by blast
  have fresh: "TgStats t = Stats_Init" if "t \<in> set ?items" for t
    using assms(3) that by (auto simp: prepared_def)
  have "Attempts (TgStats t) = Connects (TgStats t) + Failures (TgStats t)" if t: "t \<in> set items'" for t
    using logged_balance[OF evs _ t] fresh by (simp add: Stats_Init_def Stats_Reset_def)
  moreover have "length evs < 2 ^ 64 \<longrightarrow> rc = (if evs \<noteq> [] \<and> (\<forall>e \<in> set evs. \<not> succeeded e) then 1 else 0)"
    using exit_status_events[OF evs main_ctx_ok] fresh r by (simp add: Stats_Init_def Stats_Reset_def)
  ultimately show ?thesis using evs r by blast
qed

theorem ProbeLoop_log_witness:
  "\<exists>rc items' o1. ProbeLoop demo_args demo_setup (Fin 0) [demo_env] demo_items demo_out = Some (rc, items', o1) \<and>
     (\<forall>t \<in> set items'. Attempts (TgStats t) = Connects (TgStats t) + Failures (TgStats t))"
proof -
  obtain rc items' o1 where r: "ProbeLoop demo_args demo_setup (Fin 0) [demo_env] demo_items demo_out = Some (rc, items', o1)"
    using demo_ends[of "Fin 0"] by auto
  then show ?thesis
    using ProbeLoop_log[OF r] by (auto simp: demo_setup_def demo_items_def new_target_def Let_def)
qed

text \<open>C9: A run that nothing disturbs (no interrupt, no deadline) and that is asked for \<open>n\<close> probes makes
  exactly \<open>n\<close> for each resolved target, in turn or by the pool, and none for the others: it ends within \<open>n\<close>
  cycles, the results a target is charged with are the answers of \<open>Connect\<close> of the \<open>n\<close> cycles in order, and
  it has slept \<open>n - 1\<close> times.\<close>

theorem ProbeLoop_counts:
  assumes "Count a = int n" "0 < n" "n < 2 ^ 31" "Deadline a = 0" "n \<le> length es"
    "\<forall>e \<in> set es. undisturbed (main_ctx a u dns_ms items) (prepared a dns_ms items) e"
  shows "\<exists>st evs. probe_loop (main_ctx a u dns_ms items) (total_timer u) es (loop_start a u dns_ms items o0) = Some st \<and>
    Ls_cycle st = of_nat n \<and> length (Ls_sleeps st) = n - 1 \<and>
    logged (main_ctx a u dns_ms items) (prepared a dns_ms items) (Ls_out (loop_start a u dns_ms items o0)) evs
      (Ls_items st) (Ls_out st) \<and>
    (\<forall>i < length items. map (\<lambda>e. (Ev_result e, Ev_rtt e)) (events_of i evs) =
       (if ResolveOk (items ! i)
        then map (\<lambda>e. let r = outcome (main_ctx a u dns_ms items) e (prepared a dns_ms items) i in (fst r, fst (snd r)))
               (take n es)
        else []))"
proof -
  let ?c = "main_ctx a u dns_ms items" and ?items = "prepared a dns_ms items"
  obtain st evs where r: "probe_loop ?c (total_timer u) es (loop_start a u dns_ms items o0) = Some st"
    "Ls_cycle st = of_nat n" "length (Ls_sleeps st) = n - 1"
    "logged ?c ?items (Ls_out (loop_start a u dns_ms items o0)) evs (Ls_items st) (Ls_out st)"
    "\<forall>i \<in> set (cx_rt ?c). map (\<lambda>e. (Ev_result e, Ev_rtt e)) (events_of i evs) =
       map (\<lambda>e. (fst (outcome ?c e ?items i), fst (snd (outcome ?c e ?items i)))) (take n es)"
    using main_loop_runs[OF assms] by blast
  have rt: "i \<in> set (cx_rt ?c) \<longleftrightarrow> ResolveOk (items ! i)" if "i < length items" for i
    using that by (auto simp: main_ctx_def probe_ctx_def resolved_indices_def prepared_def Let_def)
  have "events_of i evs = []" if "i < length items" "\<not> ResolveOk (items ! i)" for i
    using r(4) rt[OF that(1)] that(2) by (auto simp: logged_def events_of_def filter_empty_conv)
  then show ?thesis using r rt by (intro exI[of _ st] exI[of _ evs]) (simp add: Let_def)
qed

theorem ProbeLoop_counts_witness:
  "\<exists>st. probe_loop (main_ctx demo_args demo_setup (Fin 0) demo_items) (total_timer demo_setup) [demo_env]
       (loop_start demo_args demo_setup (Fin 0) demo_items demo_out) = Some st \<and> Ls_cycle st = of_nat 1 \<and> length (Ls_sleeps st) = 0"
  using ProbeLoop_counts[of demo_args 1 "[demo_env]" demo_setup "Fin 0" demo_items demo_out] demo_undisturbed
  by (auto simp: demo_args_def)



end
