(* ===== verification/Http.thy ===== *)
theory Http
  imports Probing
begin

text \<open>
  \<open>http.c\<close> and \<open>RunHttpMode\<close> of \<open>main.c\<close>: the URL parser, the connection with its sockets, the TLS
  handshake, the request, the loop that reads the status line, one probe as a whole and the loop of the
  HTTP mode. What the system and the TLS library answer to the calls of one probe is a record; where a loop
  takes one answer after another it has a list of them, and no value when it would wait for one more.
\<close>

section \<open>URLs\<close>

record url_t =
  Https :: bool
  UrlHost :: cstring
  UrlPort :: u16
  UrlPath :: cstring

definition url_scheme :: "cstring \<Rightarrow> (bool \<times> u16 \<times> cstring) option" where
  "url_scheme url =
     (if take 8 url = ''https://'' then Some (True, 443, drop 8 url)
      else if take 7 url = ''http://'' then Some (False, 80, drop 7 url)
      else None)"

definition url_port :: "cstring \<Rightarrow> u16 option" where
  "url_port s = (let pv = lp_value (strtol s) in if pv < 1 \<or> pv > 65535 then None else Some (uint16 pv))"

text \<open>The host field: a literal in brackets, or a name, each with an optional port.\<close>

definition url_host :: "cstring \<Rightarrow> u16 \<Rightarrow> (cstring \<times> u16) option" where
  "url_host h port =
     (if hd h = CHR ''[''
      then (case strchr (CHR '']'') h of
              None \<Rightarrow> None
            | Some (inner, rest) \<Rightarrow>
                (if rest \<noteq> [] \<and> hd rest = CHR '':''
                 then map_option (\<lambda>p. (tl inner, p)) (url_port (tl rest))
                 else Some (tl inner, port)))
      else (case strrchr (CHR '':'') h of
              None \<Rightarrow> Some (h, port)
            | Some (name, digits) \<Rightarrow> map_option (\<lambda>p. (name, p)) (url_port digits)))"

abbreviation path_start :: "char \<Rightarrow> bool" where
  "path_start c \<equiv> c = CHR ''/'' \<or> c = CHR ''?''"

definition ParseUrl :: "cstring \<Rightarrow> url_t option" where
  "ParseUrl url =
     (case url_scheme url of
        None \<Rightarrow> None
      | Some (https, port, p) \<Rightarrow>
          (let h = takeWhile (\<lambda>c. \<not> path_start c) p; path = dropWhile (\<lambda>c. \<not> path_start c) p
           in if h = [] \<or> length h \<ge> 256 then None
              else (case url_host h port of
                      None \<Rightarrow> None
                    | Some (host, port') \<Rightarrow>
                        Some \<lparr>Https = https, UrlHost = host, UrlPort = port',
                              UrlPath = (if path = [] then ''/'' else bounded_copy 1024 path)\<rparr>)))"

section \<open>The connection\<close>

text \<open>What happens with one address of \<open>getaddrinfo\<close>: whether there is a socket, what \<open>connect\<close> says,
  whether \<open>poll\<close> reports it in time and the pending error is none, and the text of the address.\<close>

datatype conn_answer = Conn_now | Conn_in_progress | Conn_failed

record addr_try =
  At_socket :: bool
  At_connect :: conn_answer
  At_writable :: bool
  At_no_error :: bool
  At_text :: cstring

definition try_connects :: "addr_try \<Rightarrow> bool" where
  "try_connects a \<longleftrightarrow> (case At_connect a of
     Conn_now \<Rightarrow> True | Conn_in_progress \<Rightarrow> At_writable a \<and> At_no_error a | Conn_failed \<Rightarrow> False)"

text \<open>The calls on sockets: a socket is named by the index of its address.\<close>

datatype sock_call = Opened nat | Closed nat

fun connect_addrs :: "nat \<Rightarrow> addr_try list \<Rightarrow> (nat \<times> cstring) option \<times> sock_call list" where
  "connect_addrs i [] = (None, [])"
| "connect_addrs i (a # as) =
     (if \<not> At_socket a then connect_addrs (i + 1) as
      else if try_connects a then (Some (i, bounded_copy 64 (At_text a)), [Opened i])
      else (case connect_addrs (i + 1) as of (r, calls) \<Rightarrow> (r, Opened i # Closed i # calls)))"

definition TcpConnect ::
  "addr_try list option \<Rightarrow> url_t \<Rightarrow> (cstring + nat \<times> cstring) \<times> sock_call list" where
  "TcpConnect addrs u =
     (case addrs of
        None \<Rightarrow> (Inl (bounded_copy 160 (''cannot resolve '' @ UrlHost u)), [])
      | Some as \<Rightarrow>
          (case connect_addrs 0 as of
             (None, calls) \<Rightarrow> (Inl ''connection failed'', calls)
           | (Some r, calls) \<Rightarrow> (Inr r, calls)))"

section \<open>TLS\<close>

datatype tls_answer = Tls_done | Tls_again | Tls_failed int

text \<open>The callbacks of the TLS library: what \<open>recv\<close> and \<open>send\<close> say, and what the library is told.\<close>

datatype bio_result = Bio_bytes nat | Want_read | Want_write | Internal_error

definition BioRecv :: "errno + nat \<Rightarrow> bio_result" where
  "BioRecv r = (case r of Inr n \<Rightarrow> Bio_bytes n | Inl e \<Rightarrow> if e = EAGAIN then Want_read else Internal_error)"

definition BioSend :: "errno + nat \<Rightarrow> bio_result" where
  "BioSend r = (case r of Inr n \<Rightarrow> Bio_bytes n | Inl e \<Rightarrow> if e = EAGAIN then Want_write else Internal_error)"

text \<open>The answers of the set-up calls and of the calls of \<open>mbedtls_ssl_handshake\<close>, one after the other.\<close>

record tls_env =
  Te_seed :: int
  Te_defaults :: int
  Te_setup :: int
  Te_handshake :: "tls_answer list"
  Te_strerror :: "int \<Rightarrow> cstring"
  Te_version :: cstring
  Te_cipher :: cstring

fun handshake_loop :: "(int \<Rightarrow> cstring) \<Rightarrow> tls_answer list \<Rightarrow> (cstring option) option" where
  "handshake_loop strerror [] = None"
| "handshake_loop strerror (Tls_done # as) = Some None"
| "handshake_loop strerror (Tls_again # as) = handshake_loop strerror as"
| "handshake_loop strerror (Tls_failed ret # as) =
     Some (Some (bounded_copy 160 (''TLS handshake failed: '' @ bounded_copy 96 (strerror ret))))"

definition TlsHandshake :: "tls_env \<Rightarrow> (cstring option) option" where
  "TlsHandshake t =
     (if Te_seed t \<noteq> 0 then Some (Some ''TLS RNG seed failed'')
      else if Te_defaults t \<noteq> 0 then Some (Some ''TLS config failed'')
      else if Te_setup t \<noteq> 0 then Some (Some ''TLS setup failed'')
      else handshake_loop (Te_strerror t) (Te_handshake t))"

section \<open>Request and answer\<close>

abbreviation crlf :: cstring where "crlf \<equiv> [CHR 0x0D, CHR 0x0A]"

definition http_request :: "cstring \<Rightarrow> url_t \<Rightarrow> cstring" where
  "http_request meth u =
     bounded_copy 1600 (meth @ '' '' @ UrlPath u @ '' HTTP/1.1'' @ crlf @ ''Host: '' @ UrlHost u @ crlf @
       ''User-Agent: PingDD'' @ crlf @ ''Accept: */*'' @ crlf @ ''Connection: close'' @ crlf @ crlf)"

text \<open>A send takes some bytes, must be repeated (TLS only) or fails.\<close>

datatype io_answer = Io_bytes nat | Io_again | Io_failed

fun ConnSendAll :: "bool \<Rightarrow> io_answer list \<Rightarrow> nat \<Rightarrow> nat \<Rightarrow> bool option" where
  "ConnSendAll tls as len sent =
     (if sent \<ge> len then Some True
      else case as of
          [] \<Rightarrow> None
        | a # as' \<Rightarrow>
            (case a of
               Io_again \<Rightarrow> if tls then ConnSendAll tls as' len sent else Some False
             | Io_failed \<Rightarrow> Some False
             | Io_bytes n \<Rightarrow> if n = 0 then Some False else ConnSendAll tls as' len (sent + n)))"

datatype recv_answer = Recv_bytes "char list" | Recv_again | Recv_stop

fun has_crlf :: "cstring \<Rightarrow> bool" where
  "has_crlf (c # d # cs) = (c = CHR 0x0D \<and> d = CHR 0x0A \<or> has_crlf (d # cs))"
| "has_crlf _ = False"

definition resp_size :: nat where "resp_size = 2048"

fun read_status ::
  "bool \<Rightarrow> u32 \<Rightarrow> pingdd_timer_t \<Rightarrow> (timespec \<times> recv_answer) list \<Rightarrow> char list \<Rightarrow> (char list) option" where
  "read_status tls timeout_ms deadline as resp =
     (if \<not> length resp < resp_size - 1 then Some resp
      else case as of
          [] \<Rightarrow> None
        | (now, a) # as' \<Rightarrow>
            (if flt (f64_of_nat (unat timeout_ms)) (fmul (fst (Timer_Stop now deadline)) (Fin 1000)) then Some resp
             else (case a of
                 Recv_again \<Rightarrow> if tls then read_status tls timeout_ms deadline as' resp else Some resp
               | Recv_stop \<Rightarrow> Some resp
               | Recv_bytes bs \<Rightarrow>
                   (if bs = [] then Some resp
                    else let resp1 = resp @ take (resp_size - 1 - length resp) bs
                         in if has_crlf (cstr resp1) then Some resp1
                            else read_status tls timeout_ms deadline as' resp1))))"

declare read_status.simps [simp del]

lemma read_status_bytes:
  "length resp < 2047 \<Longrightarrow> c \<noteq> [] \<Longrightarrow>
   \<not> flt (f64_of_nat (unat timeout)) (fmul (fst (Timer_Stop t deadline)) (Fin 1000)) \<Longrightarrow>
   read_status tls timeout deadline ((t, Recv_bytes c) # as) resp =
     (let resp1 = resp @ take (2047 - length resp) c
      in if has_crlf (cstr resp1) then Some resp1 else read_status tls timeout deadline as resp1)"
  by (subst read_status.simps) (simp add: resp_size_def)

definition parse_status :: "char list \<Rightarrow> int" where
  "parse_status resp =
     (let s = cstr resp
      in if length resp \<ge> 12 \<and> take 5 s = ''HTTP/''
         then (case strchr (CHR '' '') s of None \<Rightarrow> 0 | Some (a, b) \<Rightarrow> int32 (lp_value (strtol b)))
         else 0)"

section \<open>One probe\<close>

record http_cfg_t =
  Method :: cstring
  ExpectStatus :: int
  TimeoutMs :: u32

record http_result_t =
  Status :: int
  ConnectMs :: f64
  TotalMs :: f64
  Tls :: bool
  TlsVersion :: cstring
  Cipher :: cstring
  Ip :: cstring
  Error :: cstring

definition blank_result :: http_result_t where
  "blank_result = \<lparr>Status = 0, ConnectMs = Fin 0, TotalMs = Fin 0, Tls = False, TlsVersion = [], Cipher = [],
     Ip = [], Error = []\<rparr>"

record http_env =
  He_addrs :: "addr_try list option"  \<comment> \<open>\<open>None\<close> when \<open>getaddrinfo\<close> fails\<close>
  He_tls :: tls_env
  He_sends :: "io_answer list"
  He_recvs :: "(timespec \<times> recv_answer) list"
  He_start :: timespec
  He_connect :: timespec
  He_connected :: timespec
  He_reading :: timespec
  He_end :: timespec

text \<open>What a probe leaves behind: its calls on sockets, whether the TLS contexts were initialised and
  freed, and the request it sent.\<close>

record http_trace =
  Ht_calls :: "sock_call list"
  Ht_tls_init :: bool
  Ht_tls_free :: bool
  Ht_request :: cstring

definition zero_timer :: pingdd_timer_t where
  "zero_timer = \<lparr>hasValue = False, start = \<lparr>tv_sec = 0, tv_nsec = 0\<rparr>\<rparr>"

text \<open>\<open>Timer_Start\<close> at one reading of the clock and \<open>Timer_Stop\<close> at another, in milliseconds.\<close>

definition span_ms :: "timespec \<Rightarrow> timespec \<Rightarrow> f64" where
  "span_ms t0 t1 = fmul (fst (Timer_Stop t1 (Timer_Start t0 zero_timer))) (Fin 1000)"

definition ConnClose :: "bool \<Rightarrow> nat \<Rightarrow> http_trace \<Rightarrow> http_trace" where
  "ConnClose tls fd tr =
     (let tr1 = (if tls then tr\<lparr>Ht_tls_free := True\<rparr> else tr) in tr1\<lparr>Ht_calls := Ht_calls tr1 @ [Closed fd]\<rparr>)"

definition finish_probe ::
  "http_cfg_t \<Rightarrow> url_t \<Rightarrow> http_env \<Rightarrow> bool \<Rightarrow> nat \<Rightarrow> http_result_t \<Rightarrow> http_trace \<Rightarrow> (int \<times> http_result_t \<times> http_trace) option" where
  "finish_probe cfg u e tls fd out tr =
     (let req = http_request (Method cfg) u
      in (case ConnSendAll tls (He_sends e) (length req) 0 of
            None \<Rightarrow> None
          | Some False \<Rightarrow> Some (PINGDD_SOCKET_FAILURE, out\<lparr>Error := ''request send failed''\<rparr>, ConnClose tls fd tr)
          | Some True \<Rightarrow>
              (case read_status tls (TimeoutMs cfg) (Timer_Start (He_reading e) zero_timer) (He_recvs e) [] of
                 None \<Rightarrow> None
               | Some resp \<Rightarrow>
                   (let out1 = out\<lparr>TotalMs := span_ms (He_start e) (He_end e)\<rparr>;
                        tr1 = ConnClose tls fd (tr\<lparr>Ht_request := req\<rparr>); status = parse_status resp
                    in if status = 0
                       then Some (PINGDD_SOCKET_FAILURE,
                              (if Error out1 = [] then out1\<lparr>Error := ''no HTTP status received''\<rparr> else out1), tr1)
                       else Some (SUCCESS, out1\<lparr>Status := status\<rparr>, tr1)))))"

definition Http_Probe ::
  "http_cfg_t \<Rightarrow> cstring \<Rightarrow> http_env \<Rightarrow> (int \<times> http_result_t \<times> http_trace) option" where
  "Http_Probe cfg url e =
     (let tr = \<lparr>Ht_calls = [], Ht_tls_init = False, Ht_tls_free = False, Ht_request = []\<rparr>
      in (case ParseUrl url of
            None \<Rightarrow> Some (PINGDD_INVALID_ARGS,
                      blank_result\<lparr>Error := ''malformed URL (use http(s)://host[:port][/path])''\<rparr>, tr)
          | Some u \<Rightarrow>
              (let out = blank_result\<lparr>ConnectMs := span_ms (He_connect e) (He_connected e)\<rparr>
               in (case TcpConnect (He_addrs e) u of
                     (Inl err, calls) \<Rightarrow> Some (PINGDD_SOCKET_FAILURE, out\<lparr>Error := err\<rparr>, tr\<lparr>Ht_calls := calls\<rparr>)
                   | (Inr (fd, ip), calls) \<Rightarrow>
                       (let out1 = out\<lparr>Ip := ip\<rparr>; tr1 = tr\<lparr>Ht_calls := calls\<rparr>
                        in if \<not> Https u then finish_probe cfg u e False fd out1 tr1
                           else let tr2 = tr1\<lparr>Ht_tls_init := True\<rparr>
                                in (case TlsHandshake (He_tls e) of
                                      None \<Rightarrow> None
                                    | Some (Some err) \<Rightarrow>
                                        Some (PINGDD_SOCKET_FAILURE, out1\<lparr>Error := err\<rparr>, ConnClose False fd tr2)
                                    | Some None \<Rightarrow>
                                        finish_probe cfg u e True fd
                                          (out1\<lparr>Tls := True, TlsVersion := bounded_copy 16 (Te_version (He_tls e)),
                                                Cipher := bounded_copy 64 (Te_cipher (He_tls e))\<rparr>) tr2))))))"

section \<open>The HTTP mode\<close>

record http_run =
  Hr_stats :: stats_t
  Hr_ok :: ulong
  Hr_cycle :: ulong
  Hr_out :: cstring
  Hr_sleeps :: "timespec list"

definition good_result :: "http_cfg_t \<Rightarrow> int \<Rightarrow> http_result_t \<Rightarrow> bool" where
  "good_result cfg r res \<longleftrightarrow> r = SUCCESS \<and>
     (if ExpectStatus cfg = 0 then 200 \<le> Status res \<and> Status res < 400 else Status res = ExpectStatus cfg)"

definition http_json_line :: "arguments_t \<Rightarrow> ulong \<Rightarrow> http_result_t \<Rightarrow> bool \<Rightarrow> cstring" where
  "http_json_line a cycle res good =
     ''{\"seq\":'' @ lu cycle @ '',\"url\":\"'' @
     JsonEscape (case HttpUrl a of None \<Rightarrow> [] | Some url \<Rightarrow> url) 1100 @ ''\",\"ip\":\"'' @ JsonEscape (Ip res) 80 @
     ''\",\"status\":'' @ fmt_int (Status res) @ '',\"tls\":'' @ json_bool (Tls res) @
     '',\"tls_version\":\"'' @ TlsVersion res @ ''\",\"cipher\":\"'' @ Cipher res @
     ''\",\"connect_ms\":'' @ fmt_fixed 3 (ConnectMs res) @ '',\"total_ms\":'' @ fmt_fixed 3 (TotalMs res) @
     '',\"ok\":'' @ json_bool good @
     (if Error res \<noteq> [] then '',\"error\":\"'' @ JsonEscape (Error res) 200 @ ''\"'' else []) @
     ''}'' @ [newline]"

definition http_human_line :: "bool \<Rightarrow> ulong \<Rightarrow> int \<Rightarrow> http_result_t \<Rightarrow> bool \<Rightarrow> cstring" where
  "http_human_line uc cycle r res good =
     (let buf = bounded_copy 512
      in (if r = SUCCESS
          then FormattedPrint uc (if good then PRINT_GREEN else PRINT_YELLOW)
                 (buf (''seq='' @ lu cycle @ '' '' @ Ip res @ '' status='' @ fmt_int (Status res) @ '' time='' @
                    fmt_fixed 2 (TotalMs res) @ ''ms connect='' @ fmt_fixed 2 (ConnectMs res) @ ''ms'')) @
               (if Tls res
                then FormattedPrint uc PRINT_BLUE (buf ('' ['' @ TlsVersion res @ '' '' @ Cipher res @ '']''))
                else []) @ [newline]
          else FormattedPrint uc PRINT_RED (buf (''seq='' @ lu cycle @ '' failed: '' @ Error res @ [newline]))) @
         ResetColor uc)"

definition http_count :: "http_cfg_t \<Rightarrow> bool \<Rightarrow> int \<Rightarrow> http_result_t \<Rightarrow> http_run \<Rightarrow> http_run" where
  "http_count cfg alloc r res h =
     (let s = (Hr_stats h)\<lparr>Attempts := Attempts (Hr_stats h) + 1\<rparr>
      in if good_result cfg r res
         then h\<lparr>Hr_ok := Hr_ok h + 1,
                Hr_stats := Stats_AddSample alloc (s\<lparr>Connects := Connects s + 1\<rparr>) (fdiv (TotalMs res) (Fin 1000))\<rparr>
         else h\<lparr>Hr_stats := s\<lparr>Failures := Failures s + 1\<rparr>\<rparr>)"

text \<open>One round: \<open>g_interrupted\<close> at the test of the loop, the surroundings of the probe and of the sample.\<close>

fun http_loop ::
  "bool \<Rightarrow> arguments_t \<Rightarrow> http_cfg_t \<Rightarrow> (bool \<times> http_env \<times> bool) list \<Rightarrow> http_run \<Rightarrow> http_run option" where
  "http_loop uc a cfg [] h = None"
| "http_loop uc a cfg ((interrupted, e, alloc) # es) h =
     (if interrupted \<or> \<not> count_left a (Hr_cycle h) then Some h
      else (case Http_Probe cfg (case HttpUrl a of None \<Rightarrow> [] | Some url \<Rightarrow> url) e of
              None \<Rightarrow> None
            | Some (r, res, tr) \<Rightarrow>
                (let h1 = http_count cfg alloc r res h; good = good_result cfg r res;
                     text1 = (if Json a then http_json_line a (Hr_cycle h) res good
                              else if \<not> Quiet a \<and> \<not> Prometheus a then http_human_line uc (Hr_cycle h) r res good
                              else []);
                     h2 = h1\<lparr>Hr_out := Hr_out h1 @ text1, Hr_cycle := Hr_cycle h1 + 1\<rparr>
                 in http_loop uc a cfg es
                      (if count_left a (Hr_cycle h2)
                       then h2\<lparr>Hr_sleeps := Hr_sleeps h2 @ [delay_ms (if Rate a > 0 then Rate a else 50)]\<rparr>
                       else h2))))"

definition http_cfg :: "arguments_t \<Rightarrow> http_cfg_t" where
  "http_cfg a = \<lparr>Method = bounded_copy 8 (HttpMethod a), ExpectStatus = HttpStatus a, TimeoutMs = Timeout a\<rparr>"

definition RunHttpMode :: "bool \<Rightarrow> arguments_t \<Rightarrow> (bool \<times> http_env \<times> bool) list \<Rightarrow> (int \<times> cstring) option" where
  "RunHttpMode uc a es =
     (let cfg = http_cfg a; buf = bounded_copy 512;
          head = (if \<not> Json a \<and> \<not> Prometheus a
                  then FormattedPrint uc PRINT_BLUE (buf (''PingDD v2.1.0'' @ [newline])) @
                       FormattedPrint uc PRINT_YELLOW (buf (''HTTP probe '' @ Method cfg @ '' '' @
                         (case HttpUrl a of None \<Rightarrow> [] | Some url \<Rightarrow> url) @ [newline])) @ ResetColor uc
                  else [])
      in (case http_loop uc a cfg es \<lparr>Hr_stats = Stats_Init, Hr_ok = 0, Hr_cycle = 0, Hr_out = head, Hr_sleeps = []\<rparr> of
            None \<Rightarrow> None
          | Some h \<Rightarrow>
              Some (if Hr_ok h > 0 then 0 else 1,
                    Hr_out h @
                    (if \<not> Json a \<and> \<not> Prometheus a
                     then FormattedPrint uc PRINT_BLUE
                            (buf ([newline] @ lu (Attempts (Hr_stats h)) @ '' sent, '' @ lu (Hr_ok h) @ '' ok, '' @
                               lu (Failures (Hr_stats h)) @ '' failed; avg '' @
                               fmt_fixed 2 (fmul (Stats_Average (Hr_stats h)) (Fin 1000)) @ '' ms'' @ [newline])) @
                          ResetColor uc
                     else []))))"

section \<open>URLs that are read back\<close>

lemma url_port_dec:
  assumes "1 \<le> p" "p \<le> 65535"
  shows "url_port (dec p) = Some (uint16 (int p))"
  using assms strtol_dec[of p] by (simp add: url_port_def)

lemma path_split:
  assumes "\<And>c. c \<in> set auth \<Longrightarrow> \<not> path_start c" "path = [] \<or> path_start (hd path)"
  shows "takeWhile (\<lambda>c. \<not> path_start c) (auth @ path) = auth" "dropWhile (\<lambda>c. \<not> path_start c) (auth @ path) = path"
proof -
  have "takeWhile (\<lambda>c. \<not> path_start c) path = []" "dropWhile (\<lambda>c. \<not> path_start c) path = path"
    using assms(2) by (cases path; auto)+
  then show "takeWhile (\<lambda>c. \<not> path_start c) (auth @ path) = auth" "dropWhile (\<lambda>c. \<not> path_start c) (auth @ path) = path"
    using assms(1) by (simp_all add: takeWhile_append2 dropWhile_append2)
qed

lemma ParseUrl_auth:
  assumes "url_scheme (scheme @ auth @ path) = Some (https, port, auth @ path)"
    "\<And>c. c \<in> set auth \<Longrightarrow> \<not> path_start c" "path = [] \<or> path_start (hd path)" "length path < 1024"
    "auth \<noteq> []" "length auth < 256" "url_host auth port = Some (host, port')"
  shows "ParseUrl (scheme @ auth @ path) =
    Some \<lparr>Https = https, UrlHost = host, UrlPort = port', UrlPath = (if path = [] then ''/'' else path)\<rparr>"
  using assms path_split[OF assms(2,3)] by (simp add: ParseUrl_def Let_def)

lemma url_host_name:
  assumes "host \<noteq> []" "set host \<inter> {CHR '':'', CHR ''[''} = {}"
  shows "url_host host port = Some (host, port)"
    "1 \<le> p \<Longrightarrow> p \<le> 65535 \<Longrightarrow> url_host (host @ '':'' @ dec p) port = Some (host, uint16 (int p))"
proof -
  have h: "hd host \<noteq> CHR ''[''" using assms by (cases host) auto
  show "url_host host port = Some (host, port)"
    using h assms(2) by (auto simp: url_host_def strrchr_None[THEN iffD2])
  have "CHR '':'' \<notin> set (dec p)" using dec_no_char[of "CHR '':''" p] separators_not_digits by simp
  then show "1 \<le> p \<Longrightarrow> p \<le> 65535 \<Longrightarrow> url_host (host @ '':'' @ dec p) port = Some (host, uint16 (int p))"
    using h assms(1) by (simp add: url_host_def url_port_dec)
qed

lemma url_host_literal:
  assumes "CHR '']'' \<notin> set lit"
  shows "url_host (''['' @ lit @ '']'') port = Some (lit, port)"
    "1 \<le> p \<Longrightarrow> p \<le> 65535 \<Longrightarrow> url_host (''['' @ lit @ '']:'' @ dec p) port = Some (lit, uint16 (int p))"
  using assms strchr_append[of "CHR '']''" "''['' @ lit" "[]"] strchr_append[of "CHR '']''" "''['' @ lit" "CHR '':'' # dec p"]
  by (simp_all add: url_host_def url_port_dec)

text \<open>The forms of the authority that the program documents, with what they stand for.\<close>

fun authority :: "cstring \<Rightarrow> bool \<Rightarrow> nat option \<Rightarrow> cstring" where
  "authority host True None = ''['' @ host @ '']''"
| "authority host True (Some p) = ''['' @ host @ '']:'' @ dec p"
| "authority host False None = host"
| "authority host False (Some p) = host @ '':'' @ dec p"

definition host_text_ok :: "bool \<Rightarrow> cstring \<Rightarrow> bool" where
  "host_text_ok literal host \<longleftrightarrow> host \<noteq> [] \<and> set host \<inter> {CHR ''/'', CHR ''?''} = {} \<and>
     (if literal then CHR '']'' \<notin> set host else set host \<inter> {CHR '':'', CHR ''[''} = {})"

lemma url_host_authority:
  assumes "host_text_ok literal host" "\<And>p. port = Some p \<Longrightarrow> 1 \<le> p \<and> p \<le> 65535"
  shows "url_host (authority host literal port) d = Some (host, case port of None \<Rightarrow> d | Some p \<Rightarrow> uint16 (int p))"
  using assms url_host_name[of host] url_host_literal[of host]
  by (cases literal; cases port) (auto simp: host_text_ok_def)

lemma authority_chars:
  assumes "host_text_ok literal host" "c \<in> set (authority host literal port)"
  shows "\<not> path_start c"
proof -
  have "CHR ''/'' \<notin> set (dec n)" "CHR ''?'' \<notin> set (dec n)" for n
    by (simp_all add: isdigit_def code_def)
  then show ?thesis
    using assms by (cases literal; cases port) (auto simp: host_text_ok_def)
qed

section \<open>The fuzzing entry point\<close>

text \<open>The bytes are cut to the buffer of 2048, read as a text, and parsed; the result of the parser is dropped by the
  program and kept here to state what holds of it.\<close>

definition LLVMFuzzerTestOneInput :: "cstring \<Rightarrow> int \<times> url_t option" where
  "LLVMFuzzerTestOneInput data = (let n = min (length data) (2048 - 1); buf = cstr (take n data) in (0, ParseUrl buf))"

text \<open>Whatever the text is, the parts fit their buffers of 256 and 1024 bytes with the end mark, the path is not empty
  and the port is not 0.\<close>

lemma url_host_fits: "url_host h port = Some (host, p) \<Longrightarrow> length host \<le> length h"
  by (auto simp: url_host_def strchr_Some strrchr_Some split: if_splits option.splits)

lemma url_port_range: "url_port s \<noteq> Some 0"
proof
  assume "url_port s = Some 0"
  then have v: "1 \<le> lp_value (strtol s)" "lp_value (strtol s) \<le> 65535" "(word_of_int (lp_value (strtol s)) :: u16) = 0"
    by (auto simp: url_port_def Let_def uint16_def split: if_splits)
  have "uint (word_of_int (lp_value (strtol s)) :: u16) = lp_value (strtol s)"
    by (subst uint_word_of_int) (use v(1,2) in \<open>simp add: take_bit_int_eq_self_iff\<close>)
  then have "lp_value (strtol s) = 0" unfolding v(3) by simp
  then show False using v(1) by simp
qed

lemma ParseUrl_fits:
  assumes "ParseUrl url = Some u"
  shows "length (UrlHost u) \<le> 255" "length (UrlPath u) \<le> 1023" "UrlPath u \<noteq> []" "UrlPort u \<noteq> 0"
proof -
  obtain https port p where p: "url_scheme url = Some (https, port, p)" using assms by (auto simp: ParseUrl_def split: option.splits)
  define h where "h = takeWhile (\<lambda>c. \<not> path_start c) p"
  define t where "t = dropWhile (\<lambda>c. \<not> path_start c) p"
  obtain host port' where h: "length h < 256" "url_host h port = Some (host, port')" "UrlHost u = host" "UrlPort u = port'"
    and path: "UrlPath u = (if t = [] then ''/'' else bounded_copy 1024 t)"
    using assms unfolding ParseUrl_def p option.case prod.case Let_def h_def[symmetric] t_def[symmetric]
    by (auto split: if_splits option.splits)
  show "length (UrlHost u) \<le> 255" using url_host_fits[OF h(2)] h by simp
  show "length (UrlPath u) \<le> 1023" "UrlPath u \<noteq> []" by (auto simp: path bounded_copy_def)
  have "port \<noteq> 0" using p by (auto simp: url_scheme_def split: if_splits)
  then show "UrlPort u \<noteq> 0"
    using h(2,4) by (auto simp: url_host_def url_port_range split: if_splits option.splits)
qed

section \<open>Sockets are closed\<close>

fun opens :: "sock_call list \<Rightarrow> nat list" where
  "opens [] = []"
| "opens (Opened i # cs) = i # opens cs"
| "opens (Closed i # cs) = opens cs"

fun closes :: "sock_call list \<Rightarrow> nat list" where
  "closes [] = []"
| "closes (Opened i # cs) = closes cs"
| "closes (Closed i # cs) = i # closes cs"

lemma opened_append [simp]: "opens (a @ b) = opens a @ opens b"
  by (induction a rule: opens.induct) auto

lemma closed_append [simp]: "closes (a @ b) = closes a @ closes b"
  by (induction a rule: closes.induct) auto

lemma connect_addrs_calls:
  "connect_addrs i as = (r, calls) \<Longrightarrow>
     opens calls = closes calls @ (case r of None \<Rightarrow> [] | Some (fd, ip) \<Rightarrow> [fd]) \<and>
     distinct (opens calls) \<and> (\<forall>j \<in> set (opens calls). i \<le> j)"
proof (induction as arbitrary: i r calls)
  case (Cons a as)
  obtain r' calls' where rec: "connect_addrs (i + 1) as = (r', calls')" by fastforce
  from Cons.IH[OF rec] have IH: "opens calls' = closes calls' @ (case r' of None \<Rightarrow> [] | Some (fd, ip) \<Rightarrow> [fd])"
    "distinct (opens calls')" "\<forall>j \<in> set (opens calls'). Suc i \<le> j" by auto
  have "i \<notin> set (opens calls')" "\<forall>j \<in> set (opens calls'). i \<le> j" using IH(3) by force+
  then show ?case using Cons.prems rec IH(1,2) by (auto split: if_splits)
qed simp

definition all_closed :: "sock_call list \<Rightarrow> bool" where
  "all_closed calls \<longleftrightarrow> opens calls = closes calls \<and> distinct (opens calls)"

lemma TcpConnect_calls:
  "TcpConnect addrs u = (Inl err, calls) \<Longrightarrow> all_closed calls \<and> err \<noteq> []"
  "TcpConnect addrs u = (Inr (fd, ip), calls) \<Longrightarrow> all_closed (calls @ [Closed fd])"
  using connect_addrs_calls[of 0]
  by (auto simp: TcpConnect_def all_closed_def split: option.splits prod.splits)
    (fastforce simp: bounded_copy_def)+

definition probe_ok :: "int \<Rightarrow> http_result_t \<Rightarrow> http_trace \<Rightarrow> bool" where
  "probe_ok r res tr \<longleftrightarrow> all_closed (Ht_calls tr) \<and>
     (if r = SUCCESS then Status res \<noteq> 0 \<and> Error res = [] else Status res = 0 \<and> Error res \<noteq> [])"

lemma finish_probe_ok:
  assumes "finish_probe cfg u e tls fd out tr = Some (r, res, tr')" "all_closed (Ht_calls tr @ [Closed fd])"
    "Status out = 0" "Error out = []"
  shows "probe_ok r res tr' \<and> Tls res = Tls out \<and> Ht_tls_init tr' = Ht_tls_init tr \<and> (tls \<longrightarrow> Ht_tls_free tr')"
  using assms by (auto simp: finish_probe_def probe_ok_def ConnClose_def Let_def split: option.splits bool.splits if_splits)

lemma handshake_loop_error: "handshake_loop f as = Some (Some err) \<Longrightarrow> err \<noteq> []"
  by (induction f as rule: handshake_loop.induct) (auto simp: bounded_copy_def)

lemma TlsHandshake_error: "TlsHandshake t = Some (Some err) \<Longrightarrow> err \<noteq> []"
  using handshake_loop_error by (auto simp: TlsHandshake_def split: if_splits)

section \<open>The status line\<close>

lemma has_crlf_append: "has_crlf (xs @ crlf @ ys)"
proof (induction xs)
  case (Cons x xs)
  then show ?case by (cases "xs @ crlf @ ys") auto
qed simp

lemma has_crlf_no_lf: "CHR 0x0A \<notin> set xs \<Longrightarrow> \<not> has_crlf xs"
  by (induction xs rule: has_crlf.induct) auto

text \<open>A C string ends at the first NUL; an answer whose status line has none shows it whole.\<close>

lemma cstr_prefix: "CHR 0x00 \<notin> set xs \<Longrightarrow> cstr (xs @ ys) = xs @ cstr ys"
  by (auto simp: cstr_def takeWhile_append)

definition status_line :: "nat \<Rightarrow> cstring \<Rightarrow> cstring" where
  "status_line st reason = ''HTTP/1.1 '' @ dec st @ '' '' @ reason @ crlf"

definition reason_ok :: "cstring \<Rightarrow> bool" where
  "reason_ok reason \<longleftrightarrow> CHR 0x00 \<notin> set reason \<and> CHR 0x0A \<notin> set reason"

lemma take_status:
  assumes "length (status_line st reason) \<le> n"
  shows "take n (status_line st reason @ rest) = status_line st reason @ take (n - length (status_line st reason)) rest"
  using assms by simp

lemma take_line:
  assumes "reason_ok reason"
  shows "has_crlf (cstr (take n (status_line st reason @ rest))) \<longleftrightarrow> length (status_line st reason) \<le> n"
proof (cases "length (status_line st reason) \<le> n")
  case True
  let ?l = "''HTTP/1.1 '' @ dec st @ '' '' @ reason"
  have nul: "CHR 0x00 \<notin> set (?l @ crlf)" using assms by (auto simp: reason_ok_def isdigit_def code_def)
  have "take n (status_line st reason @ rest) = (?l @ crlf) @ take (n - length (status_line st reason)) rest"
    unfolding take_status[OF True] by (simp add: status_line_def)
  then have "cstr (take n (status_line st reason @ rest)) =
      ?l @ crlf @ cstr (take (n - length (status_line st reason)) rest)"
    using cstr_prefix[OF nul] by simp
  then show ?thesis using True has_crlf_append[of ?l] by (simp del: append_assoc)
next
  case False
  then have "take n (status_line st reason @ rest) = take n (butlast (status_line st reason))"
    by (simp add: take_butlast)
  moreover have "CHR 0x0A \<notin> set (butlast (status_line st reason))"
    using assms by (auto simp: status_line_def butlast_append reason_ok_def isdigit_def code_def)
  ultimately have "CHR 0x0A \<notin> set (cstr (take n (status_line st reason @ rest)))"
    by (auto simp: cstr_def dest!: set_takeWhileD in_set_takeD)
  then show ?thesis using False has_crlf_no_lf by blast
qed

lemma status_line_length: "13 \<le> length (status_line st reason)"
proof -
  have "1 \<le> length (dec st)" using dec_nonempty[of st] by (cases "dec st") auto
  then show ?thesis by (simp add: status_line_def)
qed

lemma parse_status_line:
  assumes "reason_ok reason" "st < 2 ^ 31" "length (status_line st reason) \<le> n"
  shows "parse_status (take n (status_line st reason @ rest)) = int st"
proof -
  let ?l = "''HTTP/1.1 '' @ dec st @ '' '' @ reason @ crlf" and ?more = "take (n - length (status_line st reason)) rest"
  have nul: "CHR 0x00 \<notin> set ?l" using assms by (auto simp: reason_ok_def isdigit_def code_def)
  have resp: "take n (status_line st reason @ rest) = ?l @ ?more"
    unfolding take_status[OF assms(3)] by (simp add: status_line_def)
  have len: "12 \<le> length (take n (status_line st reason @ rest))"
    using assms(3) status_line_length[of st reason] by simp
  have s: "cstr (take n (status_line st reason @ rest)) = ''HTTP/1.1'' @ CHR '' '' # dec st @ '' '' @ reason @ crlf @ cstr ?more"
    unfolding resp cstr_prefix[OF nul] by simp
  have v: "lp_value (strtol (dec st @ '' '' @ reason @ crlf @ cstr ?more)) = int st"
    using assms(2) strtol_dec_append[of st "'' '' @ reason @ crlf @ cstr ?more"] by (simp add: isdigit_def code_def)
  have c: "strchr (CHR '' '') (''HTTP/1.1'' @ CHR '' '' # b) = Some (''HTTP/1.1'', b)" for b
    by (rule strchr_append) simp
  show ?thesis unfolding parse_status_def s Let_def c using len v assms(2) by (simp add: int32_id)
qed

lemma read_status_chunks:
  assumes "reason_ok reason" "length (status_line st reason) \<le> 2047" "n < length (status_line st reason)"
    "\<forall>(t, c) \<in> set tcs. c \<noteq> [] \<and> \<not> flt (f64_of_nat (unat timeout)) (fmul (fst (Timer_Stop t deadline)) (Fin 1000))"
    "concat (map snd tcs) = drop n (status_line st reason @ rest)"
  shows "\<exists>m. length (status_line st reason) \<le> m \<and>
    read_status tls timeout deadline (map (\<lambda>(t, c). (t, Recv_bytes c)) tcs @ tail) (take n (status_line st reason @ rest)) =
      Some (take m (status_line st reason @ rest))"
  using assms(3-)
proof (induction tcs arbitrary: n)
  case Nil
  then show ?case by simp
next
  case (Cons tc tcs)
  obtain t c where tc: "tc = (t, c)" by fastforce
  let ?a = "status_line st reason @ rest" and ?L = "length (status_line st reason)"
  define m where "m = n + min (2047 - n) (length c)"
  have c: "c \<noteq> []" "\<not> flt (f64_of_nat (unat timeout)) (fmul (fst (Timer_Stop t deadline)) (Fin 1000))"
    and d: "c @ concat (map snd tcs) = drop n ?a"
    using Cons.prems(2,3) by (simp_all add: tc)
  have n: "length (take n ?a) = n" "n < 2047" using Cons.prems(1) assms(2) by simp_all
  have resp: "take n ?a @ take (2047 - n) c = take m ?a"
    unfolding m_def take_add d[symmetric] by (simp add: min_def)
  have step: "read_status tls timeout deadline ((t, Recv_bytes c) # as) (take n ?a) =
      (if has_crlf (cstr (take m ?a)) then Some (take m ?a) else read_status tls timeout deadline as (take m ?a))" for as
    using read_status_bytes[OF _ c, of "take n ?a" tls as] n resp by (simp only: Let_def)
  show ?case
  proof (cases "?L \<le> m")
    case True
    then show ?thesis
      using step take_line[OF assms(1), where n = m] by (auto simp: tc simp del: take_append)
  next
    case False
    then have "m = n + length c" using assms(2) by (simp add: m_def min_def split: if_splits)
    then have "concat (map snd tcs) = drop m ?a" using d by (metis append_eq_conv_conj drop_drop add.commute)
    then have "\<exists>m'. ?L \<le> m' \<and> read_status tls timeout deadline (map (\<lambda>(t, c). (t, Recv_bytes c)) tcs @ tail) (take m ?a) =
        Some (take m' ?a)"
      using False Cons.prems(2) by (intro Cons.IH) auto
    then show ?thesis
      using step take_line[OF assms(1), where n = m] False by (auto simp: tc simp del: take_append)
  qed
qed

section \<open>The log of the HTTP mode\<close>

abbreviation http_url :: "arguments_t \<Rightarrow> cstring" where
  "http_url a \<equiv> (case HttpUrl a of None \<Rightarrow> [] | Some url \<Rightarrow> url)"

abbreviation good :: "http_cfg_t \<Rightarrow> int \<times> http_result_t \<Rightarrow> bool" where
  "good cfg p \<equiv> good_result cfg (fst p) (snd p)"

definition http_lines :: "arguments_t \<Rightarrow> http_cfg_t \<Rightarrow> ulong \<Rightarrow> (int \<times> http_result_t) list \<Rightarrow> cstring" where
  "http_lines a cfg c rs = concat (map (\<lambda>(k, p). http_json_line a (c + of_nat k) (snd p) (good cfg p)) (enumerate 0 rs))"

lemma http_lines_Cons:
  "http_lines a cfg c (p # rs) = http_json_line a c (snd p) (good cfg p) @ http_lines a cfg (c + 1) rs"
  by (simp add: http_lines_def enumerate_Suc_eq comp_def case_prod_unfold add.assoc)

text \<open>What the probes \<open>rs\<close> make of the state \<open>h\<close>.\<close>

definition http_after :: "arguments_t \<Rightarrow> http_cfg_t \<Rightarrow> (int \<times> http_result_t) list \<Rightarrow> http_run \<Rightarrow> http_run \<Rightarrow> bool" where
  "http_after a cfg rs h h' \<longleftrightarrow>
     Hr_ok h' = Hr_ok h + of_nat (length (filter (good cfg) rs)) \<and>
     Hr_cycle h' = Hr_cycle h + of_nat (length rs) \<and>
     Attempts (Hr_stats h') = Attempts (Hr_stats h) + of_nat (length rs) \<and>
     Connects (Hr_stats h') = Connects (Hr_stats h) + of_nat (length (filter (good cfg) rs)) \<and>
     Failures (Hr_stats h') = Failures (Hr_stats h) + of_nat (length (filter (\<lambda>p. \<not> good cfg p) rs)) \<and>
     (Json a \<longrightarrow> Hr_out h' = Hr_out h @ http_lines a cfg (Hr_cycle h) rs)"

definition probes_of :: "http_cfg_t \<Rightarrow> cstring \<Rightarrow> (bool \<times> http_env \<times> bool) list \<Rightarrow> (int \<times> http_result_t) list \<Rightarrow> bool" where
  "probes_of cfg url es rs \<longleftrightarrow> length rs \<le> length es \<and>
     (\<forall>k < length rs. \<exists>tr. Http_Probe cfg url (fst (snd (es ! k))) = Some (fst (rs ! k), snd (rs ! k), tr))"

lemma probes_of_Cons:
  "Http_Probe cfg url e = Some (r, res, tr) \<Longrightarrow> probes_of cfg url es rs \<Longrightarrow>
   probes_of cfg url ((i, e, alloc) # es) ((r, res) # rs)"
  by (auto simp: probes_of_def nth_Cons split: nat.split)

lemma http_loop_log:
  "http_loop uc a cfg es h = Some h' \<Longrightarrow>
   \<exists>rs. probes_of cfg (http_url a) es rs \<and> http_after a cfg rs h h' \<and>
     (\<forall>n k. Count a = int n \<longrightarrow> n < 2 ^ 31 \<longrightarrow> Hr_cycle h = of_nat k \<longrightarrow> k \<le> n \<longrightarrow> length rs \<le> n - k)"
proof (induction es arbitrary: h)
  case (Cons x es)
  obtain i e alloc where x: "x = (i, e, alloc)" by (cases x)
  show ?case
  proof (cases "i \<or> \<not> count_left a (Hr_cycle h)")
    case True
    then have "h' = h" using Cons.prems by (simp add: x)
    then show ?thesis
      by (intro exI[of _ "[]"]) (simp add: probes_of_def http_after_def http_lines_def)
  next
    case False
    then obtain r res tr where p: "Http_Probe cfg (http_url a) e = Some (r, res, tr)"
      using Cons.prems by (auto simp: x split: option.splits)
    obtain h1 where h1: "http_loop uc a cfg es h1 = Some h'" "http_after a cfg [(r, res)] h h1"
      using Cons.prems False p
      by (auto simp: x Let_def http_after_def http_count_def http_lines_def split: if_splits)
    then obtain rs where rs: "probes_of cfg (http_url a) es rs" "http_after a cfg rs h1 h'"
      "\<forall>n k. Count a = int n \<longrightarrow> n < 2 ^ 31 \<longrightarrow> Hr_cycle h1 = of_nat k \<longrightarrow> k \<le> n \<longrightarrow> length rs \<le> n - k"
      using Cons.IH by blast
    have "http_after a cfg ((r, res) # rs) h h'"
      using h1(2) rs(2) by (auto simp: http_after_def http_lines_Cons http_lines_def[of _ _ _ "[]"] add.assoc)
    moreover have "length ((r, res) # rs) \<le> n - k" if "Count a = int n" "n < 2 ^ 31" "Hr_cycle h = of_nat k" "k \<le> n" for n k
    proof -
      have "k < n" using False that of_nat_less_small[of k n] by (simp add: count_left_def)
      moreover have "Hr_cycle h1 = of_nat (Suc k)" using h1(2) that(3) by (simp add: http_after_def add.commute)
      ultimately have "length rs \<le> n - Suc k" using rs(3) that(1,2) by (metis Suc_leI)
      then show ?thesis using \<open>k < n\<close> by simp
    qed
    ultimately show ?thesis using probes_of_Cons[OF p rs(1)] x by blast
  qed
qed simp

section \<open>Properties\<close>

text \<open>C33: The URLs the program documents are parsed into what they stand for: \<open>http\<close> or \<open>https\<close> with its
  default port, a name or a literal in brackets, an optional port, and a path that begins with a slash (or a
  query) or is missing.\<close>

theorem ParseUrl_forms:
  assumes "host_text_ok literal host" "port \<in> {None} \<union> Some ` {1..65535}" "path = [] \<or> path_start (hd path)"
    "length path < 1024" "length (authority host literal port) < 256"
  shows "ParseUrl ((if https then ''https://'' else ''http://'') @ authority host literal port @ path) =
      Some \<lparr>Https = https, UrlHost = host,
            UrlPort = (case port of None \<Rightarrow> if https then 443 else 80 | Some p \<Rightarrow> uint16 (int p)),
            UrlPath = (if path = [] then ''/'' else path)\<rparr>"
proof -
  have p: "1 \<le> p \<and> p \<le> 65535" if "port = Some p" for p using assms(2) that by auto
  have ne: "authority host literal port \<noteq> []"
    using assms(1) by (cases literal; cases port) (auto simp: host_text_ok_def)
  note auth = authority_chars[OF assms(1)] assms(3,4) ne assms(5) url_host_authority[OF assms(1) p]
  show ?thesis by (rule ParseUrl_auth[OF _ auth]) (simp_all add: url_scheme_def)
qed

theorem ParseUrl_forms_witness:
  "ParseUrl (''https://'' @ authority ''::1'' True (Some 8443) @ ''/x'') =
    Some \<lparr>Https = True, UrlHost = ''::1'', UrlPort = uint16 (int 8443), UrlPath = ''/x''\<rparr>"
  using ParseUrl_forms[of True "''::1''" "Some 8443" "''/x''" True] dec_length[of 8443 5]
  by (simp add: host_text_ok_def)

text \<open>C13: Whatever the resolver, the peer and the TLS library answer, a probe that returns has closed every
  socket it opened, exactly once; it succeeds with a status or fails with an error text, never both; and the
  TLS contexts it initialised are freed unless the handshake failed.\<close>

theorem Http_Probe_closes:
  assumes "Http_Probe cfg url e = Some (r, res, tr)"
  shows "opens (Ht_calls tr) = closes (Ht_calls tr) \<and> distinct (opens (Ht_calls tr)) \<and>
    (if r = SUCCESS then Status res \<noteq> 0 \<and> Error res = [] else Status res = 0 \<and> Error res \<noteq> []) \<and>
    (Ht_tls_init tr \<longrightarrow> Ht_tls_free tr \<or> (\<exists>err. TlsHandshake (He_tls e) = Some (Some err) \<and> Error res = err))"
proof (cases "ParseUrl url")
  case None
  then show ?thesis using assms by (auto simp: Http_Probe_def blank_result_def Let_def)
next
  case (Some u)
  obtain c calls where c: "TcpConnect (He_addrs e) u = (c, calls)" by fastforce
  show ?thesis
  proof (cases c)
    case (Inl err)
    then show ?thesis
      using assms Some c TcpConnect_calls(1)[of "He_addrs e" u err calls]
      by (auto simp: Http_Probe_def blank_result_def Let_def all_closed_def)
  next
    case (Inr p)
    obtain fd ip where p: "p = (fd, ip)" by fastforce
    have cl: "all_closed (calls @ [Closed fd])" using TcpConnect_calls(2) c Inr p by blast
    show ?thesis
    proof (cases "Https u \<and> (\<exists>err. TlsHandshake (He_tls e) = Some (Some err))")
      case True
      then show ?thesis
        using assms Some c Inr p cl TlsHandshake_error
        by (auto simp: Http_Probe_def blank_result_def ConnClose_def Let_def all_closed_def)
    next
      case False
      then show ?thesis
        using assms Some c Inr p cl
        by (auto simp: Http_Probe_def blank_result_def Let_def probe_ok_def all_closed_def
            split: if_splits option.splits dest!: finish_probe_ok)
    qed
  qed
qed

lemma Timer_same: "fst (Timer_Stop t (Timer_Start t x)) = Fin 0"
  by (simp add: Timer_Start_def Timer_Stop_def elapsed_sec_def f64_of_int_def)

lemma limit_not_passed: "\<not> flt (f64_of_nat n) (fmul (fst (Timer_Stop t (Timer_Start t x))) (Fin 1000))"
  using to_f64_nonneg[of "rat_of_nat n"]
  by (simp add: Timer_same f64_of_nat_def flt_iff_less not_less)

definition demo_http_env :: http_env where
  "demo_http_env =
     \<lparr>He_addrs = Some [\<lparr>At_socket = True, At_connect = Conn_failed, At_writable = False, At_no_error = False, At_text = ''::1''\<rparr>,
                        \<lparr>At_socket = True, At_connect = Conn_in_progress, At_writable = True, At_no_error = True,
                         At_text = ''10.0.0.1''\<rparr>],
      He_tls = \<lparr>Te_seed = 0, Te_defaults = 0, Te_setup = 0, Te_handshake = [], Te_strerror = (\<lambda>n. []), Te_version = [],
                Te_cipher = []\<rparr>,
      He_sends = [Io_bytes 2000], He_recvs = [], He_start = demo_time, He_connect = demo_time, He_connected = demo_time,
      He_reading = demo_time, He_end = demo_time\<rparr>"

definition demo_cfg :: http_cfg_t where
  "demo_cfg = \<lparr>Method = ''GET'', ExpectStatus = 0, TimeoutMs = 1000\<rparr>"

theorem Http_Probe_closes_witness:
  "\<exists>r res tr. Http_Probe demo_cfg ''http://h/'' (demo_http_env\<lparr>He_recvs := [(demo_time, Recv_stop)]\<rparr>) = Some (r, res, tr) \<and>
     closes (Ht_calls tr) = [0, 1] \<and> opens (Ht_calls tr) = closes (Ht_calls tr)"
proof -
  let ?e = "demo_http_env\<lparr>He_recvs := [(demo_time, Recv_stop)]\<rparr>"
  have "ParseUrl ''http://h/'' = Some \<lparr>Https = False, UrlHost = ''h'', UrlPort = 80, UrlPath = ''/''\<rparr>" by code_simp
  then have "map_option (\<lambda>(r, res, tr). closes (Ht_calls tr)) (Http_Probe demo_cfg ''http://h/'' ?e) = Some [0, 1]"
    by (simp add: Http_Probe_def demo_http_env_def TcpConnect_def try_connects_def finish_probe_def http_request_def
        demo_cfg_def ConnClose_def read_status.simps resp_size_def parse_status_def cstr_def limit_not_passed Let_def)
  then obtain r res tr where h: "Http_Probe demo_cfg ''http://h/'' ?e = Some (r, res, tr)" "closes (Ht_calls tr) = [0, 1]"
    by auto
  then show ?thesis using Http_Probe_closes[OF h(1)] by auto
qed

text \<open>C14: The status of an answer does not depend on how the network cuts it into pieces: when the pieces
  arrive within the time limit and together are a status line followed by anything, the loop stops with the
  line complete and the status is the number in it.\<close>

theorem status_any_chunking:
  assumes "reason_ok reason" "st < 2 ^ 31" "length (status_line st reason) \<le> 2047"
    "concat (map snd pieces) = status_line st reason @ rest"
    "\<forall>(t, c) \<in> set pieces. c \<noteq> [] \<and> \<not> flt (f64_of_nat (unat timeout)) (fmul (fst (Timer_Stop t deadline)) (Fin 1000))"
  shows "\<exists>resp. read_status tls timeout deadline (map (\<lambda>(t, c). (t, Recv_bytes c)) pieces @ tail) [] = Some resp \<and>
    parse_status resp = int st"
proof -
  have "0 < length (status_line st reason)" using status_line_length[of st reason] by linarith
  then obtain m where m: "length (status_line st reason) \<le> m"
    "read_status tls timeout deadline (map (\<lambda>(t, c). (t, Recv_bytes c)) pieces @ tail) [] =
      Some (take m (status_line st reason @ rest))"
    using read_status_chunks[OF assms(1,3) _ assms(5), of 0 rest tls tail] assms(4) by auto
  then show ?thesis using parse_status_line[OF assms(1,2) m(1)] by blast
qed

theorem status_any_chunking_witness:
  "\<exists>resp. read_status False 1000 (Timer_Start demo_time zero_timer)
      (map (\<lambda>(t, c). (t, Recv_bytes c)) [(demo_time, ''HTTP/''), (demo_time, ''1.1 204 No Content'' @ crlf @ ''Date'')] @ []) [] =
     Some resp \<and> parse_status resp = int 204"
proof -
  have l: "status_line 204 ''No Content'' = ''HTTP/1.1 204 No Content'' @ crlf" by code_simp
  show ?thesis
    by (rule status_any_chunking[where reason = "''No Content''" and rest = "''Date''"])
      (simp_all add: reason_ok_def l limit_not_passed)
qed

text \<open>C32: The HTTP mode makes at most as many probes as it is asked for; with \<open>--json\<close> it prints exactly one
  line for each, numbered from 0; and its exit status is 0 exactly when one of them met the criterion (the
  expected status, or any 2xx or 3xx).\<close>

theorem RunHttpMode_log:
  assumes "RunHttpMode uc a es = Some (rc, out)" "length es < 2 ^ 64"
  shows "\<exists>rs. probes_of (http_cfg a) (http_url a) es rs \<and>
    (0 \<le> Count a \<and> Count a < 2 ^ 31 \<longrightarrow> length rs \<le> nat (Count a)) \<and>
    (Json a \<longrightarrow> out = http_lines a (http_cfg a) 0 rs) \<and>
    rc = (if \<exists>p \<in> set rs. good (http_cfg a) p then 0 else 1)"
proof -
  obtain h0 h where h: "http_loop uc a (http_cfg a) es h0 = Some h" "Hr_ok h0 = 0" "Hr_cycle h0 = 0"
    "Json a \<Longrightarrow> Hr_out h0 = []" "rc = (if Hr_ok h > 0 then 0 else 1)" "Json a \<Longrightarrow> out = Hr_out h"
    using assms(1) by (auto simp: RunHttpMode_def Let_def split: option.splits)
  obtain rs where rs: "probes_of (http_cfg a) (http_url a) es rs" "http_after a (http_cfg a) rs h0 h"
    "\<forall>n k. Count a = int n \<longrightarrow> n < 2 ^ 31 \<longrightarrow> Hr_cycle h0 = of_nat k \<longrightarrow> k \<le> n \<longrightarrow> length rs \<le> n - k"
    using http_loop_log[OF h(1)] by blast
  have "length (filter (good (http_cfg a)) rs) < 2 ^ 64"
    using assms(2) rs(1) by (intro le_less_trans[OF length_filter_le]) (simp add: probes_of_def)
  then have "Hr_ok h > 0 \<longleftrightarrow> (\<exists>p \<in> set rs. good (http_cfg a) p)"
    using rs(2) h(2) of_nat_small_0 word_gt_0[of "Hr_ok h"] by (auto simp: http_after_def filter_empty_conv)
  moreover have "0 \<le> Count a \<and> Count a < 2 ^ 31 \<longrightarrow> length rs \<le> nat (Count a)"
  proof
    assume c: "0 \<le> Count a \<and> Count a < 2 ^ 31"
    then show "length rs \<le> nat (Count a)"
      using rs(3)[rule_format, of "nat (Count a)" 0] h(3) by (simp add: nat_less_iff)
  qed
  ultimately show ?thesis using rs(1,2) h by (intro exI[of _ rs]) (simp add: http_after_def)
qed

theorem RunHttpMode_log_witness:
  "\<exists>rc out. RunHttpMode False (InitDefaults\<lparr>HttpUrl := Some ''ftp://h'', Json := True, Count := 1\<rparr>)
      [(False, demo_http_env, True), (False, demo_http_env, True)] = Some (rc, out) \<and> rc = 1"
proof -
  let ?a = "InitDefaults\<lparr>HttpUrl := Some ''ftp://h'', Json := True, Count := 1\<rparr>"
  have u: "ParseUrl ''ftp://h'' = None" by (simp add: ParseUrl_def url_scheme_def)
  obtain rc out where r: "RunHttpMode False ?a [(False, demo_http_env, True), (False, demo_http_env, True)] = Some (rc, out)"
    by (simp add: RunHttpMode_def Http_Probe_def u count_left_def http_count_def good_result_def Let_def)
  obtain rs where rs: "probes_of (http_cfg ?a) (http_url ?a) [(False, demo_http_env, True), (False, demo_http_env, True)] rs"
    "rc = (if \<exists>p \<in> set rs. good (http_cfg ?a) p then 0 else 1)"
    using RunHttpMode_log[OF r] by auto
  have "fst (rs ! k) = PINGDD_INVALID_ARGS" if "k < length rs" for k
    using rs(1) that by (auto simp: probes_of_def Http_Probe_def u Let_def)
  then have "\<not> good (http_cfg ?a) p" if "p \<in> set rs" for p
    using that by (auto simp: in_set_conv_nth good_result_def)
  then show ?thesis using r rs(2) by auto
qed

text \<open>C28: A server that accepts the connection and then says nothing holds the program in the handshake: each
  receive time-out makes the library ask for a repetition, and no number of them ends the loop, which looks
  neither at the time limit nor at the interrupt flag. Only a \<open>recv\<close> that fails otherwise, as it does when a
  signal interrupts it, ends the probe. The library is asked for its documented behaviour alone: it wants to be
  called again when its callback wants to read, and fails when its callback does.\<close>

theorem silent_tls_server:
  fixes cfg :: http_cfg_t
  assumes "ParseUrl url = Some u" "Https u" "TcpConnect (He_addrs e) u = (Inr r, calls)"
    "Te_seed (He_tls e) = 0" "Te_defaults (He_tls e) = 0" "Te_setup (He_tls e) = 0"
    and "lib Want_read = Tls_again" "lib Internal_error = Tls_failed ret"
  defines "after \<equiv> (\<lambda>recvs. Http_Probe cfg url
    (e\<lparr>He_tls := (He_tls e)\<lparr>Te_handshake := map (lib \<circ> BioRecv) recvs\<rparr>\<rparr>))"
  shows "after (replicate n (Inl EAGAIN)) = None \<and>
    (\<exists>out tr. after (replicate n (Inl EAGAIN) @ [Inl EINTR]) = Some (PINGDD_SOCKET_FAILURE, out, tr))"
proof -
  have w: "lib (BioRecv (Inl EAGAIN)) = Tls_again" "lib (BioRecv (Inl EINTR)) = Tls_failed ret"
    using assms(7,8) by (simp_all add: BioRecv_def)
  let ?f = "Te_strerror (He_tls e)"
  have l: "handshake_loop ?f (replicate n Tls_again) = None"
      "\<exists>m. handshake_loop ?f (replicate n Tls_again @ [Tls_failed ret]) = Some (Some m)"
    by (induction n) simp_all
  then obtain m where "handshake_loop ?f (replicate n Tls_again @ [Tls_failed ret]) = Some (Some m)" by blast
  then show ?thesis
    unfolding after_def using assms(1-6) w l(1) by (cases r) (simp add: Http_Probe_def TlsHandshake_def Let_def)
qed

theorem silent_tls_server_witness:
  "Http_Probe demo_cfg ''https://h'' (demo_http_env\<lparr>He_tls := (He_tls demo_http_env)\<lparr>Te_handshake :=
     map ((\<lambda>b. if b = Want_read then Tls_again else Tls_failed 1) \<circ> BioRecv) (replicate 7 (Inl EAGAIN))\<rparr>\<rparr>) = None"
proof -
  have u: "ParseUrl ''https://h'' = Some \<lparr>Https = True, UrlHost = ''h'', UrlPort = 443, UrlPath = ''/''\<rparr>" by code_simp
  have "\<exists>r calls. TcpConnect (He_addrs demo_http_env) \<lparr>Https = True, UrlHost = ''h'', UrlPort = 443, UrlPath = ''/''\<rparr> = (Inr r, calls)"
    by (simp add: demo_http_env_def TcpConnect_def try_connects_def)
  then obtain r calls where c:
      "TcpConnect (He_addrs demo_http_env) \<lparr>Https = True, UrlHost = ''h'', UrlPort = 443, UrlPath = ''/''\<rparr> = (Inr r, calls)"
    by blast
  show ?thesis
    using silent_tls_server[OF u _ c, of "\<lambda>b. if b = Want_read then Tls_again else Tls_failed 1" 1 demo_cfg 7]
    by (simp add: demo_http_env_def)
qed

end
