(* ===== verification/Trace.thy ===== *)
theory Trace
  imports Socket Print
begin

unbundle bit_operations_syntax

text \<open>
  \<open>traceroute.c\<close>, in its POSIX variant: the probe with a limited number of hops, its receive loop with the
  test whether a packet belongs to the probe, and the run over the hops with its output. What the system
  answers to one probe is a record; where a loop takes one answer after another it has a list of them, and
  no value when it would wait for one more.
\<close>

section \<open>The probe\<close>

datatype trace_wait = Wait_ready | Wait_eintr | Wait_over

datatype trace_recv = Got_nothing | Got_error | Got_packet cstring "u8 list"

text \<open>One turn of the loop: the clock, how \<open>poll\<close> ends, what \<open>recvfrom\<close> gives (the text of the sender's
  address and the bytes), and the clock after it.\<close>

datatype trace_turn = Turn_of (turn_now: timespec) trace_wait trace_recv timespec

record trace_env =
  Tv_socket :: bool
  Tv_send :: bool
  Tv_begin :: timespec
  Tv_turns :: "trace_turn list"
  Tv_junk :: "u8 list"  \<comment> \<open>the receive buffer, which is not initialised\<close>

datatype trace_call =
    RawSocket | HopLimit int | SendEcho "u8 list" | CloseRaw
  | IcmpFile | EchoRequest "u8 option" "u8 list" u32 | IcmpClose  \<comment> \<open>the variant for Windows\<close>

text \<open>The buffer holds 1500 bytes, of which \<open>n\<close> have been received; \<open>None\<close> when the packet is not an
  answer to the probe, otherwise whether it says that the destination is reached.\<close>

definition rbuf_size :: nat where "rbuf_size = 1500"

definition into_rbuf :: "u8 list \<Rightarrow> u8 list \<Rightarrow> u8 list" where
  "into_rbuf data rbuf = (let d = take rbuf_size data in d @ drop (length d) rbuf)"

definition ihl_bytes :: "u8 \<Rightarrow> nat" where
  "ihl_bytes b = unat ((b AND 0x0F) * 4)"

definition trace_match :: "bool \<Rightarrow> u16 \<Rightarrow> u16 \<Rightarrow> u8 list \<Rightarrow> nat \<Rightarrow> bool option" where
  "trace_match v6 ident seq rbuf n =
     (let off = (if v6 then 0 else ihl_bytes (rbuf ! 0))
      in if n < off + 8 then None
         else let type = rbuf ! off;
                  is_echo_reply = (type = (if v6 then 129 else 0));
                  is_time_exc = (type = (if v6 then 3 else 11));
                  is_unreach = (type = (if v6 then 1 else 3))
              in if is_echo_reply
                 then let rid = be16 (rbuf ! (off + 4)) (rbuf ! (off + 5));
                          rseq = be16 (rbuf ! (off + 6)) (rbuf ! (off + 7))
                      in if rseq = seq \<and> (rid = ident \<or> v6) then Some True else None
                 else if is_time_exc \<or> is_unreach
                 then let inner = off + 8;
                          inner_icmp = (if v6 then inner + 40
                                        else if n > inner then inner + ihl_bytes (rbuf ! inner)
                                        else 0)
                      in if inner_icmp + 8 \<le> n
                         then let rseq = be16 (rbuf ! (inner_icmp + 6)) (rbuf ! (inner_icmp + 7))
                              in if rseq = seq then Some is_unreach else None
                         else Some False
                 else None)"

text \<open>Result of the loop: code, address text, time, \<open>reached\<close>.\<close>

fun trace_loop ::
  "bool \<Rightarrow> u32 \<Rightarrow> u16 \<Rightarrow> u16 \<Rightarrow> pingdd_timer_t \<Rightarrow> trace_turn list \<Rightarrow> u8 list \<Rightarrow> (int \<times> cstring \<times> f64 \<times> bool) option" where
  "trace_loop v6 timeout_ms ident seq tmr [] rbuf = None"
| "trace_loop v6 timeout_ms ident seq tmr (Turn_of now wait recv later # turns) rbuf =
     (if remaining_ms timeout_ms (fst (Timer_Stop now tmr)) \<le> 0 then Some (PINGDD_SOCKET_TIMEOUT, [], Fin 0, False)
      else (case wait of
          Wait_eintr \<Rightarrow> trace_loop v6 timeout_ms ident seq tmr turns rbuf
        | Wait_over \<Rightarrow> Some (PINGDD_SOCKET_TIMEOUT, [], Fin 0, False)
        | Wait_ready \<Rightarrow>
            (case recv of
               Got_nothing \<Rightarrow> trace_loop v6 timeout_ms ident seq tmr turns rbuf
             | Got_error \<Rightarrow> Some (PINGDD_SOCKET_TIMEOUT, [], Fin 0, False)
             | Got_packet from data \<Rightarrow>
                 (let rbuf1 = into_rbuf data rbuf
                  in (case trace_match v6 ident seq rbuf1 (length (take rbuf_size data)) of
                        None \<Rightarrow> trace_loop v6 timeout_ms ident seq tmr turns rbuf1
                      | Some reached \<Rightarrow>
                          Some (SUCCESS, bounded_copy 64 from, fst (Timer_Stop later tmr), reached))))))"

record trace_probe =
  Tp_ttl :: int
  Tp_seq :: u16
  Tp_code :: int
  Tp_from :: cstring
  Tp_rtt :: f64
  Tp_reached :: bool
  Tp_calls :: "trace_call list"

definition TraceProbe :: "bool \<Rightarrow> int \<Rightarrow> u32 \<Rightarrow> u16 \<Rightarrow> u16 \<Rightarrow> trace_env \<Rightarrow> trace_probe option" where
  "TraceProbe v6 ttl timeout_ms ident seq e =
     (let failed = (\<lambda>calls. \<lparr>Tp_ttl = ttl, Tp_seq = seq, Tp_code = PINGDD_SOCKET_FAILURE, Tp_from = [],
                             Tp_rtt = Fin 0, Tp_reached = False, Tp_calls = calls\<rparr>)
      in if \<not> Tv_socket e then Some (failed [])
         else let pkt = icmp_packet v6 ident seq;
                  calls = [RawSocket, HopLimit ttl, SendEcho pkt];
                  tmr = Timer_Start (Tv_begin e) \<lparr>hasValue = False, start = \<lparr>tv_sec = 0, tv_nsec = 0\<rparr>\<rparr>
              in if \<not> Tv_send e then Some (failed (calls @ [CloseRaw]))
                 else (case trace_loop v6 timeout_ms ident seq tmr (Tv_turns e) (Tv_junk e) of
                         None \<Rightarrow> None
                       | Some (r, from, rtt, reached) \<Rightarrow>
                           Some \<lparr>Tp_ttl = ttl, Tp_seq = seq, Tp_code = r, Tp_from = from, Tp_rtt = rtt,
                                 Tp_reached = reached, Tp_calls = calls @ [CloseRaw]\<rparr>))"

section \<open>The run\<close>

record trace_cfg_t =
  TrMaxHops :: int
  TrQueries :: int
  TrTimeoutMs :: u32
  TrResolve :: bool

text \<open>The process identifier, and the address behind a text with the name of an address.\<close>

record trace_sys =
  Sy_color :: bool
  Sy_pid :: int
  Sy_pton :: "bool \<Rightarrow> cstring \<Rightarrow> sockaddr"
  Sy_names :: "sockaddr \<Rightarrow> cstring option"

record trace_state =
  Tr_seq :: u16
  Tr_out :: cstring
  Tr_log :: "trace_probe list"
  Tr_reached :: bool

abbreviation say :: "cstring \<Rightarrow> trace_state \<Rightarrow> trace_state" where
  "say s st \<equiv> st\<lparr>Tr_out := Tr_out st @ s\<rparr>"

definition hop_text :: "trace_sys \<Rightarrow> trace_cfg_t \<Rightarrow> bool \<Rightarrow> cstring \<Rightarrow> cstring" where
  "hop_text sys cfg v6 from_ip =
     bounded_copy 360
       (if TrResolve cfg
        then let (r, name) = ReverseResolve (Sy_names sys) (Sy_pton sys v6 from_ip) 256
             in if r = SUCCESS \<and> name \<noteq> [] then '' '' @ name @ '' ('' @ from_ip @ '')'' else '' '' @ from_ip
        else '' '' @ from_ip)"

definition answer_text :: "trace_sys \<Rightarrow> trace_cfg_t \<Rightarrow> bool \<Rightarrow> cstring \<Rightarrow> trace_probe \<Rightarrow> cstring" where
  "answer_text sys cfg v6 last_ip p =
     (if Tp_from p \<noteq> last_ip then FormattedPrint (Sy_color sys) PRINT_GREEN (hop_text sys cfg v6 (Tp_from p)) else []) @
     FormattedPrint (Sy_color sys) PRINT_BLUE
       (bounded_copy 360 (''  '' @ fmt_fixed 3 (fmul (Tp_rtt p) (Fin 1000)) @ '' ms''))"

definition no_raw_text :: cstring where
  "no_raw_text = [newline] @ ''  traceroute needs a raw socket (run as root / grant CAP_NET_RAW)'' @ [newline]"

text \<open>The queries of one hop; the flag tells whether a raw socket was refused, which ends the run. The source has
  two variants of \<open>TraceProbe\<close>, one for each kind of system; \<open>probe\<close> is the one that is compiled, for a hop
  limit, a sequence number and what the system answers.\<close>

fun trace_queries ::
  "(int \<Rightarrow> u16 \<Rightarrow> 'e \<Rightarrow> trace_probe option) \<Rightarrow> trace_sys \<Rightarrow> trace_cfg_t \<Rightarrow> bool \<Rightarrow> int \<Rightarrow> nat \<Rightarrow> 'e list \<Rightarrow> cstring \<Rightarrow> trace_state \<Rightarrow>
   (bool \<times> trace_state) option" where
  "trace_queries probe sys cfg v6 hop 0 es last_ip st = Some (False, st)"
| "trace_queries probe sys cfg v6 hop (Suc q) [] last_ip st = None"
| "trace_queries probe sys cfg v6 hop (Suc q) (e # es) last_ip st =
     (case probe hop (Tr_seq st + 1) e of
        None \<Rightarrow> None
      | Some p \<Rightarrow>
          (let st1 = st\<lparr>Tr_seq := Tr_seq st + 1, Tr_log := Tr_log st @ [p]\<rparr>
           in if Tp_code p = PINGDD_SOCKET_FAILURE
              then Some (True, say (FormattedPrint (Sy_color sys) PRINT_RED no_raw_text @ ResetColor (Sy_color sys)) st1)
              else if Tp_code p = PINGDD_SOCKET_TIMEOUT
              then trace_queries probe sys cfg v6 hop q es last_ip (say (FormattedPrint (Sy_color sys) PRINT_WHITE '' *'') st1)
              else let st2 = say (answer_text sys cfg v6 last_ip p) st1
                   in trace_queries probe sys cfg v6 hop q es (if Tp_from p \<noteq> last_ip then Tp_from p else last_ip)
                        (if Tp_reached p then st2\<lparr>Tr_reached := True\<rparr> else st2)))"

text \<open>One round for each hop: \<open>g_interrupted\<close> at the test of the loop, and the surroundings of its
  queries.\<close>

fun trace_hops ::
  "(int \<Rightarrow> u16 \<Rightarrow> 'e \<Rightarrow> trace_probe option) \<Rightarrow> trace_sys \<Rightarrow> trace_cfg_t \<Rightarrow> bool \<Rightarrow> int \<Rightarrow> (bool \<times> 'e list) list \<Rightarrow> trace_state \<Rightarrow>
   (bool \<times> trace_state) option" where
  "trace_hops probe sys cfg v6 hop rounds st =
     (if \<not> (hop \<le> TrMaxHops cfg \<and> \<not> Tr_reached st) then Some (False, st)
      else (case rounds of
          [] \<Rightarrow> None
        | (interrupted, es) # rounds' \<Rightarrow>
            if interrupted then Some (False, st)
            else (case trace_queries probe sys cfg v6 hop (nat (TrQueries cfg)) es []
                         (say (FormattedPrint (Sy_color sys) PRINT_WHITE
                                 (bounded_copy 360 (fmt_width 2 (fmt_int hop) @ '' ''))) st) of
                    None \<Rightarrow> None
                  | Some (True, st1) \<Rightarrow> Some (True, st1)
                  | Some (False, st1) \<Rightarrow>
                      trace_hops probe sys cfg v6 (hop + 1) rounds' (say (newline # ResetColor (Sy_color sys)) st1))))"

declare trace_hops.simps [simp del]

definition trace_head :: "trace_sys \<Rightarrow> host_t \<Rightarrow> trace_cfg_t \<Rightarrow> cstring" where
  "trace_head sys target cfg =
     FormattedPrint (Sy_color sys) PRINT_YELLOW
       (bounded_copy 360 (''traceroute to '' @ Hostname target @ '' ('' @ IPAddress target @ ''), '' @
          fmt_int (TrMaxHops cfg) @ '' hops max'' @ [newline])) @ ResetColor (Sy_color sys)"

definition trace_start :: "trace_sys \<Rightarrow> host_t \<Rightarrow> trace_cfg_t \<Rightarrow> trace_state" where
  "trace_start sys target cfg =
     \<lparr>Tr_seq = 0, Tr_out = trace_head sys target cfg, Tr_log = [], Tr_reached = False\<rparr>"

definition Traceroute_with ::
  "(bool \<Rightarrow> u16 \<Rightarrow> int \<Rightarrow> u16 \<Rightarrow> 'e \<Rightarrow> trace_probe option) \<Rightarrow> trace_sys \<Rightarrow> host_t \<Rightarrow> trace_cfg_t \<Rightarrow> (bool \<times> 'e list) list \<Rightarrow>
   (int \<times> cstring \<times> trace_probe list) option" where
  "Traceroute_with probe sys target cfg rounds =
     (case Addrs target of
        [] \<Rightarrow> Some (PINGDD_INVALID_ARGS, [], [])
      | dest # _ \<Rightarrow>
          (case trace_hops (probe (is_v6 dest) (uint16 (Sy_pid sys))) sys cfg (is_v6 dest) 1 rounds
                  (trace_start sys target cfg) of
             None \<Rightarrow> None
           | Some (refused, st) \<Rightarrow>
               Some (if Tr_reached st \<and> \<not> refused then SUCCESS else PINGDD_SOCKET_FAILURE, Tr_out st, Tr_log st)))"

definition Traceroute_Run ::
  "trace_sys \<Rightarrow> host_t \<Rightarrow> trace_cfg_t \<Rightarrow> (bool \<times> trace_env list) list \<Rightarrow> (int \<times> cstring \<times> trace_probe list) option" where
  "Traceroute_Run sys target cfg =
     Traceroute_with (\<lambda>v6 ident ttl seq e. TraceProbe v6 ttl (TrTimeoutMs cfg) ident seq e) sys target cfg"

section \<open>Which packets belong to a probe\<close>

lemma trace_match_received:
  assumes "take n r1 = take n r2" "n \<le> length r1" "n \<le> length r2"
  shows "trace_match v6 ident seq r1 n = trace_match v6 ident seq r2 n"
proof -
  have eq: "r1 ! i = r2 ! i" if "i < n" for i
    using that assms by (metis nth_take)
  show ?thesis
  proof (cases "n = 0")
    case True
    then show ?thesis by (simp add: trace_match_def Let_def)
  next
    case False
    then show ?thesis by (simp add: trace_match_def Let_def eq cong: if_cong)
  qed
qed

lemma trace_match_rbuf:
  "length data \<le> rbuf_size \<Longrightarrow>
   trace_match v6 ident seq (into_rbuf data junk) (length data) = trace_match v6 ident seq data (length data)"
  by (rule trace_match_received) (simp_all add: into_rbuf_def)

text \<open>What is in front of the ICMP header of a received packet, and of a quoted one; an ICMP error.\<close>

definition ip_header :: "bool \<Rightarrow> u8 list \<Rightarrow> bool" where
  "ip_header v6 h \<longleftrightarrow> (if v6 then h = [] else 20 \<le> length h \<and> length h = ihl_bytes (h ! 0))"

definition quoted_header :: "bool \<Rightarrow> u8 list \<Rightarrow> bool" where
  "quoted_header v6 h \<longleftrightarrow> (if v6 then length h = 40 else 20 \<le> length h \<and> length h = ihl_bytes (h ! 0))"

definition time_exceeded :: "bool \<Rightarrow> u8" where "time_exceeded v6 = (if v6 then 3 else 11)"
definition unreachable :: "bool \<Rightarrow> u8" where "unreachable v6 = (if v6 then 1 else 3)"

definition icmp_error :: "u8 \<Rightarrow> u8 list \<Rightarrow> u8 list \<Rightarrow> u8 list" where
  "icmp_error type hd4 quote = type # take 7 (hd4 @ replicate 7 0) @ quote"

lemma trace_offset:
  assumes "ip_header v6 h"
  shows "(if v6 then 0 else ihl_bytes ((h @ x) ! 0)) = length h"
  using assms by (cases h) (auto simp: ip_header_def split: if_splits)

lemma trace_echo:
  assumes "ip_header v6 h" "length (h @ a # x) \<le> n" "8 \<le> length (a # x)" "a = (if v6 then 129 else 0)"
  shows "trace_match v6 ident seq (h @ a # x) n =
    (if be16 (x ! 5) (x ! 6) = seq \<and> (be16 (x ! 3) (x ! 4) = ident \<or> v6) then Some True else None)"
  unfolding trace_match_def Let_def trace_offset[OF assms(1)] using assms(2-4)
  by (simp add: nth_append)

lemma trace_error:
  assumes h: "ip_header v6 h" and hdr: "quoted_header v6 hdr" and t: "t = time_exceeded v6 \<or> t = unreachable v6"
    and q: "8 \<le> length quote" and n: "n = length (h @ icmp_error t m (hdr @ quote))"
  shows "trace_match v6 ident seq (h @ icmp_error t m (hdr @ quote)) n =
    (if be16 (quote ! 6) (quote ! 7) = seq then Some (t = unreachable v6) else None)"
proof -
  let ?p = "h @ icmp_error t m (hdr @ quote)"
  have len: "length (icmp_error t m x) = 8 + length x" for x
    by (simp add: icmp_error_def)
  have split: "?p = (h @ icmp_error t m []) @ hdr @ quote" by (simp add: icmp_error_def)
  have pre: "length (h @ icmp_error t m []) = length h + 8" by (simp add: len)
  have inner: "?p ! (length h + 8 + i) = (hdr @ quote) ! i" for i
    unfolding split by (metis nth_append_length_plus pre)
  have off0: "?p ! length h = t" by (simp add: icmp_error_def nth_append)
  have hd0: "hdr \<noteq> []" using hdr by (auto simp: quoted_header_def split: if_splits)
  have ihl: "(if v6 then length h + 8 + 40 else if length h + 8 < n then length h + 8 + ihl_bytes (?p ! (length h + 8)) else 0) =
      length h + 8 + length hdr"
    using hdr n hd0 inner[of 0] by (auto simp: quoted_header_def len nth_append split: if_splits)
  have qq: "?p ! (length h + 8 + length hdr + i) = quote ! i" for i
    using inner[of "length hdr + i"] by (simp add: nth_append add.assoc)
  have t0: "t \<noteq> (if v6 then 129 else 0)"
    "t = (if v6 then 3 else 11) \<or> t = (if v6 then 1 else 3)" "(t = (if v6 then 1 else 3)) = (t = unreachable v6)"
    using t by (auto simp: time_exceeded_def unreachable_def)
  show ?thesis
    unfolding trace_match_def Let_def trace_offset[OF h] off0 ihl qq
    using n q t0 by (simp add: len)
qed

lemma ident_fields:
  "be16 (icmp_packet v6 i s ! 4) (icmp_packet v6 i s ! 5) = i" "be16 (icmp_packet v6 i s ! 6) (icmp_packet v6 i s ! 7) = s"
  using icmp_packet_fields[of v6 i s] by simp_all

lemma ihl_small: "ihl_bytes b \<le> 255"
  using byte_less[of "(b AND 0x0F) * 4"] by (simp add: ihl_bytes_def)

section \<open>The log of a run\<close>

text \<open>What a probe does on its descriptor: nothing when there is none, otherwise one packet with its own
  sequence number and hop limit, and the descriptor is closed.\<close>

definition probe_of :: "bool \<Rightarrow> u16 \<Rightarrow> int \<Rightarrow> u16 \<Rightarrow> trace_probe \<Rightarrow> bool" where
  "probe_of v6 ident ttl seq p \<longleftrightarrow> Tp_ttl p = ttl \<and> Tp_seq p = seq \<and>
     (Tp_calls p = [] \<and> Tp_code p = PINGDD_SOCKET_FAILURE \<or>
      Tp_calls p = [RawSocket, HopLimit ttl, SendEcho (icmp_packet v6 ident seq), CloseRaw]) \<and>
     Tp_code p \<in> {SUCCESS, PINGDD_SOCKET_TIMEOUT, PINGDD_SOCKET_FAILURE} \<and> (Tp_reached p \<longrightarrow> Tp_code p = SUCCESS)"

lemma trace_loop_codes:
  "trace_loop v6 timeout_ms ident seq tmr turns rbuf = Some (r, from, rtt, reached) \<Longrightarrow>
   r \<in> {SUCCESS, PINGDD_SOCKET_TIMEOUT} \<and> (reached \<longrightarrow> r = SUCCESS)"
  by (induction v6 timeout_ms ident seq tmr turns rbuf rule: trace_loop.induct)
    (auto simp: Let_def split: if_splits trace_wait.splits trace_recv.splits option.splits)

lemma TraceProbe_of: "TraceProbe v6 ttl timeout_ms ident seq e = Some p \<Longrightarrow> probe_of v6 ident ttl seq p"
  by (auto simp: TraceProbe_def probe_of_def Let_def dest: trace_loop_codes split: if_splits option.splits)

text \<open>What the run needs of the probe: each probe it makes has a property that belongs to its hop limit and its
  sequence number, and reports the destination only with an answer.\<close>

locale hop_prober =
  fixes probe :: "int \<Rightarrow> u16 \<Rightarrow> 'e \<Rightarrow> trace_probe option"
    and of_hop :: "int \<Rightarrow> u16 \<Rightarrow> trace_probe \<Rightarrow> bool"
  assumes probe_hop: "probe ttl seq e = Some p \<Longrightarrow> of_hop ttl seq p"
    and reached_answer: "of_hop ttl seq p \<Longrightarrow> Tp_reached p \<Longrightarrow> Tp_code p = SUCCESS"
begin

lemma trace_queries_log:
  "trace_queries probe sys cfg v6 hop q es last_ip st = Some (f, st') \<Longrightarrow>
   \<exists>ps. Tr_log st' = Tr_log st @ ps \<and> length ps \<le> q \<and> (\<not> f \<longrightarrow> length ps = q) \<and>
        Tr_seq st' = Tr_seq st + of_nat (length ps) \<and>
        (\<forall>j < length ps. of_hop hop (Tr_seq st + of_nat (j + 1)) (ps ! j)) \<and>
        (f \<longleftrightarrow> (\<exists>p \<in> set ps. Tp_code p = PINGDD_SOCKET_FAILURE)) \<and>
        (Tr_reached st' \<longleftrightarrow> Tr_reached st \<or> (\<exists>p \<in> set ps. Tp_reached p))"
proof (induction q arbitrary: es last_ip st f st')
  case (Suc q)
  obtain e es' where es: "es = e # es'" using Suc.prems by (cases es) auto
  obtain p where p: "probe hop (Tr_seq st + 1) e = Some p"
    using Suc.prems es by (auto split: option.splits)
  note po = probe_hop[OF p]
  show ?case
  proof (cases "Tp_code p = PINGDD_SOCKET_FAILURE")
    case True
    then show ?thesis
      using Suc.prems es p po reached_answer[OF po] by (intro exI[of _ "[p]"]) (auto simp: Let_def)
  next
    case False
    define st0 where "st0 = (if Tp_code p = PINGDD_SOCKET_TIMEOUT
      then say (FormattedPrint (Sy_color sys) PRINT_WHITE '' *'') (st\<lparr>Tr_seq := Tr_seq st + 1, Tr_log := Tr_log st @ [p]\<rparr>)
      else let st2 = say (answer_text sys cfg v6 last_ip p) (st\<lparr>Tr_seq := Tr_seq st + 1, Tr_log := Tr_log st @ [p]\<rparr>)
           in if Tp_reached p then st2\<lparr>Tr_reached := True\<rparr> else st2)"
    define ip where "ip = (if Tp_code p = PINGDD_SOCKET_TIMEOUT then last_ip
      else if Tp_from p \<noteq> last_ip then Tp_from p else last_ip)"
    have step: "trace_queries probe sys cfg v6 hop q es' ip st0 = Some (f, st')"
      using Suc.prems es p False by (auto simp: Let_def st0_def ip_def)
    from Suc.IH[OF step] obtain ps where ps: "Tr_log st' = Tr_log st0 @ ps" "length ps \<le> q" "\<not> f \<longrightarrow> length ps = q"
        "Tr_seq st' = Tr_seq st0 + of_nat (length ps)"
        "\<And>j. j < length ps \<Longrightarrow> of_hop hop (Tr_seq st0 + of_nat (j + 1)) (ps ! j)"
        "f \<longleftrightarrow> (\<exists>p \<in> set ps. Tp_code p = PINGDD_SOCKET_FAILURE)"
        "Tr_reached st' \<longleftrightarrow> Tr_reached st0 \<or> (\<exists>p \<in> set ps. Tp_reached p)"
      by blast
    have s0: "Tr_log st0 = Tr_log st @ [p]" "Tr_seq st0 = Tr_seq st + 1" "Tr_reached st0 \<longleftrightarrow> Tr_reached st \<or> Tp_reached p"
      using reached_answer[OF po] by (auto simp: st0_def Let_def)
    have "of_hop hop (Tr_seq st + of_nat (j + 1)) ((p # ps) ! j)" if "j < length (p # ps)" for j
      using ps(5)[of "j - 1"] that po s0(2) by (cases j) (auto simp: add.assoc)
    then show ?thesis
      using ps s0 False by (intro exI[of _ "p # ps"]) (auto simp: add.assoc)
  qed
qed auto

end

text \<open>Probe \<open>k\<close> of a run belongs to hop \<open>k div q + 1\<close> and has the sequence number \<open>k + 1\<close>; after a hop that
  reached the destination there is no other one.\<close>

definition run_log :: "(int \<Rightarrow> u16 \<Rightarrow> trace_probe \<Rightarrow> bool) \<Rightarrow> nat \<Rightarrow> trace_probe list \<Rightarrow> bool" where
  "run_log of_hop q plog \<longleftrightarrow>
     (\<forall>k < length plog. of_hop (int (k div q) + 1) (of_nat (k + 1)) (plog ! k) \<and>
        (Tp_reached (plog ! k) \<longrightarrow> length plog \<le> q * (k div q + 1)))"

definition refused :: "trace_probe list \<Rightarrow> bool" where
  "refused plog \<longleftrightarrow> (\<exists>p \<in> set plog. Tp_code p = PINGDD_SOCKET_FAILURE)"

lemma run_log_hop:
  assumes "run_log of_hop q plog" "length plog = q * h" "\<And>p. p \<in> set plog \<Longrightarrow> \<not> Tp_reached p" "length ps \<le> q"
    and ps: "\<And>j. j < length ps \<Longrightarrow> of_hop (int h + 1) (of_nat (length plog) + of_nat (j + 1)) (ps ! j)"
  shows "run_log of_hop q (plog @ ps)"
  unfolding run_log_def
proof (intro allI impI)
  fix k assume k: "k < length (plog @ ps)"
  show "of_hop (int (k div q) + 1) (of_nat (k + 1)) ((plog @ ps) ! k) \<and>
      (Tp_reached ((plog @ ps) ! k) \<longrightarrow> length (plog @ ps) \<le> q * (k div q + 1))"
  proof (cases "k < length plog")
    case True
    then show ?thesis using assms(1,3) by (auto simp: run_log_def nth_append)
  next
    case False
    define j where "j = k - length plog"
    have kj: "k = q * h + j" "j < length ps" using False k assms(2) by (auto simp: j_def)
    then have q0: "0 < q" "j < q" using assms(4) by auto
    have dv: "k div q = h" using kj(1) q0 by simp
    show ?thesis
      using ps[OF kj(2)] assms(2,4) kj False by (simp add: dv nth_append ac_simps)
  qed
qed

text \<open>The state between two hops: \<open>h\<close> hops are done.\<close>

definition between_hops :: "(int \<Rightarrow> u16 \<Rightarrow> trace_probe \<Rightarrow> bool) \<Rightarrow> nat \<Rightarrow> nat \<Rightarrow> trace_state \<Rightarrow> bool" where
  "between_hops of_hop q h st \<longleftrightarrow> length (Tr_log st) = q * h \<and> Tr_seq st = of_nat (length (Tr_log st)) \<and>
     run_log of_hop q (Tr_log st) \<and> \<not> refused (Tr_log st) \<and>
     (Tr_reached st \<longleftrightarrow> (\<exists>p \<in> set (Tr_log st). Tp_reached p))"

definition run_done :: "(int \<Rightarrow> u16 \<Rightarrow> trace_probe \<Rightarrow> bool) \<Rightarrow> nat \<Rightarrow> nat \<Rightarrow> bool \<Rightarrow> trace_state \<Rightarrow> bool" where
  "run_done of_hop q h f st \<longleftrightarrow> run_log of_hop q (Tr_log st) \<and> (f \<longleftrightarrow> refused (Tr_log st)) \<and>
     (Tr_reached st \<longleftrightarrow> (\<exists>p \<in> set (Tr_log st). Tp_reached p)) \<and> length (Tr_log st) \<le> q * h"

lemma between_hops_say [simp]: "between_hops of_hop q h (say s st) = between_hops of_hop q h st"
  by (simp add: between_hops_def)

lemma between_hops_done: "between_hops of_hop q h st \<Longrightarrow> h \<le> m \<Longrightarrow> run_done of_hop q m False st"
  by (auto simp: between_hops_def run_done_def intro: mult_le_mono2)

context hop_prober begin

lemma trace_queries_hop:
  assumes "between_hops of_hop q h st" "\<not> Tr_reached st" "trace_queries probe sys cfg v6 (int h + 1) q es last_ip st = Some (g, st1)"
  shows "run_done of_hop q (Suc h) g st1 \<and> (\<not> g \<longrightarrow> between_hops of_hop q (Suc h) st1)"
proof -
  from trace_queries_log[OF assms(3)] obtain ps where ps: "Tr_log st1 = Tr_log st @ ps" "length ps \<le> q"
      "\<not> g \<longrightarrow> length ps = q" "Tr_seq st1 = Tr_seq st + of_nat (length ps)"
      "\<And>j. j < length ps \<Longrightarrow> of_hop (int h + 1) (Tr_seq st + of_nat (j + 1)) (ps ! j)"
      "g \<longleftrightarrow> (\<exists>p \<in> set ps. Tp_code p = PINGDD_SOCKET_FAILURE)"
      "Tr_reached st1 \<longleftrightarrow> Tr_reached st \<or> (\<exists>p \<in> set ps. Tp_reached p)"
    by auto
  have notreached: "\<not> Tp_reached p" if "p \<in> set (Tr_log st)" for p
    using assms(1,2) that by (auto simp: between_hops_def)
  have "run_log of_hop q (Tr_log st @ ps)"
    by (rule run_log_hop[where h = h]) (use assms(1) ps(2,5) notreached in \<open>auto simp: between_hops_def\<close>)
  then show ?thesis
    using assms(1) ps by (auto simp: between_hops_def run_done_def refused_def)
qed

lemma trace_hops_log:
  "trace_hops probe sys cfg v6 (int h + 1) rounds st = Some (f, st') \<Longrightarrow>
   between_hops of_hop (nat (TrQueries cfg)) h st \<Longrightarrow> h \<le> nat (TrMaxHops cfg) \<Longrightarrow>
   run_done of_hop (nat (TrQueries cfg)) (nat (TrMaxHops cfg)) f st'"
proof (induction rounds arbitrary: h st)
  case Nil
  then show ?case by (subst (asm) trace_hops.simps) (auto intro: between_hops_done split: if_splits)
next
  case (Cons rnd rounds)
  let ?q = "nat (TrQueries cfg)" and ?m = "nat (TrMaxHops cfg)"
  obtain interrupted es where r: "rnd = (interrupted, es)" by (cases rnd)
  show ?case
  proof (cases "int h + 1 \<le> TrMaxHops cfg \<and> \<not> Tr_reached st \<and> \<not> interrupted")
    case False
    then show ?thesis
      using Cons.prems r by (subst (asm) trace_hops.simps) (auto intro: between_hops_done split: if_splits)
  next
    case True
    let ?st0 = "say (FormattedPrint (Sy_color sys) PRINT_WHITE (bounded_copy 360 (fmt_width 2 (fmt_int (int h + 1)) @ '' ''))) st"
    obtain g st1 where q1: "trace_queries probe sys cfg v6 (int h + 1) ?q es [] ?st0 = Some (g, st1)"
      and rest: "if g then f \<and> st' = st1
        else trace_hops probe sys cfg v6 (int h + 1 + 1) rounds (say (newline # ResetColor (Sy_color sys)) st1) = Some (f, st')"
      using Cons.prems(1) True r by (subst (asm) trace_hops.simps) (auto split: option.splits bool.splits)
    have hop: "run_done of_hop ?q (Suc h) g st1" "\<not> g \<longrightarrow> between_hops of_hop ?q (Suc h) st1" "Suc h \<le> ?m"
      using trace_queries_hop[OF _ _ q1] Cons.prems(2) True by auto
    show ?thesis
    proof (cases g)
      case True
      then show ?thesis
        using rest hop(1) order_trans[OF _ mult_le_mono2[OF hop(3)]] by (auto simp: run_done_def)
    next
      case False
      then show ?thesis using Cons.IH[of "Suc h"] rest hop(2,3) by (simp add: add.commute)
    qed
  qed
qed

text \<open>The run as a whole.\<close>

lemma trace_run_log:
  assumes "trace_hops probe sys cfg v6 1 rounds (trace_start sys target cfg) = Some (f, st)"
  shows "run_log of_hop (nat (TrQueries cfg)) (Tr_log st) \<and>
    length (Tr_log st) \<le> nat (TrQueries cfg) * nat (TrMaxHops cfg) \<and>
    (Tr_reached st \<and> \<not> f \<longleftrightarrow> (\<exists>p \<in> set (Tr_log st). Tp_reached p) \<and> \<not> refused (Tr_log st))"
proof -
  have "trace_hops probe sys cfg v6 (int 0 + 1) rounds (trace_start sys target cfg) = Some (f, st)" using assms by simp
  from trace_hops_log[OF this] show ?thesis
    by (auto simp: trace_start_def between_hops_def run_done_def run_log_def refused_def)
qed

end

interpretation posix: hop_prober "\<lambda>ttl seq e. TraceProbe v6 ttl timeout_ms ident seq e" "probe_of v6 ident"
  for v6 timeout_ms ident
  by unfold_locales (auto dest: TraceProbe_of simp: probe_of_def)

section \<open>Returning\<close>

text \<open>The clock shows at some turn of the loop that the time limit is over.\<close>

definition times_out :: "u32 \<Rightarrow> trace_env \<Rightarrow> bool" where
  "times_out timeout_ms e \<longleftrightarrow>
     list_ex (\<lambda>t. remaining_ms timeout_ms (elapsed_sec (Tv_begin e) (turn_now t)) \<le> 0) (Tv_turns e)"

lemma trace_loop_returns:
  "list_ex (\<lambda>t. remaining_ms timeout_ms (fst (Timer_Stop (turn_now t) tmr)) \<le> 0) turns \<Longrightarrow>
   trace_loop v6 timeout_ms ident seq tmr turns rbuf \<noteq> None"
  by (induction v6 timeout_ms ident seq tmr turns rbuf rule: trace_loop.induct)
    (auto simp: Let_def split: trace_wait.splits trace_recv.splits option.splits)

lemma TraceProbe_returns:
  assumes "times_out timeout_ms e"
  shows "TraceProbe v6 ttl timeout_ms ident seq e \<noteq> None"
proof -
  let ?t = "Timer_Start (Tv_begin e) \<lparr>hasValue = False, start = \<lparr>tv_sec = 0, tv_nsec = 0\<rparr>\<rparr>"
  have "trace_loop v6 timeout_ms ident seq ?t (Tv_turns e) (Tv_junk e) \<noteq> None"
    by (rule trace_loop_returns) (use assms in \<open>simp add: times_out_def Timer_Start_def Timer_Stop_def\<close>)
  then show ?thesis by (auto simp: TraceProbe_def Let_def)
qed

lemma trace_queries_returns:
  "q \<le> length es \<Longrightarrow> (\<And>ttl seq e. e \<in> set es \<Longrightarrow> probe ttl seq e \<noteq> None) \<Longrightarrow>
   trace_queries probe sys cfg v6 hop q es last_ip st \<noteq> None"
  by (induction probe sys cfg v6 hop q es last_ip st rule: trace_queries.induct)
    (auto simp: Let_def simp del: not_None_eq split: option.splits)

lemma trace_hops_returns:
  assumes "\<And>i es. (i, es) \<in> set rounds \<Longrightarrow> nat (TrQueries cfg) \<le> length es"
    and "\<And>i es e ttl seq. (i, es) \<in> set rounds \<Longrightarrow> e \<in> set es \<Longrightarrow> probe ttl seq e \<noteq> None"
    and "TrMaxHops cfg \<le> int (length rounds) + hop - 1"
  shows "trace_hops probe sys cfg v6 hop rounds st \<noteq> None"
  using assms
proof (induction rounds arbitrary: hop st)
  case Nil
  then show ?case by (subst trace_hops.simps) simp
next
  case (Cons rnd rounds)
  obtain i es where r: "rnd = (i, es)" by (cases rnd)
  have q: "trace_queries probe sys cfg v6 hop (nat (TrQueries cfg)) es last_ip st' \<noteq> None" for last_ip st'
    by (rule trace_queries_returns) (use Cons.prems(1,2)[of i es] r in \<open>auto simp del: not_None_eq\<close>)
  have later: "(i, es) \<in> set rounds \<Longrightarrow> (i, es) \<in> set (rnd # rounds)" for i es by simp
  have "trace_hops probe sys cfg v6 (hop + 1) rounds st' \<noteq> None" for st'
    by (rule Cons.IH[OF Cons.prems(1)[OF later] Cons.prems(2)[OF later]]) (use Cons.prems(3) in simp_all)
  then show ?case
    by (subst trace_hops.simps) (auto simp: r q simp del: not_None_eq split: option.splits bool.splits)
qed

section \<open>A path of two hops\<close>

definition demo_header :: "u8 list" where "demo_header = 0x45 # replicate 19 0"

definition demo_clock :: "nat \<Rightarrow> timespec" where
  "demo_clock seconds = \<lparr>tv_sec = 10 + int seconds, tv_nsec = 0\<rparr>"

definition demo_env :: "trace_turn list \<Rightarrow> trace_env" where
  "demo_env turns = \<lparr>Tv_socket = True, Tv_send = True, Tv_begin = demo_clock 0,
     Tv_turns = turns @ [Turn_of (demo_clock 20) Wait_over Got_nothing (demo_clock 0)], Tv_junk = replicate 1500 0\<rparr>"

text \<open>A router, which quotes the packet, and the destination; the answer to the second query is for
  another process at first.\<close>

definition demo_router :: "u16 \<Rightarrow> trace_env" where
  "demo_router seq = demo_env [Turn_of (demo_clock 0) Wait_ready
     (Got_packet ''10.0.0.1'' (demo_header @ icmp_error 11 [0] (demo_header @ icmp_packet False 7 seq))) (demo_clock 5)]"

definition demo_destination :: "u16 \<Rightarrow> trace_env" where
  "demo_destination seq = demo_env
     [Turn_of (demo_clock 0) Wait_eintr Got_nothing (demo_clock 0),
      Turn_of (demo_clock 0) Wait_ready
        (Got_packet ''192.0.2.9'' (demo_header @ echo_reply_of False (icmp_packet False 8 seq))) (demo_clock 2),
      Turn_of (demo_clock 0) Wait_ready
        (Got_packet ''192.0.2.9'' (demo_header @ echo_reply_of False (icmp_packet False 7 seq))) (demo_clock 8)]"

definition demo_sys :: trace_sys where
  "demo_sys = \<lparr>Sy_color = False, Sy_pid = 7, Sy_pton = (\<lambda>v6 ip. Inet 0 0), Sy_names = (\<lambda>addr. None)\<rparr>"

definition demo_target :: host_t where
  "demo_target = blank_host\<lparr>Hostname := ''example.org'', IPAddress := ''192.0.2.9'', Addrs := [Inet 0xC0000209 0]\<rparr>"

definition demo_cfg :: trace_cfg_t where
  "demo_cfg = \<lparr>TrMaxHops = 3, TrQueries = 1, TrTimeoutMs = 10000, TrResolve = True\<rparr>"

definition demo_rounds :: "(bool \<times> trace_env list) list" where
  "demo_rounds = [(False, [demo_router 1]), (False, [demo_destination 2]), (False, [demo_env []])]"

lemma demo_span: "n < 1000 \<Longrightarrow> fst (Timer_Stop (demo_clock n) (Timer_Start (demo_clock 0) t)) = Fin (of_nat n)"
  using f64_of_int_exact[of "int n"] to_f64_nat[of n]
  by (simp add: Timer_Start_def Timer_Stop_def elapsed_sec_def demo_clock_def f64_of_int_def)

lemma demo_limit: "remaining_ms 10000 (Fin 0) = 10000"
  by (simp add: remaining_ms_def)

lemma demo_ms: "fmt_fixed 3 (to_f64 5000) = ''5000.000''" "fmt_fixed 3 (to_f64 8000) = ''8000.000''"
proof -
  have "replicate 2 (CHR ''0'') = ''00''" by (simp add: numeral_2_eq_2)
  then show "fmt_fixed 3 (to_f64 5000) = ''5000.000''" "fmt_fixed 3 (to_f64 8000) = ''8000.000''"
    using to_f64_nat[of 5000] to_f64_nat[of 8000] round_half_even_of_int[of 5000000] round_half_even_of_int[of 8000000]
    by (simp_all add: fixed_digits_def fmt_pad_def c_lib_simps)
qed

lemma demo_matches:
  "trace_match False 7 1 (into_rbuf (demo_header @ icmp_error 11 [0] (demo_header @ icmp_packet False 7 1)) (replicate 1500 0)) 64 = Some False"
  "trace_match False 7 2 (into_rbuf (demo_header @ echo_reply_of False (icmp_packet False 8 2)) (replicate 1500 0)) 36 = None"
  "trace_match False 7 2 (into_rbuf (demo_header @ echo_reply_of False (icmp_packet False 7 2))
     (into_rbuf (demo_header @ echo_reply_of False (icmp_packet False 8 2)) (replicate 1500 0))) 36 = Some True"
  by code_simp+

lemma demo_lengths:
  "length demo_header = 20" "length (icmp_error t x q) = 8 + length q" "length (echo_reply_of v6 q) = length q"
  by (simp_all add: demo_header_def icmp_error_def echo_reply_of_def)

lemma demo_probes:
  "TraceProbe False 1 10000 7 1 (demo_router 1) = Some \<lparr>Tp_ttl = 1, Tp_seq = 1, Tp_code = SUCCESS, Tp_from = ''10.0.0.1'',
     Tp_rtt = Fin 5, Tp_reached = False, Tp_calls = [RawSocket, HopLimit 1, SendEcho (icmp_packet False 7 1), CloseRaw]\<rparr>"
  "TraceProbe False 2 10000 7 2 (demo_destination 2) = Some \<lparr>Tp_ttl = 2, Tp_seq = 2, Tp_code = SUCCESS, Tp_from = ''192.0.2.9'',
     Tp_rtt = Fin 8, Tp_reached = True, Tp_calls = [RawSocket, HopLimit 2, SendEcho (icmp_packet False 7 2), CloseRaw]\<rparr>"
  using demo_matches
  by (simp_all add: TraceProbe_def demo_router_def demo_destination_def demo_env_def demo_limit demo_span demo_lengths
      rbuf_size_def Let_def)

lemma demo_run:
  "\<exists>plog. length plog = 2 \<and> Traceroute_Run demo_sys demo_target demo_cfg demo_rounds =
   Some (SUCCESS, ''traceroute to example.org (192.0.2.9), 3 hops max'' @ [newline] @
     '' 1  10.0.0.1  5000.000 ms'' @ [newline] @ '' 2  192.0.2.9  8000.000 ms'' @ [newline], plog)"
  by (simp add: Traceroute_Run_def Traceroute_with_def trace_start_def trace_head_def demo_sys_def demo_target_def demo_cfg_def demo_rounds_def blank_host_def uint16_def
    trace_hops.simps[where hop = 1] trace_hops.simps[where hop = 2] trace_hops.simps[where hop = 3] demo_probes
    c_lib_simps FormattedPrint_def ResetColor_def answer_text_def hop_text_def ReverseResolve_def demo_ms fmt_width_def fmt_int_def Let_def)
section \<open>Properties\<close>

text \<open>C16: For every header, every identifier and every rest of the receive buffer, the echo reply of the
  destination to our packet means that it is reached, a router that quotes our packet in a time exceeded
  message is a hop, one that quotes it in an unreachable message counts as the destination, and a packet for
  another sequence number is not taken. A reply for another identifier is taken over IPv6 only, and the
  identifier of a quoted packet is not looked at.\<close>

theorem trace_match_answers:
  fixes h hdr hd4 junk :: "u8 list" and i s :: u16
  assumes "ip_header v6 h" "quoted_header v6 hdr" "8 \<le> m"
  defines "reply \<equiv> h @ echo_reply_of v6 (icmp_packet v6 i s)"
    and "err \<equiv> (\<lambda>t. h @ icmp_error t hd4 (hdr @ take m (icmp_packet v6 i s)))"
  shows "trace_match v6 ident seq (into_rbuf reply junk) (length reply) =
      (if s = seq \<and> (i = ident \<or> v6) then Some True else None) \<and>
    (\<forall>t \<in> {time_exceeded v6, unreachable v6}.
       trace_match v6 ident seq (into_rbuf (err t) junk) (length (err t)) =
         (if s = seq then Some (t = unreachable v6) else None))"
proof (intro conjI ballI)
  have hb: "length h \<le> 255" "length hdr \<le> 255"
    using assms(1,2) ihl_small by (auto simp: ip_header_def quoted_header_def split: if_splits)
  obtain a x where ax: "echo_reply_of v6 (icmp_packet v6 i s) = a # x" "a = (if v6 then 129 else 0)"
      "icmp_packet v6 i s = hd (icmp_packet v6 i s) # x" "length (a # x) = 16"
    using icmp_packet_length[of v6 i s] by (cases "icmp_packet v6 i s") (auto simp: echo_reply_of_def)
  have x: "x ! k = icmp_packet v6 i s ! Suc k" for k by (metis ax(3) nth_Cons_Suc)
  have f: "be16 (x ! 3) (x ! 4) = i" "be16 (x ! 5) (x ! 6) = s"
    using ident_fields[of v6 i s] by (simp_all add: x eval_nat_numeral)
  have "length reply \<le> rbuf_size" using hb(1) ax by (simp add: reply_def rbuf_size_def)
  then have "trace_match v6 ident seq (into_rbuf reply junk) (length reply) = trace_match v6 ident seq reply (length reply)"
    by (rule trace_match_rbuf)
  also have "\<dots> = (if s = seq \<and> (i = ident \<or> v6) then Some True else None)"
    unfolding reply_def ax(1) by (subst trace_echo[OF assms(1)]) (use ax(2,4) f in auto)
  finally show "trace_match v6 ident seq (into_rbuf reply junk) (length reply) =
      (if s = seq \<and> (i = ident \<or> v6) then Some True else None)" .
  fix t assume t: "t \<in> {time_exceeded v6, unreachable v6}"
  have q: "8 \<le> length (take m (icmp_packet v6 i s))" using assms(3) by simp
  have "length (err t) \<le> rbuf_size" using hb by (simp add: err_def icmp_error_def rbuf_size_def)
  then have "trace_match v6 ident seq (into_rbuf (err t) junk) (length (err t)) = trace_match v6 ident seq (err t) (length (err t))"
    by (rule trace_match_rbuf)
  also have "\<dots> = (if s = seq then Some (t = unreachable v6) else None)"
    unfolding err_def by (subst trace_error[OF assms(1,2) _ q refl]) (use t assms(3) ident_fields[of v6 i s] in auto)
  finally show "trace_match v6 ident seq (into_rbuf (err t) junk) (length (err t)) =
      (if s = seq then Some (t = unreachable v6) else None)" .
qed

theorem trace_match_answers_witness:
  "trace_match False 7 2 (into_rbuf (demo_header @ echo_reply_of False (icmp_packet False 7 2)) []) 36 = Some True \<and>
   trace_match False 7 2 (into_rbuf (demo_header @ icmp_error 11 [] (demo_header @ take 8 (icmp_packet False 7 2))) []) 56 = Some False"
proof -
  have "unat ((0x45 AND 0x0F) * 4 :: u8) = 20" by code_simp
  then have "ip_header False demo_header" "quoted_header False demo_header"
    by (simp_all add: ip_header_def quoted_header_def ihl_bytes_def demo_header_def)
  from trace_match_answers[OF this, of 8 7 2 7 2 "[]" "[]"] show ?thesis
    by (simp add: demo_lengths time_exceeded_def unreachable_def)
qed

text \<open>C15: Probe \<open>k\<close> of a run has hop limit \<open>k div q + 1\<close> and sequence number \<open>k + 1\<close>, sends the ICMP
  packet of that number and closes its descriptor; there are at most \<open>q\<close> probes for each of \<open>MaxHops\<close> hops
  and none after the hop that reached the destination; the run succeeds exactly when a probe reached it and
  no raw socket was refused.\<close>

theorem Traceroute_Run_log:
  assumes "Traceroute_Run sys target cfg rounds = Some (r, out, plog)" "Addrs target \<noteq> []"
  shows "run_log (probe_of (is_v6 (hd (Addrs target))) (uint16 (Sy_pid sys))) (nat (TrQueries cfg)) plog \<and>
    length plog \<le> nat (TrQueries cfg) * nat (TrMaxHops cfg) \<and>
    (r = SUCCESS \<longleftrightarrow> (\<exists>p \<in> set plog. Tp_reached p) \<and> \<not> refused plog)"
  using assms
  by (cases "Addrs target") (auto simp: Traceroute_Run_def Traceroute_with_def split: option.splits if_splits dest!: posix.trace_run_log)

theorem Traceroute_Run_log_witness:
  "\<exists>r out plog. Traceroute_Run demo_sys demo_target demo_cfg demo_rounds = Some (r, out, plog) \<and>
     r = SUCCESS \<and> length plog = 2 \<and> (\<exists>p \<in> set plog. Tp_reached p)"
proof -
  obtain out plog where run: "length plog = 2" "Traceroute_Run demo_sys demo_target demo_cfg demo_rounds = Some (SUCCESS, out, plog)"
    using demo_run by blast
  have "Addrs demo_target \<noteq> []" by (simp add: demo_target_def)
  from Traceroute_Run_log[OF run(2) this] run show ?thesis by auto
qed

text \<open>A run returns, whatever the routers send and however often they send something else, when the
  clock passes the time limit of each probe.\<close>

theorem Traceroute_Run_returns:
  assumes "\<And>i es. (i, es) \<in> set rounds \<Longrightarrow> nat (TrQueries cfg) \<le> length es \<and> (\<forall>e \<in> set es. times_out (TrTimeoutMs cfg) e)"
    and "TrMaxHops cfg \<le> int (length rounds)"
  shows "\<exists>r out plog. Traceroute_Run sys target cfg rounds = Some (r, out, plog)"
proof -
  have "trace_hops (\<lambda>ttl seq e. TraceProbe v6 ttl (TrTimeoutMs cfg) ident seq e) sys cfg v6 1 rounds st \<noteq> None" for v6 ident st
    by (rule trace_hops_returns) (use assms TraceProbe_returns in auto)
  then show ?thesis
    by (cases "Addrs target") (auto simp: Traceroute_Run_def Traceroute_with_def split: option.splits)
qed

theorem Traceroute_Run_returns_witness:
  "\<exists>r out plog. Traceroute_Run demo_sys demo_target demo_cfg [(False, [demo_env []]), (False, [demo_env []]), (True, [demo_env []])] =
     Some (r, out, plog)"
proof (rule Traceroute_Run_returns)
  have "remaining_ms 10000 (fst (Timer_Stop (demo_clock 20) (Timer_Start (demo_clock 0) t))) = - 10000" for t
    using to_f64_nat[of 20000] by (simp add: demo_span remaining_ms_def)
  then have "times_out 10000 (demo_env [])"
    by (simp add: times_out_def demo_env_def Timer_Start_def Timer_Stop_def)
  then show "nat (TrQueries demo_cfg) \<le> length es \<and> (\<forall>e \<in> set es. times_out (TrTimeoutMs demo_cfg) e)"
    if "(i, es) \<in> set [(False, [demo_env []]), (False, [demo_env []]), (True, [demo_env []])]" for i es
    using that by (auto simp: demo_cfg_def)
qed (simp add: demo_cfg_def)

end
