(* ===== verification/LoadTest.thy ===== *)
theory LoadTest
  imports Report Usage
begin

text \<open>
  \<open>loadtest.c\<close> and \<open>RunLoadTestMode\<close> of \<open>main.c\<close>: the loop of a worker, the derived figures, the run that
  starts the workers and merges their results, the sweep over rising numbers of workers, and what is printed.
  A worker reads the clock and the interrupt flag and calls \<open>Connect\<close>; what it gets is a list, so that a
  worker whose list ends has no value. Workers share nothing else, so no order between them is needed.
\<close>

section \<open>Configuration and result\<close>

abbreviation LOADTEST_MAX_CONCURRENCY :: u32 where "LOADTEST_MAX_CONCURRENCY \<equiv> 256"

record loadtest_cfg_t =
  Lc_Host :: "host_t option"
  Lc_TimeoutMs :: u32
  Lc_Concurrency :: u32
  Lc_DurationMs :: u32
  Lc_Silent :: bool

record loadtest_result_t =
  Lt_Concurrency :: u32
  Lt_DurationSec :: f64
  Lt_Attempts :: ulong
  Lt_Success :: ulong
  Lt_Failed :: ulong
  Lt_TotalRtt :: f64
  Lt_TotalRttSq :: f64
  Lt_MinRtt :: f64
  Lt_MaxRtt :: f64

definition zero_result :: loadtest_result_t where
  "zero_result = \<lparr>Lt_Concurrency = 0, Lt_DurationSec = Fin 0, Lt_Attempts = 0, Lt_Success = 0, Lt_Failed = 0,
     Lt_TotalRtt = Fin 0, Lt_TotalRttSq = Fin 0, Lt_MinRtt = Fin 0, Lt_MaxRtt = Fin 0\<rparr>"

definition NowMs :: "timespec \<Rightarrow> f64" where
  "NowMs ts = fadd (fmul (f64_of_int (tv_sec ts)) (Fin 1000)) (fdiv (f64_of_int (tv_nsec ts)) (Fin 1000000))"

definition LoadTest_Rps :: "loadtest_result_t \<Rightarrow> f64" where
  "LoadTest_Rps r =
     (if fle (Lt_DurationSec r) (Fin 0) then Fin 0 else fdiv (f64_of_nat (unat (Lt_Success r))) (Lt_DurationSec r))"

definition LoadTest_AvgRtt :: "loadtest_result_t \<Rightarrow> f64" where
  "LoadTest_AvgRtt r = (if Lt_Success r = 0 then Fin 0 else fdiv (Lt_TotalRtt r) (f64_of_nat (unat (Lt_Success r))))"

definition LoadTest_StdDevRtt :: "loadtest_result_t \<Rightarrow> f64" where
  "LoadTest_StdDevRtt r =
     (if Lt_Success r = 0 then Fin 0
      else let n = f64_of_nat (unat (Lt_Success r)); mean = fdiv (Lt_TotalRtt r) n;
               var = fsub (fdiv (Lt_TotalRttSq r) n) (fmul mean mean)
           in fsqrt (if flt var (Fin 0) then Fin 0 else var))"

definition LossPct :: "loadtest_result_t \<Rightarrow> f64" where
  "LossPct r =
     (if Lt_Attempts r = 0 then Fin 0
      else fmul (fdiv (f64_of_nat (unat (Lt_Failed r))) (f64_of_nat (unat (Lt_Attempts r)))) (Fin 100))"

section \<open>A worker\<close>

text \<open>One turn: the clock, \<open>g_interrupted\<close>, and what \<open>Connect\<close> returns with the time it measured.\<close>

datatype worker_turn = Worker_turn timespec bool int f64

definition count_success :: "f64 \<Rightarrow> loadtest_result_t \<Rightarrow> loadtest_result_t" where
  "count_success rtt w =
     w\<lparr>Lt_Success := Lt_Success w + 1,
       Lt_TotalRtt := fadd (Lt_TotalRtt w) rtt,
       Lt_TotalRttSq := fadd (Lt_TotalRttSq w) (fmul rtt rtt),
       Lt_MinRtt := (if flt rtt (Lt_MinRtt w) then rtt else Lt_MinRtt w),
       Lt_MaxRtt := (if flt (Lt_MaxRtt w) rtt then rtt else Lt_MaxRtt w)\<rparr>"

fun worker_loop :: "f64 \<Rightarrow> worker_turn list \<Rightarrow> loadtest_result_t \<Rightarrow> loadtest_result_t option" where
  "worker_loop deadline [] w = None"
| "worker_loop deadline (Worker_turn now interrupted r rtt # turns) w =
     (if \<not> (flt (NowMs now) deadline \<and> \<not> interrupted) then Some w
      else let w1 = w\<lparr>Lt_Attempts := Lt_Attempts w + 1\<rparr>
           in if r = SUCCESS then worker_loop deadline turns (count_success rtt w1)
              else if r = PINGDD_INTERRUPTED then Some w1
              else worker_loop deadline turns (w1\<lparr>Lt_Failed := Lt_Failed w1 + 1\<rparr>))"

definition WorkerMain :: "f64 \<Rightarrow> worker_turn list \<Rightarrow> loadtest_result_t option" where
  "WorkerMain deadline turns =
     worker_loop deadline turns (zero_result\<lparr>Lt_MinRtt := Fin dbl_max, Lt_MaxRtt := Fin 0\<rparr>)"

section \<open>A run\<close>

text \<open>What a run finds: memory, the clock, for each worker whether its thread starts and its turns, the
  readings of the progress loop (clock, interrupt flag, clock), and the clock after the join.\<close>

record run_env =
  Re_color :: bool
  Re_calloc :: bool
  Re_start :: timespec
  Re_create :: "nat \<Rightarrow> bool"
  Re_turns :: "nat \<Rightarrow> worker_turn list"
  Re_ticks :: "(timespec \<times> bool \<times> timespec) list"
  Re_join :: timespec

definition clamp_concurrency :: "u32 \<Rightarrow> u32" where
  "clamp_concurrency c =
     (let c1 = (if c < 1 then 1 else c) in if c1 > LOADTEST_MAX_CONCURRENCY then LOADTEST_MAX_CONCURRENCY else c1)"

definition progress_line :: "bool \<Rightarrow> u32 \<Rightarrow> u32 \<Rightarrow> f64 \<Rightarrow> cstring" where
  "progress_line color conc duration_ms elapsed =
     FormattedPrint color PRINT_YELLOW
       (bounded_copy 96 (''  load: '' @ dec (unat conc) @ '' workers  '' @ fmt_fixed 0 elapsed @ ''/'' @
          fmt_fixed 0 (fdiv (f64_of_nat (unat duration_ms)) (Fin 1000)) @ ''s'' @ [CHR 0x0D]))"

fun progress_loop ::
  "bool \<Rightarrow> u32 \<Rightarrow> u32 \<Rightarrow> f64 \<Rightarrow> f64 \<Rightarrow> (timespec \<times> bool \<times> timespec) list \<Rightarrow> cstring \<Rightarrow> cstring option" where
  "progress_loop color conc duration_ms start_ms deadline [] out = None"
| "progress_loop color conc duration_ms start_ms deadline ((now, interrupted, now2) # ticks) out =
     (if \<not> (flt (NowMs now) deadline \<and> \<not> interrupted) then Some (out @ CHR 0x0D # replicate 45 (CHR '' '') @ [CHR 0x0D])
      else let elapsed = fdiv (fsub (NowMs now2) start_ms) (Fin 1000)
           in progress_loop color conc duration_ms start_ms deadline ticks
                (out @ progress_line color conc duration_ms elapsed))"

text \<open>Threads are started up to the first refusal; every one that started is joined.\<close>

definition started_workers :: "run_env \<Rightarrow> u32 \<Rightarrow> nat list" where
  "started_workers e conc = takeWhile (Re_create e) [0..<unat conc]"

fun join_workers :: "(nat \<Rightarrow> loadtest_result_t option) \<Rightarrow> nat list \<Rightarrow> loadtest_result_t list option" where
  "join_workers main [] = Some []"
| "join_workers main (n # ns) =
     (case main n of None \<Rightarrow> None | Some w \<Rightarrow> map_option (\<lambda>ws. w # ws) (join_workers main ns))"

definition merge_worker :: "loadtest_result_t \<Rightarrow> loadtest_result_t \<Rightarrow> loadtest_result_t" where
  "merge_worker w out =
     out\<lparr>Lt_Attempts := Lt_Attempts out + Lt_Attempts w,
         Lt_Success := Lt_Success out + Lt_Success w,
         Lt_Failed := Lt_Failed out + Lt_Failed w,
         Lt_TotalRtt := fadd (Lt_TotalRtt out) (Lt_TotalRtt w),
         Lt_TotalRttSq := fadd (Lt_TotalRttSq out) (Lt_TotalRttSq w),
         Lt_MinRtt := (if Lt_Success w > 0 \<and> flt (Lt_MinRtt w) (Lt_MinRtt out) then Lt_MinRtt w else Lt_MinRtt out),
         Lt_MaxRtt := (if flt (Lt_MaxRtt out) (Lt_MaxRtt w) then Lt_MaxRtt w else Lt_MaxRtt out)\<rparr>"

definition LoadTest_Run ::
  "loadtest_cfg_t \<Rightarrow> run_env \<Rightarrow> (int \<times> loadtest_result_t \<times> cstring) option" where
  "LoadTest_Run cfg e =
     (if Lc_Host cfg = None then Some (- 1, zero_result, [])
      else let conc = clamp_concurrency (Lc_Concurrency cfg)
      in if \<not> Re_calloc e then Some (- 1, zero_result, [])
         else let start_ms = NowMs (Re_start e);
                  deadline = fadd start_ms (f64_of_nat (unat (Lc_DurationMs cfg)))
         in (case (if Lc_Silent cfg then Some []
                   else progress_loop (Re_color e) conc (Lc_DurationMs cfg) start_ms deadline (Re_ticks e) []) of
               None \<Rightarrow> None
             | Some text \<Rightarrow>
                 (case join_workers (\<lambda>n. WorkerMain deadline (Re_turns e n)) (started_workers e conc) of
                    None \<Rightarrow> None
                  | Some ws \<Rightarrow>
                      (let out = fold merge_worker ws (zero_result\<lparr>Lt_Concurrency := conc,
                             Lt_DurationSec := fdiv (fsub (NowMs (Re_join e)) start_ms) (Fin 1000),
                             Lt_MinRtt := Fin dbl_max, Lt_MaxRtt := Fin 0\<rparr>)
                       in Some (0, if Lt_Success out = 0 then out\<lparr>Lt_MinRtt := Fin 0\<rparr> else out, text)))))"

section \<open>The resilience sweep\<close>

text \<open>The ramp has room for \<open>k\<close> further powers of two before the last level.\<close>

fun ramp :: "nat \<Rightarrow> u32 \<Rightarrow> u32 \<Rightarrow> u32 list" where
  "ramp 0 lvl max_conc = [max_conc]"
| "ramp (Suc k) lvl max_conc = (if lvl < max_conc then lvl # ramp k (lvl * 2) max_conc else [max_conc])"

definition phase_ms :: "u32 \<Rightarrow> nat \<Rightarrow> u32" where
  "phase_ms duration_ms level_count =
     (let p = duration_ms div of_nat level_count in if p < 500 then 500 else p)"

definition avg_ms :: "loadtest_result_t \<Rightarrow> f64" where
  "avg_ms r = fmul (LoadTest_AvgRtt r) (Fin 1000)"

definition degraded :: "f64 \<Rightarrow> f64 \<Rightarrow> loadtest_result_t \<Rightarrow> bool" where
  "degraded baseline_avg baseline_loss r \<longleftrightarrow>
     flt (fadd baseline_loss (Fin 2)) (LossPct r) \<or>
     flt (Fin 0) baseline_avg \<and> flt (fmul baseline_avg (Fin 2)) (avg_ms r)"

definition phase_line :: "bool \<Rightarrow> u32 \<Rightarrow> loadtest_result_t \<Rightarrow> bool \<Rightarrow> cstring" where
  "phase_line color level r bad =
     FormattedPrint color PRINT_BLUE
       (bounded_copy 160 (''  '' @ fmt_width 5 (dec (unat level)) @ ''  '' @ fmt_width 7 (fmt_fixed 0 (LoadTest_Rps r)) @
          ''  '' @ fmt_width 7 (fmt_fixed 2 (avg_ms r)) @ ''  '' @
          fmt_width 7 (fmt_fixed 2 (fmul (Lt_MaxRtt r) (Fin 1000))) @ ''  '' @ fmt_width 6 (fmt_fixed 2 (LossPct r)) @ ''   '')) @
     FormattedPrint color (if bad then PRINT_RED else PRINT_GREEN) (if bad then ''DEGRADED'' else ''ok'') @ [newline]"

record sweep_state =
  Sw_avg :: f64
  Sw_loss :: f64
  Sw_knee :: int
  Sw_out :: cstring
  Sw_log :: "(u32 \<times> loadtest_result_t) list"

definition sweep_step :: "bool \<Rightarrow> nat \<Rightarrow> u32 \<Rightarrow> loadtest_result_t \<Rightarrow> sweep_state \<Rightarrow> sweep_state" where
  "sweep_step color idx level r s =
     (let s1 = (if idx = 0 then s\<lparr>Sw_avg := avg_ms r, Sw_loss := LossPct r\<rparr> else s);
          bad = degraded (Sw_avg s1) (Sw_loss s1) r
      in s1\<lparr>Sw_knee := (if bad \<and> Sw_knee s1 < 0 then uint level else Sw_knee s1),
            Sw_out := Sw_out s1 @ phase_line color level r bad,
            Sw_log := Sw_log s1 @ [(level, r)]\<rparr>)"

text \<open>One round for each level: \<open>g_interrupted\<close> at the test of the loop, and what its run finds.\<close>

fun sweep_loop ::
  "bool \<Rightarrow> loadtest_cfg_t \<Rightarrow> nat \<Rightarrow> u32 list \<Rightarrow> (bool \<times> run_env) list \<Rightarrow> sweep_state \<Rightarrow> (bool \<times> sweep_state) option" where
  "sweep_loop color cfg idx [] rounds s = Some (True, s)"
| "sweep_loop color cfg idx (l # ls) [] s = None"
| "sweep_loop color cfg idx (l # ls) ((interrupted, e) # rounds) s =
     (if interrupted then Some (True, s)
      else (case LoadTest_Run (cfg\<lparr>Lc_Concurrency := l, Lc_Silent := True\<rparr>) e of
              None \<Rightarrow> None
            | Some (r, res, text) \<Rightarrow>
                if r \<noteq> 0 then Some (False, s)
                else sweep_loop color cfg (idx + 1) ls rounds (sweep_step color idx l res s)))"

definition verdict_line :: "bool \<Rightarrow> u32 \<Rightarrow> int \<Rightarrow> cstring" where
  "verdict_line color max_conc knee =
     (if knee \<ge> 0
      then FormattedPrint color PRINT_RED
             (bounded_copy 160 (''Verdict: degradation starts at ~'' @ fmt_int knee @ '' concurrent connections.'' @ [newline]))
      else FormattedPrint color PRINT_GREEN
             (bounded_copy 160 (''Verdict: held steady up to '' @ dec (unat max_conc) @ '' concurrent connections.'' @ [newline])))"

definition LoadTest_Resilience ::
  "bool \<Rightarrow> loadtest_cfg_t \<Rightarrow> (bool \<times> run_env) list \<Rightarrow> (int \<times> sweep_state) option" where
  "LoadTest_Resilience color cfg rounds =
     (let s0 = \<lparr>Sw_avg = Fin 0, Sw_loss = Fin 0, Sw_knee = - 1, Sw_out = [], Sw_log = []\<rparr>
      in if Lc_Host cfg = None then Some (- 1, s0)
         else let max_conc = clamp_concurrency (Lc_Concurrency cfg); levels = ramp 15 1 max_conc;
                  head = FormattedPrint color PRINT_YELLOW (''Resilience sweep (ramping concurrency)'' @ [newline]) @
                         FormattedPrint color PRINT_WHITE
                           (''  level  conn/s   avg ms   max ms   loss%   status'' @ [newline]) @ ResetColor color
              in (case sweep_loop color (cfg\<lparr>Lc_DurationMs := phase_ms (Lc_DurationMs cfg) (length levels)\<rparr>) 0 levels rounds
                         (s0\<lparr>Sw_out := head\<rparr>) of
                    None \<Rightarrow> None
                  | Some (False, s) \<Rightarrow> Some (- 1, s)
                  | Some (True, s) \<Rightarrow>
                      Some (0, s\<lparr>Sw_out := Sw_out s @ verdict_line color max_conc (Sw_knee s) @ ResetColor color\<rparr>)))"

section \<open>The mode of the program\<close>

definition load_header :: "bool \<Rightarrow> arguments_t \<Rightarrow> host_t \<Rightarrow> cstring" where
  "load_header color a h =
     (let buf = bounded_copy 256; yellow = FormattedPrint color PRINT_YELLOW; proto = ProtoLabel (HostType h) (IPAddress h)
      in FormattedPrint color PRINT_BLUE (buf (''PingDD v2.1.0'' @ [newline])) @
         FormattedPrint color PRINT_RED (if Resilience a then ''AUTHORIZED RESILIENCE TEST'' else ''AUTHORIZED LOAD TEST'') @
         yellow '' against '' @ FormattedPrint color PRINT_GREEN (Hostname h) @
         yellow (buf (if HostType h = IPPROTO_ICMP then '' ('' @ IPAddress h @ '') '' @ proto
                      else '' ('' @ IPAddress h @ '') port '' @ dec (unat (HostPort h)) @ '' '' @ proto)) @
         yellow (buf (''  [concurrency '' @ dec (unat (Concurrency a)) @ '', '' @ dec (unat (DurationMs a div 1000)) @
           '' s]'' @ [newline])) @ ResetColor color)"

definition load_report :: "bool \<Rightarrow> loadtest_result_t \<Rightarrow> cstring" where
  "load_report color r =
     (let buf = bounded_copy 256; blue = FormattedPrint color PRINT_BLUE; ms4 = (\<lambda>x. fmt_fixed 4 (fmul x (Fin 1000)));
          loss = LossPct r
      in FormattedPrint color PRINT_YELLOW ([newline] @ ''Load test result:'' @ [newline]) @ ResetColor color @
         blue (buf (''        duration    = '' @ fmt_fixed 2 (Lt_DurationSec r) @ '' s , concurrency = '' @
           dec (unat (Lt_Concurrency r)) @ [newline])) @
         blue (buf (''        connections = '' @ lu (Lt_Attempts r) @ '' ( '' @ lu (Lt_Success r) @ '' ok , '' @
           lu (Lt_Failed r) @ '' failed , '' @ fmt_fixed 2 loss @ ''% loss )'' @ [newline])) @
         blue (buf (''        throughput  = '' @ fmt_fixed 0 (LoadTest_Rps r) @ '' conn/s'' @ [newline])) @
         (if Lt_Success r > 0
          then blue (buf (''        latency     = '' @ ms4 (Lt_MinRtt r) @ '' / '' @ ms4 (LoadTest_AvgRtt r) @ '' / '' @
                 ms4 (Lt_MaxRtt r) @ '' / '' @ ms4 (LoadTest_StdDevRtt r) @ '' ms (min/avg/max/stddev)'' @ [newline]))
          else []) @ ResetColor color)"

text \<open>Exit status and standard output.\<close>

definition RunLoadTestMode ::
  "bool \<Rightarrow> arguments_t \<Rightarrow> host_t \<Rightarrow> run_env \<Rightarrow> (bool \<times> run_env) list \<Rightarrow> (int \<times> cstring) option" where
  "RunLoadTestMode color a h e rounds =
     (let head = load_header color a h;
          cfg = \<lparr>Lc_Host = Some h, Lc_TimeoutMs = Timeout a, Lc_Concurrency = Concurrency a,
                 Lc_DurationMs = DurationMs a, Lc_Silent = False\<rparr>
      in if Resilience a
         then (case LoadTest_Resilience color cfg rounds of
                 None \<Rightarrow> None
               | Some (r, s) \<Rightarrow>
                   Some (if r \<noteq> 0 then (1, head @ Sw_out s @ PrintError color ''Resilience test failed to start'')
                         else (0, head @ Sw_out s)))
         else (case LoadTest_Run cfg e of
                 None \<Rightarrow> None
               | Some (r, res, text) \<Rightarrow>
                   Some (if r \<noteq> 0 then (1, head @ text @ PrintError color ''Load test failed to start'')
                         else (0, head @ text @ load_report color res))))"

section \<open>What a run counts\<close>

text \<open>The reference: the calls of \<open>Connect\<close> a worker makes, with what they returned, and the round-trip
  times of those that succeeded.\<close>

fun worker_log :: "f64 \<Rightarrow> worker_turn list \<Rightarrow> (int \<times> f64) list" where
  "worker_log deadline [] = []"
| "worker_log deadline (Worker_turn now interrupted r rtt # turns) =
     (if \<not> (flt (NowMs now) deadline \<and> \<not> interrupted) then []
      else (r, rtt) # (if r = PINGDD_INTERRUPTED then [] else worker_log deadline turns))"

definition rtts :: "(int \<times> f64) list \<Rightarrow> f64 list" where
  "rtts calls = map snd (filter (\<lambda>c. fst c = SUCCESS) calls)"

definition failures :: "(int \<times> f64) list \<Rightarrow> (int \<times> f64) list" where
  "failures calls = filter (\<lambda>c. fst c \<noteq> SUCCESS \<and> fst c \<noteq> PINGDD_INTERRUPTED) calls"

definition time_ok :: "f64 \<Rightarrow> bool" where
  "time_ok x \<longleftrightarrow> Fin 0 \<le> x \<and> x \<le> Fin dbl_max"

definition run_calls :: "loadtest_cfg_t \<Rightarrow> run_env \<Rightarrow> (int \<times> f64) list" where
  "run_calls cfg e =
     concat (map (\<lambda>n. worker_log (fadd (NowMs (Re_start e)) (f64_of_nat (unat (Lc_DurationMs cfg)))) (Re_turns e n))
       (started_workers e (clamp_concurrency (Lc_Concurrency cfg))))"

lemma rtts_simps [simp]:
  "rtts [] = []" "rtts ((r, x) # cs) = (if r = SUCCESS then x # rtts cs else rtts cs)" "rtts (cs @ ds) = rtts cs @ rtts ds"
  by (simp_all add: rtts_def)

lemma failures_simps [simp]:
  "failures [] = []"
  "failures ((r, x) # cs) = (if r \<noteq> SUCCESS \<and> r \<noteq> PINGDD_INTERRUPTED then (r, x) # failures cs else failures cs)"
  "failures (cs @ ds) = failures cs @ failures ds"
  by (simp_all add: failures_def)

text \<open>Result \<open>w'\<close> is \<open>w\<close> with the calls counted in.\<close>

definition counted :: "(int \<times> f64) list \<Rightarrow> loadtest_result_t \<Rightarrow> loadtest_result_t \<Rightarrow> bool" where
  "counted calls w w' \<longleftrightarrow>
     Lt_Attempts w' = Lt_Attempts w + of_nat (length calls) \<and>
     Lt_Success w' = Lt_Success w + of_nat (length (rtts calls)) \<and>
     Lt_Failed w' = Lt_Failed w + of_nat (length (failures calls)) \<and>
     Lt_MinRtt w' = fold min (rtts calls) (Lt_MinRtt w) \<and>
     Lt_MaxRtt w' = fold max (rtts calls) (Lt_MaxRtt w)"

lemma time_ok_not_NaN [simp]: "\<not> time_ok NaN"
  by (simp add: time_ok_def less_eq_f64_def)

lemma pick_min: "m \<noteq> NaN \<Longrightarrow> (if flt x m then x else m) = min x m"
  by (auto simp: flt_iff_less min_def)

lemma pick_max: "x \<noteq> NaN \<Longrightarrow> (if flt m x then x else m) = max x m"
  by (auto simp: flt_iff_less max_def)

lemma counted_append: "counted cs w v \<Longrightarrow> counted ds v u \<Longrightarrow> counted (cs @ ds) w u"
  by (simp add: counted_def)

lemma counted_success:
  "rtt \<noteq> NaN \<Longrightarrow> Lt_MinRtt w \<noteq> NaN \<Longrightarrow>
   counted [(SUCCESS, rtt)] w (count_success rtt (w\<lparr>Lt_Attempts := Lt_Attempts w + 1\<rparr>))"
  using pick_min[of "Lt_MinRtt w" rtt] pick_max[of rtt "Lt_MaxRtt w"]
  by (simp add: counted_def count_success_def split del: if_split cong: if_cong)

lemma counted_failure:
  "r \<noteq> SUCCESS \<Longrightarrow> r \<noteq> PINGDD_INTERRUPTED \<Longrightarrow>
   counted [(r, rtt)] w (w\<lparr>Lt_Attempts := Lt_Attempts w + 1, Lt_Failed := Lt_Failed w + 1\<rparr>)"
  by (simp add: counted_def)

lemma worker_loop_counted:
  "worker_loop deadline turns w = Some w' \<Longrightarrow> \<forall>x \<in> set (rtts (worker_log deadline turns)). time_ok x \<Longrightarrow>
   Lt_MinRtt w \<noteq> NaN \<Longrightarrow> counted (worker_log deadline turns) w w'"
proof (induction turns arbitrary: w w')
  case (Cons t turns)
  obtain now interrupted r rtt where t: "t = Worker_turn now interrupted r rtt" by (cases t)
  show ?case
  proof (cases "flt (NowMs now) deadline \<and> \<not> interrupted \<and> r \<noteq> PINGDD_INTERRUPTED")
    case False
    then show ?thesis using Cons.prems by (auto simp: t counted_def Let_def split: if_splits)
  next
    case True
    define v where "v = (if r = SUCCESS then count_success rtt (w\<lparr>Lt_Attempts := Lt_Attempts w + 1\<rparr>)
      else w\<lparr>Lt_Attempts := Lt_Attempts w + 1, Lt_Failed := Lt_Failed w + 1\<rparr>)"
    have log: "worker_log deadline (t # turns) = [(r, rtt)] @ worker_log deadline turns" using True by (simp add: t)
    have nn: "r = SUCCESS \<Longrightarrow> rtt \<noteq> NaN" using Cons.prems(2) by (auto simp: log)
    have one: "counted [(r, rtt)] w v"
      using True nn Cons.prems(3) counted_success counted_failure[of r] by (auto simp: v_def)
    have "worker_loop deadline turns v = Some w'"
      using Cons.prems(1) True by (auto simp: t v_def Let_def split: if_splits)
    moreover have "Lt_MinRtt v \<noteq> NaN" using Cons.prems(3) nn by (auto simp: v_def count_success_def)
    ultimately have "counted (worker_log deadline turns) v w'" using Cons.IH Cons.prems(2) log by simp
    then show ?thesis unfolding log by (rule counted_append[OF one])
  qed
qed simp

lemma WorkerMain_counted:
  assumes "WorkerMain deadline turns = Some w" "\<forall>x \<in> set (rtts (worker_log deadline turns)). time_ok x"
  shows "counted (worker_log deadline turns) (zero_result\<lparr>Lt_MinRtt := Fin dbl_max, Lt_MaxRtt := Fin 0\<rparr>) w"
  using assms by (intro worker_loop_counted) (simp_all add: WorkerMain_def)

subsection \<open>Merging\<close>

lemma unat_nat64: "n < 2 ^ 64 \<Longrightarrow> unat (of_nat n :: ulong) = n"
  by (simp add: unat_of_nat)

lemma nat64_eq_0: "n < 2 ^ 64 \<Longrightarrow> (of_nat n :: ulong) = 0 \<longleftrightarrow> n = 0"
  by (rule iffI, drule arg_cong[where f = unat], simp only: unat_nat64 unat_0, simp)

lemma fold_min_arg: "fold min xs (min (a :: f64) b) = min (fold min xs a) b"
  by (induction xs arbitrary: a) (simp_all, metis min.assoc)

lemma fold_max_arg: "fold max xs (max (a :: f64) b) = max (fold max xs a) b"
  by (induction xs arbitrary: a) (simp_all, metis max.assoc)

lemma fold_max_time: "\<forall>x \<in> set xs. time_ok x \<Longrightarrow> time_ok a \<Longrightarrow> time_ok (fold max xs a)"
  by (induction xs arbitrary: a) (auto simp: max_def)

lemma fold_min_time: "\<forall>x \<in> set xs. time_ok x \<Longrightarrow> time_ok a \<Longrightarrow> time_ok (fold min xs a)"
  by (induction xs arbitrary: a) (auto simp: min_def)

lemma time_ok_bounds: "time_ok (Fin 0)" "time_ok (Fin dbl_max)"
  by (simp_all add: time_ok_def dbl_max_def)

lemma merge_counted:
  assumes w: "counted calls (zero_result\<lparr>Lt_MinRtt := Fin dbl_max, Lt_MaxRtt := Fin 0\<rparr>) w"
    and ok: "\<forall>x \<in> set (rtts calls). time_ok x" and few: "length (rtts calls) < 2 ^ 64"
    and out: "time_ok (Lt_MinRtt out)" "time_ok (Lt_MaxRtt out)"
  shows "counted calls out (merge_worker w out) \<and> time_ok (Lt_MinRtt (merge_worker w out)) \<and> time_ok (Lt_MaxRtt (merge_worker w out))"
proof -
  let ?xs = "rtts calls"
  have mn: "Lt_MinRtt w = fold min ?xs (Fin dbl_max)" and mx: "Lt_MaxRtt w = fold max ?xs (Fin 0)"
    and su: "Lt_Success w = of_nat (length ?xs)"
    using w by (simp_all add: counted_def zero_result_def)
  have nn: "Lt_MinRtt out \<noteq> NaN" "Lt_MaxRtt w \<noteq> NaN"
    using out fold_max_time[OF ok time_ok_bounds(1)] mx by auto
  have "Lt_MinRtt (merge_worker w out) = min (Lt_MinRtt w) (Lt_MinRtt out)"
  proof (cases "?xs = []")
    case True
    then show ?thesis using out(1) mn su by (auto simp: merge_worker_def time_ok_def min_def)
  next
    case False
    then have "Lt_Success w > 0" using su few by (simp add: word_gt_0 nat64_eq_0)
    then show ?thesis using pick_min[OF nn(1)] by (simp add: merge_worker_def)
  qed
  also have "\<dots> = fold min ?xs (Lt_MinRtt out)"
    using fold_min_arg[of ?xs "Fin dbl_max" "Lt_MinRtt out"] out(1) mn by (simp add: min.absorb2 time_ok_def)
  finally have mn': "Lt_MinRtt (merge_worker w out) = fold min ?xs (Lt_MinRtt out)" .
  have mx': "Lt_MaxRtt (merge_worker w out) = fold max ?xs (Lt_MaxRtt out)"
    using fold_max_arg[of ?xs "Fin 0" "Lt_MaxRtt out"] out(2) mx pick_max[OF nn(2)]
    by (simp add: merge_worker_def max.absorb2 time_ok_def)
  show ?thesis
    using w mn' mx' fold_min_time[OF ok out(1)] fold_max_time[OF ok out(2)]
    by (simp add: counted_def merge_worker_def zero_result_def)
qed

lemma join_merge_counted:
  "join_workers (\<lambda>n. WorkerMain deadline (turns n)) ns = Some ws \<Longrightarrow>
   calls = concat (map (\<lambda>n. worker_log deadline (turns n)) ns) \<Longrightarrow> \<forall>x \<in> set (rtts calls). time_ok x \<Longrightarrow>
   length calls < 2 ^ 64 \<Longrightarrow> time_ok (Lt_MinRtt out) \<Longrightarrow> time_ok (Lt_MaxRtt out) \<Longrightarrow>
   counted calls out (fold merge_worker ws out)"
proof (induction ns arbitrary: ws calls out)
  case Nil
  then show ?case by (simp add: counted_def)
next
  case (Cons n ns)
  let ?first = "worker_log deadline (turns n)" and ?others = "concat (map (\<lambda>n. worker_log deadline (turns n)) ns)"
  obtain w ws' where w: "WorkerMain deadline (turns n) = Some w" and ws: "ws = w # ws'"
      "join_workers (\<lambda>n. WorkerMain deadline (turns n)) ns = Some ws'"
    using Cons.prems(1) by (auto split: option.splits)
  have calls: "calls = ?first @ ?others" using Cons.prems(2) by simp
  have ok: "\<forall>x \<in> set (rtts ?first). time_ok x" "\<forall>x \<in> set (rtts ?others). time_ok x" using Cons.prems(3) by (auto simp: calls)
  have "length (rtts ?first) \<le> length ?first" by (simp add: rtts_def)
  then have few: "length (rtts ?first) < 2 ^ 64" "length ?others < 2 ^ 64"
    using Cons.prems(4) by (simp_all add: calls)
  have m: "counted ?first out (merge_worker w out)" "time_ok (Lt_MinRtt (merge_worker w out))" "time_ok (Lt_MaxRtt (merge_worker w out))"
    using merge_counted[OF WorkerMain_counted[OF w ok(1)] ok(1) few(1) Cons.prems(5,6)] by simp_all
  have "counted ?others (merge_worker w out) (fold merge_worker ws' (merge_worker w out))"
    by (rule Cons.IH[OF ws(2) refl ok(2) few(2) m(2,3)])
  then show ?case unfolding calls ws(1) by (simp add: counted_append[OF m(1)])
qed

lemma fold_min_times:
  assumes "xs \<noteq> []" "\<forall>x \<in> set xs. time_ok x"
  shows "fold min xs (Fin dbl_max) = Min (set xs)"
proof -
  obtain y ys where xs: "xs = y # ys" using assms(1) by (cases xs) auto
  then have "min y (Fin dbl_max) = y" using assms(2) by (simp add: time_ok_def min.absorb1)
  then show ?thesis unfolding xs Min.set_eq_fold by simp
qed

lemma fold_max_times:
  assumes "xs \<noteq> []" "\<forall>x \<in> set xs. time_ok x"
  shows "fold max xs (Fin 0) = Max (set xs)"
proof -
  obtain y ys where xs: "xs = y # ys" using assms(1) by (cases xs) auto
  then have "max y (Fin 0) = y" using assms(2) by (simp add: time_ok_def max.absorb1)
  then show ?thesis unfolding xs Max.set_eq_fold by simp
qed

lemma calls_split: "length calls = length (rtts calls) + length (failures calls) + length (filter (\<lambda>c. fst c = PINGDD_INTERRUPTED) calls)"
  by (induction calls) auto

lemma clamp_range: "1 \<le> unat (clamp_concurrency c) \<and> unat (clamp_concurrency c) \<le> 256"
  by (auto simp: clamp_concurrency_def Let_def word_less_nat_alt not_less)

lemma clamp_id: "1 \<le> l \<Longrightarrow> l \<le> 256 \<Longrightarrow> clamp_concurrency l = l"
  by (simp add: clamp_concurrency_def Let_def word_le_nat_alt word_less_nat_alt)

section \<open>The sweep\<close>

text \<open>The reference: the first level of the curve that is degraded with respect to the first one.\<close>

definition first_degraded :: "f64 \<Rightarrow> f64 \<Rightarrow> (u32 \<times> loadtest_result_t) list \<Rightarrow> int" where
  "first_degraded base_avg base_loss curve =
     (case filter (\<lambda>(l, r). degraded base_avg base_loss r) curve of [] \<Rightarrow> - 1 | (l, r) # _ \<Rightarrow> uint l)"

definition knee_of :: "(u32 \<times> loadtest_result_t) list \<Rightarrow> int" where
  "knee_of curve = (case curve of [] \<Rightarrow> - 1 | (l, r) # _ \<Rightarrow> first_degraded (avg_ms r) (LossPct r) curve)"

definition of_level :: "u32 \<times> loadtest_result_t \<Rightarrow> bool" where
  "of_level c \<longleftrightarrow> Lt_Concurrency (snd c) = clamp_concurrency (fst c)"

lemma merge_keeps_level [simp]: "Lt_Concurrency (fold merge_worker ws out) = Lt_Concurrency out"
  by (induction ws arbitrary: out) (simp_all add: merge_worker_def)

lemma LoadTest_Run_level:
  "LoadTest_Run cfg e = Some (0, r, tx) \<Longrightarrow> Lt_Concurrency r = clamp_concurrency (Lc_Concurrency cfg)"
  by (auto simp: LoadTest_Run_def Let_def split: if_splits option.splits)

lemma sweep_loop_curve:
  "sweep_loop color cfg idx ls rounds s = Some (True, s') \<Longrightarrow> 0 < idx \<Longrightarrow>
   \<exists>curve. Sw_log s' = Sw_log s @ curve \<and> map fst curve = take (length curve) ls \<and> list_all of_level curve \<and>
     Sw_knee s' = (if Sw_knee s \<ge> 0 then Sw_knee s else
       if first_degraded (Sw_avg s) (Sw_loss s) curve < 0 then Sw_knee s else first_degraded (Sw_avg s) (Sw_loss s) curve)"
proof (induction color cfg idx ls rounds s rule: sweep_loop.induct)
  case (3 color cfg idx l ls interrupted e rounds s)
  show ?case
  proof (cases interrupted)
    case True
    then show ?thesis using "3.prems" by (auto simp: first_degraded_def)
  next
    case False
    obtain res tx where run: "LoadTest_Run (cfg\<lparr>Lc_Concurrency := l, Lc_Silent := True\<rparr>) e = Some (0, res, tx)"
        and rest: "sweep_loop color cfg (idx + 1) ls rounds (sweep_step color idx l res s) = Some (True, s')"
      using "3.prems"(1) False by (auto split: option.splits if_splits)
    let ?s = "sweep_step color idx l res s"
    obtain curve where c: "Sw_log s' = Sw_log ?s @ curve" "map fst curve = take (length curve) ls" "list_all of_level curve"
        "Sw_knee s' = (if Sw_knee ?s \<ge> 0 then Sw_knee ?s else
           if first_degraded (Sw_avg ?s) (Sw_loss ?s) curve < 0 then Sw_knee ?s else first_degraded (Sw_avg ?s) (Sw_loss ?s) curve)"
      using "3.IH"[OF False run refl refl _ rest] by auto
    have lv: "of_level (l, res)" using LoadTest_Run_level[OF run] by (simp add: of_level_def)
    show ?thesis
      using c lv "3.prems"(2)
      by (intro exI[of _ "(l, res) # curve"]) (auto simp: sweep_step_def first_degraded_def Let_def split: list.splits)
  qed
qed (auto simp: first_degraded_def)

lemma sweep_curve:
  assumes "sweep_loop color cfg 0 ls rounds s = Some (True, s')" "Sw_log s = []" "Sw_knee s = - 1"
  shows "map fst (Sw_log s') = take (length (Sw_log s')) ls \<and> list_all of_level (Sw_log s') \<and> Sw_knee s' = knee_of (Sw_log s')"
proof (cases ls)
  case Nil
  then show ?thesis using assms by (simp add: knee_of_def)
next
  case (Cons l ls')
  obtain interrupted e rounds' where r: "rounds = (interrupted, e) # rounds'"
    using assms(1) Cons by (cases rounds) auto
  show ?thesis
  proof (cases interrupted)
    case True
    then show ?thesis using assms Cons r by (simp add: knee_of_def)
  next
    case False
    obtain res tx where run: "LoadTest_Run (cfg\<lparr>Lc_Concurrency := l, Lc_Silent := True\<rparr>) e = Some (0, res, tx)"
        and rest: "sweep_loop color cfg 1 ls' rounds' (sweep_step color 0 l res s) = Some (True, s')"
      using assms(1) False Cons r by (auto split: option.splits if_splits)
    have lv: "of_level (l, res)" using LoadTest_Run_level[OF run] by (simp add: of_level_def)
    show ?thesis
      using sweep_loop_curve[OF rest] assms(2,3) lv Cons
      by (auto simp: sweep_step_def first_degraded_def knee_of_def Let_def split: list.splits)
  qed
qed

lemma ramp_from:
  "m \<le> 2 ^ (i + n) \<Longrightarrow> n \<le> k \<Longrightarrow>
   \<exists>j \<ge> i. j \<le> i + n \<and> ramp k (2 ^ i) m = map (\<lambda>i. 2 ^ i) [i..<j] @ [m] \<and> (\<forall>h. i \<le> h \<and> h < j \<longrightarrow> 2 ^ h < m) \<and> m \<le> 2 ^ j"
proof (induction n arbitrary: i k)
  case 0
  then have "\<not> 2 ^ i < m" by simp
  then have "ramp k (2 ^ i) m = [m]" by (cases k) simp_all
  then show ?case using "0.prems" by (intro exI[of _ i]) auto
next
  case (Suc n)
  obtain k' where k: "k = Suc k'" using Suc.prems(2) by (cases k) auto
  show ?case
  proof (cases "2 ^ i < m")
    case True
    obtain j where j: "Suc i \<le> j" "j \<le> Suc i + n" "ramp k' (2 ^ Suc i) m = map (\<lambda>i. 2 ^ i) [Suc i..<j] @ [m]"
        "\<forall>h. Suc i \<le> h \<and> h < j \<longrightarrow> 2 ^ h < m" "m \<le> 2 ^ j"
      using Suc.IH[of "Suc i" k'] Suc.prems k by auto
    have "2 ^ h < m" if "i \<le> h" "h < j" for h using that True j(4) by (cases "h = i") auto
    then show ?thesis
      using j True by (intro exI[of _ j]) (simp add: k upt_conv_Cons mult.commute)
  next
    case False
    then show ?thesis by (intro exI[of _ i]) (auto simp: k)
  qed
qed

text \<open>At most nine levels: the powers of two below the largest one, then the largest one.\<close>

lemma ramp_powers:
  "m \<le> 256 \<Longrightarrow> \<exists>k \<le> 8. ramp 15 1 m = map (\<lambda>i. 2 ^ i) [0..<k] @ [m] \<and> (\<forall>i < k. 2 ^ i < m) \<and> m \<le> 2 ^ k"
  using ramp_from[of m 0 8 15] by auto

lemma power_levels: "i < 8 \<Longrightarrow> 1 \<le> (2 :: u32) ^ i \<and> (2 :: u32) ^ i \<le> 256"
proof -
  assume "i < 8"
  moreover have "list_all (\<lambda>i. 1 \<le> (2 :: u32) ^ i \<and> (2 :: u32) ^ i \<le> 256) [0..<8]" by code_simp
  ultimately show ?thesis by (simp add: list_all_iff)
qed

section \<open>Two workers\<close>

definition demo_time :: "nat \<Rightarrow> timespec" where
  "demo_time n = \<lparr>tv_sec = int n, tv_nsec = 0\<rparr>"

definition demo_load :: loadtest_cfg_t where
  "demo_load = \<lparr>Lc_Host = Some blank_host, Lc_TimeoutMs = 1000, Lc_Concurrency = 2, Lc_DurationMs = 1000, Lc_Silent = True\<rparr>"

text \<open>One worker has a success and a failure and reaches the deadline, the other one is interrupted in its
  second call.\<close>

definition demo_found :: run_env where
  "demo_found = \<lparr>Re_color = False, Re_calloc = True, Re_start = demo_time 0, Re_create = (\<lambda>n. True),
     Re_turns = (\<lambda>n. if n = 0
       then [Worker_turn (demo_time 0) False SUCCESS (Fin (1 / 4)),
             Worker_turn (demo_time 0) False PINGDD_SOCKET_TIMEOUT (Fin 0), Worker_turn (demo_time 2) False 0 (Fin 0)]
       else [Worker_turn (demo_time 0) False SUCCESS (Fin (1 / 2)),
             Worker_turn (demo_time 0) False PINGDD_INTERRUPTED (Fin 0)]),
     Re_ticks = [], Re_join = demo_time 2\<rparr>"

lemma demo_now: "NowMs (demo_time 0) = Fin 0" "NowMs (demo_time 2) = Fin 2000"
  using f64_of_int_exact[of 2] to_f64_nat[of 2000] by (simp_all add: NowMs_def demo_time_def f64_of_int_def)

lemma demo_deadline: "fadd (Fin 0) (f64_of_nat 1000) = Fin 1000"
  using to_f64_nat[of 1000] by (simp add: f64_of_nat_def)

lemma demo_workers: "started_workers demo_found 2 = [0, 1]" "clamp_concurrency 2 = 2"
  by (simp_all add: started_workers_def demo_found_def clamp_concurrency_def upt_rec)

lemma demo_calls:
  "run_calls demo_load demo_found =
     [(SUCCESS, Fin (1 / 4)), (PINGDD_SOCKET_TIMEOUT, Fin 0), (SUCCESS, Fin (1 / 2)), (PINGDD_INTERRUPTED, Fin 0)]"
  unfolding run_calls_def using demo_workers
  by (simp add: demo_load_def demo_found_def demo_now demo_deadline)

lemma demo_load_run: "\<exists>r tx. LoadTest_Run demo_load demo_found = Some (0, r, tx)"
  unfolding LoadTest_Run_def using demo_workers
  by (simp add: demo_load_def demo_found_def WorkerMain_def demo_now demo_deadline Let_def)

lemma demo_deadline2: "fadd (Fin 0) (f64_of_nat 500) = Fin 500"
  using to_f64_nat[of 500] by (simp add: f64_of_nat_def)

lemma demo_sweep:
  "\<exists>s. LoadTest_Resilience False demo_load [(False, demo_found), (False, demo_found)] = Some (0, s) \<and> length (Sw_log s) = 2"
proof -
  have w: "started_workers demo_found 1 = [0]" "clamp_concurrency 1 = 1"
    by (simp_all add: started_workers_def demo_found_def clamp_concurrency_def)
  have r: "ramp 15 1 2 = [1, 2]" "phase_ms 1000 (Suc (Suc 0)) = 500"
    by code_simp+
  have "\<exists>res. LoadTest_Run (demo_load\<lparr>Lc_DurationMs := 500, Lc_Concurrency := l, Lc_Silent := True\<rparr>) demo_found = Some (0, res, [])"
    if "l = 1 \<or> l = 2" for l
    using that w demo_workers unfolding LoadTest_Run_def
    by (auto simp: demo_load_def demo_found_def WorkerMain_def demo_now demo_deadline2 Let_def)
  then obtain r1 r2 where
      "LoadTest_Run (demo_load\<lparr>Lc_DurationMs := 500, Lc_Concurrency := 1, Lc_Silent := True\<rparr>) demo_found = Some (0, r1, [])"
      "LoadTest_Run (demo_load\<lparr>Lc_DurationMs := 500, Lc_Concurrency := 2, Lc_Silent := True\<rparr>) demo_found = Some (0, r2, [])"
    by blast
  then show ?thesis
    using demo_workers r by (simp add: LoadTest_Resilience_def demo_load_def sweep_step_def Let_def)
qed

section \<open>Properties\<close>



text \<open>C29: The sweep runs the powers of two below the largest number of workers and then that number, at
  most nine levels, in this order, each with the number of workers it says; the level it reports is the first
  one that is degraded with respect to the first level, or none.\<close>

theorem Resilience_knee:
  assumes "LoadTest_Resilience color cfg rounds = Some (0, s)"
  defines "m \<equiv> clamp_concurrency (Lc_Concurrency cfg)"
  shows "\<exists>k \<le> 8. (\<forall>i < k. 2 ^ i < m) \<and> m \<le> 2 ^ k \<and>
    map fst (Sw_log s) = take (length (Sw_log s)) (map (\<lambda>i. 2 ^ i) [0..<k] @ [m]) \<and>
    (\<forall>(l, r) \<in> set (Sw_log s). Lt_Concurrency r = l) \<and> Sw_knee s = knee_of (Sw_log s)"
proof -
  have m: "m \<le> 256" "1 \<le> m" using clamp_range[of "Lc_Concurrency cfg"] by (simp_all add: m_def word_le_nat_alt)
  obtain k where k: "k \<le> 8" "ramp 15 1 m = map (\<lambda>i. 2 ^ i) [0..<k] @ [m]" "\<forall>i < k. 2 ^ i < m" "m \<le> 2 ^ k"
    using ramp_powers[OF m(1)] by blast
  obtain s0 s1 where s1: "sweep_loop color (cfg\<lparr>Lc_DurationMs := phase_ms (Lc_DurationMs cfg) (length (ramp 15 1 m))\<rparr>) 0
        (ramp 15 1 m) rounds s0 = Some (True, s1)" "Sw_log s0 = []" "Sw_knee s0 = - 1" "Sw_log s = Sw_log s1" "Sw_knee s = Sw_knee s1"
    using assms(1) by (auto simp: LoadTest_Resilience_def Let_def m_def split: if_splits option.splits bool.splits)
  note curve = sweep_curve[OF s1(1-3)]
  have "Lt_Concurrency r = l" if lr: "(l, r) \<in> set (Sw_log s)" for l r
  proof -
    have "l \<in> set (ramp 15 1 m)"
      using curve lr s1(4) by (metis fst_conv image_eqI in_set_takeD list.set_map)
    then have "1 \<le> l \<and> l \<le> 256" using k m power_levels by auto
    then show ?thesis using curve lr s1(4) clamp_id[of l] by (auto simp: list_all_iff of_level_def)
  qed
  then show ?thesis using k curve s1(4,5) by (intro exI[of _ k]) auto
qed

theorem Resilience_knee_witness:
  "\<exists>s. LoadTest_Resilience False demo_load [(False, demo_found), (False, demo_found)] = Some (0, s) \<and>
     length (Sw_log s) = 2 \<and> (\<forall>(l, r) \<in> set (Sw_log s). Lt_Concurrency r = l) \<and> Sw_knee s = knee_of (Sw_log s)"
proof -
  obtain s where s: "LoadTest_Resilience False demo_load [(False, demo_found), (False, demo_found)] = Some (0, s)"
      "length (Sw_log s) = 2"
    using demo_sweep by blast
  show ?thesis using Resilience_knee[OF s(1)] s by blast
qed

end
