(* ===== verification/Program.thy ===== *)
theory Program
  imports Dns Http Trace LoadTest Usage
begin

text \<open>
  \<open>main\<close> of \<open>main.c\<close>: from the arguments to the exit status. Everything the program reads of its
  surroundings is one record. The result has the exit status, the standard output, the log files, the static
  variables of \<open>socket.c\<close>, and the events that acquire and release the target list and the files.
\<close>

record program_env =
  Pg_home :: "cstring option"
  Pg_files :: "cstring \<Rightarrow> char list option"
  Pg_no_color :: bool  \<comment> \<open>\<open>NO_COLOR\<close> is set\<close>
  Pg_tty :: bool
  Pg_pton4 :: "cstring \<Rightarrow> u32 option"
  Pg_pton6 :: "cstring \<Rightarrow> 128 word option"
  Pg_ifaddrs :: "(cstring option \<times> sockaddr option) list option"
  Pg_http :: "(bool \<times> http_env \<times> bool) list"
  Pg_alloc :: "nat \<Rightarrow> bool"
  Pg_resolve :: "nat \<Rightarrow> cstring \<Rightarrow> host_t \<Rightarrow> int \<times> host_t"
  Pg_dns_begin :: timespec
  Pg_dns_end :: timespec
  Pg_nameinfo :: "sockaddr \<Rightarrow> cstring option"
  Pg_txt :: "cstring \<Rightarrow> nat \<Rightarrow> cstring option"
  Pg_pid :: int
  Pg_pton :: "bool \<Rightarrow> cstring \<Rightarrow> sockaddr"
  Pg_trace :: "(bool \<times> trace_env list) list"
  Pg_load :: run_env
  Pg_sweep :: "(bool \<times> run_env) list"
  Pg_csv_file :: "tm \<times> bool"  \<comment> \<open>the time of the name, and whether \<open>fopen\<close> succeeds\<close>
  Pg_json_file :: "tm \<times> bool"
  Pg_setup :: probe_setup
  Pg_cycles :: "cycle_env list"

datatype program_event = Targets_built | Targets_freed | File_opened cstring | File_closed cstring

record program_result =
  Pr_status :: int
  Pr_stdout :: cstring
  Pr_csv :: cstring
  Pr_json :: cstring
  Pr_events :: "program_event list"
  Pr_sock :: sock_state

definition color_policy :: "arguments_t \<Rightarrow> bool \<Rightarrow> bool \<Rightarrow> bool" where
  "color_policy a no_color tty =
     (let color = UseColor a in if color \<and> \<not> ForceColor a then (if no_color \<or> \<not> tty then False else color) else color)"

definition leave :: "int \<Rightarrow> cstring \<Rightarrow> program_event list \<Rightarrow> sock_state \<Rightarrow> program_result" where
  "leave status text events st =
     \<lparr>Pr_status = status, Pr_stdout = text, Pr_csv = [], Pr_json = [], Pr_events = events, Pr_sock = st\<rparr>"

section \<open>The modes with one target\<close>

definition annotate_all :: "program_env \<Rightarrow> arguments_t \<Rightarrow> target_list_t \<Rightarrow> target_list_t" where
  "annotate_all e a l =
     (if ResolveOpt a
      then l\<lparr>Items := map (\<lambda>t. if ResolveOk t then t\<lparr>Resolved := Resolve_Annotate (Pg_nameinfo e) (Pg_txt e) (Resolved t)\<rparr>
                                else t) (Items l)\<rparr>
      else l)"

definition traceroute_mode :: "program_env \<Rightarrow> bool \<Rightarrow> arguments_t \<Rightarrow> target_list_t \<Rightarrow> (int \<times> cstring) option" where
  "traceroute_mode e color a l =
     (if length (Items l) \<noteq> 1 then Some (1, PrintError color ''Error: --traceroute supports a single target'')
      else map_option (\<lambda>(r, text, plog). (if r = SUCCESS then 0 else 1, text))
             (Traceroute_Run \<lparr>Sy_color = color, Sy_pid = Pg_pid e, Sy_pton = Pg_pton e, Sy_names = Pg_nameinfo e\<rparr>
                (Resolved (Items l ! 0))
                \<lparr>TrMaxHops = MaxHops a, TrQueries = Queries a, TrTimeoutMs = Timeout a, TrResolve = ResolveOpt a\<rparr>
                (Pg_trace e)))"

definition load_mode :: "program_env \<Rightarrow> bool \<Rightarrow> arguments_t \<Rightarrow> target_list_t \<Rightarrow> (int \<times> cstring) option" where
  "load_mode e color a l =
     (if length (Items l) \<noteq> 1
      then Some (1, PrintError color ''Error: --load-test/--resilience support a single target'')
      else RunLoadTestMode color a (Resolved (Items l ! 0)) ((Pg_load e)\<lparr>Re_color := color\<rparr>) (Pg_sweep e))"

section \<open>The probe mode\<close>

definition log_line :: "bool \<Rightarrow> cstring \<Rightarrow> cstring \<Rightarrow> cstring" where
  "log_line color kind name =
     FormattedPrint color PRINT_YELLOW (kind @ '' logging: '') @ FormattedPrint color PRINT_GREEN name @
     FormattedPrint color PRINT_YELLOW [newline]"

text \<open>The log files are opened, the CSV file gets its header; after the probe loop both are closed and the
  targets are freed.\<close>

definition probe_mode ::
  "program_env \<Rightarrow> bool \<Rightarrow> arguments_t \<Rightarrow> f64 \<Rightarrow> target_list_t \<Rightarrow> sock_state \<Rightarrow> program_result option" where
  "probe_mode e color a dns_ms l st =
     (let csv_name = GenerateCSVFilename a (fst (Pg_csv_file e)); json_name = GenerateJsonFilename a (fst (Pg_json_file e));
          csv_opened = (if CSVOutput a then [File_opened csv_name] else []);
          csv_closed = (if CSVOutput a then [File_closed csv_name] else []);
          csv_text = (if CSVOutput a then WriteCSVHeader else []);
          text1 = (if CSVOutput a \<and> \<not> Json a then log_line color ''CSV'' csv_name else [])
      in if CSVOutput a \<and> \<not> snd (Pg_csv_file e)
         then Some (leave 1 (PrintError color ''Failed to create CSV file'') [Targets_built, Targets_freed] st)
         else if JsonFile a \<and> \<not> snd (Pg_json_file e)
         then Some ((leave 1 (text1 @ PrintError color ''Failed to create JSON file'')
                       (Targets_built # csv_opened @ csv_closed @ [Targets_freed]) st)\<lparr>Pr_csv := csv_text\<rparr>)
         else let json_opened = (if JsonFile a then [File_opened json_name] else []);
                  json_closed = (if JsonFile a then [File_closed json_name] else []);
                  text2 = (if JsonFile a \<and> \<not> Json a then log_line color ''JSON'' json_name else []);
                  u = (Pg_setup e)\<lparr>Su_color := color, Su_csv := CSVOutput a, Su_json := JsonFile a\<rparr>
              in map_option (\<lambda>(rc, items, outs).
                     \<lparr>Pr_status = rc, Pr_stdout = out_stdout outs, Pr_csv = out_csv outs, Pr_json = out_json outs,
                      Pr_events = Targets_built # csv_opened @ json_opened @ csv_closed @ json_closed @ [Targets_freed],
                      Pr_sock = st\<rparr>)
                   (ProbeLoop a u dns_ms (Pg_cycles e) (Items l)
                      \<lparr>out_stdout = text1 @ text2, out_csv = csv_text, out_json = []\<rparr>))"

section \<open>The program\<close>

definition initial_sock :: sock_state where
  "initial_sock = \<lparr>g_src4 = None, g_src6 = None, g_tos = - 1, icmp_seq = 0\<rparr>"

definition select_interface :: "program_env \<Rightarrow> arguments_t \<Rightarrow> cstring + sock_state" where
  "select_interface e a =
     (case Interface a of
        None \<Rightarrow> Inr initial_sock
      | Some spec \<Rightarrow>
          (case SetSourceInterface (Pg_pton4 e) (Pg_pton6 e) (Pg_ifaddrs e) spec 256 initial_sock of
             (r, err, st) \<Rightarrow>
               if r \<noteq> SUCCESS
               then Inl (bounded_copy 320 (''Error: interface '' @ quoted spec @ '': '' @ err))
               else Inr st))"

definition run_targets ::
  "program_env \<Rightarrow> bool \<Rightarrow> arguments_t \<Rightarrow> sock_state \<Rightarrow> target_list_t \<Rightarrow> program_result option" where
  "run_targets e color a st l0 =
     (let (l1, resolved) = Targets_Resolve (Pg_resolve e) l0;
          dns_ms = span_ms (Pg_dns_begin e) (Pg_dns_end e);
          single = map_option (\<lambda>(rc, text). leave rc text [Targets_built, Targets_freed] st)
      in if resolved = 0
         then single (Some (1, PrintError color ''Error: no targets could be resolved''))
         else let l = annotate_all e a l1
              in if Traceroute a then single (traceroute_mode e color a l)
                 else if LoadTest a \<or> Resilience a then single (load_mode e color a l)
                 else probe_mode e color a dns_ms l st)"

definition run_program :: "program_env \<Rightarrow> arguments_t \<Rightarrow> program_result option" where
  "run_program e a =
     (let color = color_policy a (Pg_no_color e) (Pg_tty e)
      in (case select_interface e a of
            Inl msg \<Rightarrow> Some (leave 1 (PrintError color msg) [] initial_sock)
          | Inr st0 \<Rightarrow>
              (let st = SetTos (Tos a) st0
               in if HttpUrl a \<noteq> None
                  then map_option (\<lambda>(rc, text). leave rc text [] st) (RunHttpMode color a (Pg_http e))
                  else (case Targets_Build (Pg_files e) (Pg_alloc e) a 256 of
                          Inl err \<Rightarrow>
                            Some (leave 1 (PrintError color
                              (bounded_copy 320 (''Error: '' @ (case err of None \<Rightarrow> [] | Some m \<Rightarrow> m)))) [] st)
                        | Inr l \<Rightarrow> run_targets e color a st l))))"

definition main :: "program_env \<Rightarrow> cstring list \<Rightarrow> program_result option" where
  "main e argv =
     (case ProcessArguments (Pg_home e) (Pg_files e) argv of
        Parsed a \<Rightarrow> run_program e a
      | r \<Rightarrow> map_option (\<lambda>(rc, text). leave rc text [] initial_sock) (argument_exit r))"

section \<open>Resources\<close>

text \<open>What is held after the events; a release of something that is not held has no value.\<close>

definition let_go :: "program_event \<Rightarrow> program_event list \<Rightarrow> program_event list option" where
  "let_go x h = (if x \<in> set h then Some (remove1 x h) else None)"

fun held :: "program_event list \<Rightarrow> program_event list \<Rightarrow> program_event list option" where
  "held h [] = Some h"
| "held h (Targets_built # es) = held (Targets_built # h) es"
| "held h (File_opened name # es) = held (File_opened name # h) es"
| "held h (Targets_freed # es) = (case let_go Targets_built h of None \<Rightarrow> None | Some h' \<Rightarrow> held h' es)"
| "held h (File_closed name # es) = (case let_go (File_opened name) h of None \<Rightarrow> None | Some h' \<Rightarrow> held h' es)"

definition clean :: "program_result \<Rightarrow> bool" where
  "clean r \<longleftrightarrow> Pr_status r \<in> {0, 1} \<and> held [] (Pr_events r) = Some []"

lemma clean_leave [simp]:
  "clean (leave rc text [] st) \<longleftrightarrow> rc \<in> {0, 1}"
  "clean (leave rc text [Targets_built, Targets_freed] st) \<longleftrightarrow> rc \<in> {0, 1}"
  by (auto simp: clean_def leave_def let_go_def)

lemma ProbeLoop_status: "ProbeLoop a u dns_ms es items o0 = Some (rc, items', o1) \<Longrightarrow> rc \<in> {0, 1}"
  by (auto simp: ProbeLoop_def exit_status_def Let_def split: if_splits option.splits)

lemma RunHttpMode_status: "RunHttpMode uc a es = Some (rc, text) \<Longrightarrow> rc \<in> {0, 1}"
  by (auto simp: RunHttpMode_def Let_def split: if_splits option.splits)

lemma RunLoadTestMode_status: "RunLoadTestMode color a h e rounds = Some (rc, text) \<Longrightarrow> rc \<in> {0, 1}"
  by (auto simp: RunLoadTestMode_def Let_def split: if_splits option.splits)

lemma probe_mode_clean: "probe_mode e color a dns_ms l st = Some r \<Longrightarrow> clean r"
  unfolding probe_mode_def Let_def
  by (auto simp: clean_def leave_def let_go_def dest: ProbeLoop_status split: if_splits)

lemma run_targets_clean: "run_targets e color a st l = Some r \<Longrightarrow> clean r"
  by (auto simp: run_targets_def traceroute_mode_def load_mode_def Let_def intro: probe_mode_clean
      dest: RunLoadTestMode_status split: if_splits prod.splits)

lemma argument_exit_status: "argument_exit out = Some (rc, text) \<Longrightarrow> rc \<in> {0, 1}"
  by (cases out) auto

lemma run_program_clean: "run_program e a = Some r \<Longrightarrow> clean r"
  by (auto simp: run_program_def Let_def intro: run_targets_clean dest: RunHttpMode_status
      split: sum.splits if_splits option.splits)

section \<open>The log files\<close>

text \<open>The arguments lead into the probe loop: \<open>l0\<close> is built, and \<open>l\<close> is what the loop gets.\<close>

definition probe_run :: "program_env \<Rightarrow> arguments_t \<Rightarrow> target_list_t \<Rightarrow> target_list_t \<Rightarrow> bool" where
  "probe_run e a l0 l \<longleftrightarrow>
     HttpUrl a = None \<and> \<not> Traceroute a \<and> \<not> LoadTest a \<and> \<not> Resilience a \<and> (\<forall>msg. select_interface e a \<noteq> Inl msg) \<and>
     Targets_Build (Pg_files e) (Pg_alloc e) a 256 = Inr l0 \<and> snd (Targets_Resolve (Pg_resolve e) l0) \<noteq> 0 \<and>
     l = annotate_all e a (fst (Targets_Resolve (Pg_resolve e) l0))"

lemma annotate_past: "map past (Items (annotate_all e a l)) = map past (Items l)"
  by (simp add: annotate_all_def past_def)

lemma probe_run_fresh:
  assumes "probe_run e a l0 l" "t \<in> set (Items l)"
  shows "past t = (Stats_Init, Fin 0)"
proof -
  have l: "l = annotate_all e a (fst (Targets_Resolve (Pg_resolve e) l0))"
    and l0: "Targets_Build (Pg_files e) (Pg_alloc e) a 256 = Inr l0"
    using assms(1) by (simp_all add: probe_run_def)
  have "map past (Items l) = map past (Items l0)" unfolding l by (simp only: annotate_past Targets_Resolve_past)
  moreover have "past t \<in> set (map past (Items l))" using assms(2) by simp
  ultimately obtain t' where "t' \<in> set (Items l0)" "past t = past t'" by auto
  then show ?thesis using Targets_Build_fresh[OF l0] by simp
qed

lemma main_probe_mode:
  assumes "ProcessArguments (Pg_home e) (Pg_files e) argv = Parsed a" "probe_run e a l0 l"
  shows "\<exists>st. main e argv =
    probe_mode e (color_policy a (Pg_no_color e) (Pg_tty e)) a (span_ms (Pg_dns_begin e) (Pg_dns_end e)) l st"
proof -
  obtain st where "select_interface e a = Inr st" using assms(2) by (cases "select_interface e a") (auto simp: probe_run_def)
  then show ?thesis
    using assms by (cases "Targets_Resolve (Pg_resolve e) l0") (auto simp: main_def run_program_def run_targets_def probe_run_def Let_def)
qed

lemma probe_mode_files:
  assumes "probe_mode e color a dns_ms l st = Some r" "CSVOutput a" "snd (Pg_csv_file e)" "JsonFile a" "snd (Pg_json_file e)"
    "Su_calloc (Pg_setup e)" "\<forall>t \<in> set (Items l). TgStats t = Stats_Init"
  defines "items0 \<equiv> prepared a dns_ms (Items l)"
  shows "\<exists>evs items. length items = length (Items l) \<and>
    (\<forall>i < length items. accounts (events_of i evs) (items0 ! i) (items ! i)) \<and>
    (\<forall>v \<in> set evs. Ev_index v < length items \<and> ResolveOk (Items l ! Ev_index v) \<and> Ev_result v \<noteq> PINGDD_INTERRUPTED) \<and>
    Pr_csv r = WriteCSVHeader @ concat (map (event_csv items0) (filter succeeded evs)) \<and>
    Pr_json r = concat (map PrintTargetJson items0) @ concat (map (event_json items0) evs) @
      concat (map (summary_json (Su_sort (Pg_setup e))) items) \<and>
    (length evs < 2 ^ 64 \<longrightarrow> Pr_status r = (if evs \<noteq> [] \<and> (\<forall>v \<in> set evs. \<not> succeeded v) then 1 else 0))"
proof -
  let ?u = "(Pg_setup e)\<lparr>Su_color := color, Su_csv := True, Su_json := True\<rparr>"
  obtain text0 rc items outs where loop: "ProbeLoop a ?u dns_ms (Pg_cycles e) (Items l)
        \<lparr>out_stdout = text0, out_csv = WriteCSVHeader, out_json = []\<rparr> = Some (rc, items, outs)"
      "Pr_status r = rc" "Pr_csv r = out_csv outs" "Pr_json r = out_json outs"
    using assms(1-5) by (auto simp: probe_mode_def Let_def split: if_splits)
  have "Su_calloc ?u" using assms(6) by simp
  from ProbeLoop_files[OF loop(1) this assms(7)] obtain evs where
      "length items = length (Items l)" "\<forall>i < length (Items l). accounts (events_of i evs) (items0 ! i) (items ! i)"
      "\<forall>v \<in> set evs. Ev_index v < length (Items l) \<and> ResolveOk (Items l ! Ev_index v) \<and> Ev_result v \<noteq> PINGDD_INTERRUPTED"
      "out_csv outs = WriteCSVHeader @ concat (map (event_csv items0) (filter succeeded evs))"
      "out_json outs = concat (map PrintTargetJson items0) @ concat (map (event_json items0) evs) @
         concat (map (summary_json (Su_sort (Pg_setup e))) items)"
      "length evs < 2 ^ 64 \<longrightarrow> rc = (if evs \<noteq> [] \<and> (\<forall>v \<in> set evs. \<not> succeeded v) then 1 else 0)"
    using assms(2,4) by (auto simp: items0_def)
  then show ?thesis using loop(2-4) by (intro exI[of _ evs] exI[of _ items]) simp
qed

section \<open>Two runs\<close>

text \<open>The second log file of the first run cannot be created; the second run makes one probe.\<close>

definition demo_program :: program_env where
  "demo_program = \<lparr>Pg_home = None, Pg_files = (\<lambda>p. None), Pg_no_color = True, Pg_tty = False, Pg_pton4 = (\<lambda>s. None),
     Pg_pton6 = (\<lambda>s. None), Pg_ifaddrs = None, Pg_http = [], Pg_alloc = (\<lambda>n. True),
     Pg_resolve = (\<lambda>i d h. (SUCCESS, h\<lparr>Addrs := [Inet 7 0]\<rparr>)), Pg_dns_begin = LoadTest.demo_time 0,
     Pg_dns_end = LoadTest.demo_time 0, Pg_nameinfo = (\<lambda>s. None), Pg_txt = (\<lambda>q n. None), Pg_pid = 7,
     Pg_pton = (\<lambda>v6 s. Inet 0 0), Pg_trace = [], Pg_load = demo_found, Pg_sweep = [], Pg_csv_file = (demo_tm, True),
     Pg_json_file = (demo_tm, False), Pg_setup = demo_setup, Pg_cycles = []\<rparr>"

definition demo_argv :: "cstring list" where
  "demo_argv = [''--no-config'', ''-P'', ''ICMP'', ''host'', ''--csv'', ''--json-file'']"

definition demo_options :: arguments_t where
  "demo_options = InitDefaults\<lparr>Hosts := [''host''], Destination := Some ''host'', ProtoSpec := Some ''ICMP'',
     CSVOutput := True, JsonFile := True\<rparr>"

lemma demo_parsed: "ProcessArguments None (\<lambda>p. None) demo_argv = Parsed demo_options"
  by code_simp

lemma demo_built: "Targets_Build (\<lambda>p. None) (\<lambda>n. True) demo_options 256 = Inr \<lparr>Items = [new_target ''host'' 0 IPPROTO_ICMP], TgCap = 8\<rparr>"
  by code_simp

lemma demo_resolved: "snd (Targets_Resolve (\<lambda>i d h. (SUCCESS, h\<lparr>Addrs := [Inet 7 0]\<rparr>))
    \<lparr>Items = [new_target ''host'' 0 IPPROTO_ICMP], TgCap = 8\<rparr>) = 1"
  by code_simp

lemma demo_fields:
  "Interface demo_options = None" "HttpUrl demo_options = None" "Traceroute demo_options = False" "LoadTest demo_options = False"
  "Resilience demo_options = False" "CSVOutput demo_options" "JsonFile demo_options" "\<not> Json demo_options"
  by (simp_all add: demo_options_def InitDefaults_def)

lemma demo_main:
  "\<exists>r name. main demo_program demo_argv = Some r \<and>
     Pr_events r = [Targets_built, File_opened name, File_closed name, Targets_freed]"
proof -
  obtain l where l: "Targets_Resolve (\<lambda>i d h. (SUCCESS, h\<lparr>Addrs := [Inet 7 0]\<rparr>))
      \<lparr>Items = [new_target ''host'' 0 IPPROTO_ICMP], TgCap = 8\<rparr> = (l, 1)"
    using demo_resolved by (metis prod.collapse)
  have "run_program demo_program demo_options = run_targets demo_program False demo_options (SetTos (Tos demo_options) initial_sock)
      \<lparr>Items = [new_target ''host'' 0 IPPROTO_ICMP], TgCap = 8\<rparr>"
    by (simp add: run_program_def select_interface_def color_policy_def demo_program_def demo_fields demo_built Let_def)
      (simp add: demo_options_def InitDefaults_def)
  then show ?thesis
    using l by (simp add: main_def run_targets_def probe_mode_def leave_def demo_program_def demo_parsed demo_fields Let_def)
qed

definition demo_program2 :: program_env where
  "demo_program2 = demo_program\<lparr>Pg_json_file := (demo_tm, True), Pg_cycles := [Probing.demo_env]\<rparr>"

lemma demo_parsed2: "ProcessArguments None (\<lambda>p. None) (demo_argv @ [''-c'', ''1'']) = Parsed (demo_options\<lparr>Count := 1\<rparr>)"
  by code_simp

lemma demo_built2: "Targets_Build (\<lambda>p. None) (\<lambda>n. True) (demo_options\<lparr>Count := 1\<rparr>) 256 =
    Inr \<lparr>Items = [new_target ''host'' 0 IPPROTO_ICMP], TgCap = 8\<rparr>"
  by code_simp

lemma demo_probe_run: "\<exists>l. probe_run demo_program2 (demo_options\<lparr>Count := 1\<rparr>) \<lparr>Items = [new_target ''host'' 0 IPPROTO_ICMP], TgCap = 8\<rparr> l"
  using demo_built2 demo_resolved by (simp add: probe_run_def demo_program2_def demo_program_def demo_fields select_interface_def)

lemma demo_loop_ends: "\<exists>rc items o1. ProbeLoop (demo_options\<lparr>Count := 1\<rparr>) (demo_setup\<lparr>Su_color := b, Su_csv := True, Su_json := True\<rparr>) d
    [Probing.demo_env] items0 o0 = Some (rc, items, o1)"
proof -
  let ?a = "demo_options\<lparr>Count := 1\<rparr>" and ?u = "demo_setup\<lparr>Su_color := b, Su_csv := True, Su_json := True\<rparr>"
  have "\<not> cx_pool (main_ctx ?a ?u d items0)"
    by (simp add: main_ctx_def probe_ctx_def demo_options_def InitDefaults_def Let_def)
  then have "undisturbed (main_ctx ?a ?u d items0) (prepared ?a d items0) Probing.demo_env"
    by (simp add: undisturbed_def Probing.demo_env_def outcome_def)
  then have "\<exists>st. probe_loop (main_ctx ?a ?u d items0) (total_timer ?u) [Probing.demo_env] (loop_start ?a ?u d items0 o0) = Some st"
    using main_loop_runs[of ?a 1 "[Probing.demo_env]" ?u d items0 o0] by (auto simp: demo_options_def InitDefaults_def)
  then show ?thesis by (auto simp: ProbeLoop_unfold demo_setup_def)
qed

lemma demo_main2: "\<exists>r. main demo_program2 (demo_argv @ [''-c'', ''1'']) = Some r"
proof -
  obtain l where l: "probe_run demo_program2 (demo_options\<lparr>Count := 1\<rparr>) \<lparr>Items = [new_target ''host'' 0 IPPROTO_ICMP], TgCap = 8\<rparr> l"
    using demo_probe_run by blast
  have "ProcessArguments (Pg_home demo_program2) (Pg_files demo_program2) (demo_argv @ [''-c'', ''1'']) = Parsed (demo_options\<lparr>Count := 1\<rparr>)"
    using demo_parsed2 by (simp add: demo_program2_def demo_program_def)
  from main_probe_mode[OF this l] obtain st where
    "main demo_program2 (demo_argv @ [''-c'', ''1'']) = probe_mode demo_program2
       (color_policy (demo_options\<lparr>Count := 1\<rparr>) (Pg_no_color demo_program2) (Pg_tty demo_program2)) (demo_options\<lparr>Count := 1\<rparr>)
       (span_ms (Pg_dns_begin demo_program2) (Pg_dns_end demo_program2)) l st" by blast
  then show ?thesis
    using demo_loop_ends by (fastforce simp: probe_mode_def demo_program2_def demo_program_def demo_fields Let_def)
qed

section \<open>Properties\<close>



text \<open>C2: The log files of a run of the program with \<open>--csv\<close> and \<open>--json-file\<close>. There is a sequence of results,
  each of a resolved target, from which everything follows: each target's counters and diagnostics are those of
  its own results; the CSV file is its header and one row for each success; the JSON file is one line for each
  target that was built from the arguments, one for each result in order, and the summaries; and the exit status
  is 1 exactly when there was a result and no success.\<close>

theorem main_log_files:
  assumes "main e argv = Some r" "ProcessArguments (Pg_home e) (Pg_files e) argv = Parsed a" "probe_run e a l0 l"
    and "CSVOutput a" "snd (Pg_csv_file e)" "JsonFile a" "snd (Pg_json_file e)" "Su_calloc (Pg_setup e)"
  defines "items0 \<equiv> prepared a (span_ms (Pg_dns_begin e) (Pg_dns_end e)) (Items l)"
  shows "\<exists>evs items. length items = length (Items l) \<and>
    (\<forall>i < length items. accounts (events_of i evs) (items0 ! i) (items ! i)) \<and>
    (\<forall>v \<in> set evs. Ev_index v < length items \<and> ResolveOk (Items l ! Ev_index v) \<and> Ev_result v \<noteq> PINGDD_INTERRUPTED) \<and>
    Pr_csv r = WriteCSVHeader @ concat (map (event_csv items0) (filter succeeded evs)) \<and>
    Pr_json r = concat (map PrintTargetJson items0) @ concat (map (event_json items0) evs) @
      concat (map (summary_json (Su_sort (Pg_setup e))) items) \<and>
    (length evs < 2 ^ 64 \<longrightarrow> Pr_status r = (if evs \<noteq> [] \<and> (\<forall>v \<in> set evs. \<not> succeeded v) then 1 else 0))"
proof -
  obtain st where "probe_mode e (color_policy a (Pg_no_color e) (Pg_tty e)) a (span_ms (Pg_dns_begin e) (Pg_dns_end e)) l st = Some r"
    using main_probe_mode[OF assms(2,3)] assms(1) by auto
  moreover have "\<forall>t \<in> set (Items l). TgStats t = Stats_Init" using probe_run_fresh[OF assms(3)] by (simp add: past_def)
  ultimately show ?thesis unfolding items0_def by (rule probe_mode_files[OF _ assms(4-8)])
qed

theorem main_log_files_witness:
  "\<exists>r rest. main demo_program2 (demo_argv @ [''-c'', ''1'']) = Some r \<and> Pr_csv r = WriteCSVHeader @ rest"
proof -
  let ?a = "demo_options\<lparr>Count := 1\<rparr>"
  obtain l where l: "probe_run demo_program2 ?a \<lparr>Items = [new_target ''host'' 0 IPPROTO_ICMP], TgCap = 8\<rparr> l"
    using demo_probe_run by blast
  obtain r where r: "main demo_program2 (demo_argv @ [''-c'', ''1'']) = Some r" using demo_main2 by blast
  have "ProcessArguments (Pg_home demo_program2) (Pg_files demo_program2) (demo_argv @ [''-c'', ''1'']) = Parsed ?a"
    using demo_parsed2 by (simp add: demo_program2_def demo_program_def)
  from main_log_files[OF r this l] r show ?thesis
    by (auto simp: demo_fields demo_program2_def demo_program_def demo_setup_def)
qed



end
