(* ===== verification/Bounded.thy ===== *)
theory Bounded
  imports Report Timer
begin

text \<open>
  What the arithmetic of the statistics stays within. When every recorded time is a finite number of seconds
  up to \<open>2 ^ 30\<close>, no sum, square, mean, deviation or rank of \<open>stats.c\<close> overflows or becomes NaN, however many
  samples there are: a sum that has grown to \<open>2 ^ 84\<close> absorbs any further sample when it is rounded. So all
  numbers of the summaries of \<open>main.c\<close> and \<open>diag.c\<close> have digits, which their JSON lines need.
\<close>

section \<open>Bounded doubles\<close>

text \<open>Not negative and at most \<open>2 ^ n\<close>.\<close>

fun upto_pow :: "nat \<Rightarrow> f64 \<Rightarrow> bool" where
  "upto_pow n (Fin q) \<longleftrightarrow> 0 \<le> q \<and> q \<le> 2 ^ n"
| "upto_pow n x = False"

text \<open>A time that a probe reports, in seconds.\<close>

abbreviation plausible :: "f64 \<Rightarrow> bool" where "plausible \<equiv> upto_pow 30"

lemma upto_powE: "upto_pow n x \<Longrightarrow> (\<And>q. x = Fin q \<Longrightarrow> 0 \<le> q \<Longrightarrow> q \<le> 2 ^ n \<Longrightarrow> P) \<Longrightarrow> P"
  by (cases x) auto

lemma upto_pow_mono: "upto_pow n x \<Longrightarrow> n \<le> k \<Longrightarrow> upto_pow k x"
  using power_increasing [of n k "2 :: rat"] by (cases x) (auto intro: order_trans)

lemma upto_pow_not_NaN: "upto_pow n x \<Longrightarrow> x \<noteq> NaN"
  by (cases x) auto

lemma in_range_pow: "n \<le> 1000 \<Longrightarrow> 0 \<le> q \<Longrightarrow> q \<le> 2 ^ n \<Longrightarrow> in_range q"
proof -
  assume h: "n \<le> 1000" "0 \<le> q" "q \<le> 2 ^ n"
  have "(2 :: rat) ^ n \<le> 2 ^ 1000" using h(1) by (intro power_increasing) auto
  also have "(2 :: rat) ^ 1000 \<le> dbl_max" by (simp add: dbl_max_def)
  finally show ?thesis using h by (simp add: in_range_def)
qed

lemma round_q_pow: "round_q (2 ^ n) = 2 ^ n"
  using round_q_representable_pos [of 1 "int n"] by (simp add: two_powi_int)

lemma upto_pow_to_f64: "0 \<le> q \<Longrightarrow> q \<le> 2 ^ n \<Longrightarrow> n \<le> 1000 \<Longrightarrow> upto_pow n (to_f64 q)"
  using round_q_mono [of q "2 ^ n"] by (simp add: to_f64_in_range in_range_pow round_q_pow round_q_nonneg)

text \<open>A sum beyond \<open>2 ^ 54\<close> times the next term does not grow.\<close>

lemma absorbs: "round_q (2 ^ 84 + 2 ^ 30) = 2 ^ 84" "round_q (2 ^ 114 + 2 ^ 60) = 2 ^ 114"
  by (simp_all add: f64_eval)

lemma upto_pow_add:
  assumes "upto_pow n x" "upto_pow k y" "round_q (2 ^ n + 2 ^ k) = 2 ^ n" "k \<le> n" "n < 1000"
  shows "upto_pow n (fadd x y)"
proof -
  obtain a b where ab: "x = Fin a" "y = Fin b" "0 \<le> a" "a \<le> 2 ^ n" "0 \<le> b" "b \<le> 2 ^ k"
    using assms(1,2) by (elim upto_powE)
  have "(2 :: rat) ^ k \<le> 2 ^ n" using assms(4) by (intro power_increasing) auto
  then have "a + b \<le> 2 ^ n + 2 ^ n" using ab by linarith
  then have "a + b \<le> 2 ^ Suc n" by simp
  then have "in_range (a + b)" using ab assms(5) by (intro in_range_pow [of "Suc n"]) auto
  moreover have "round_q (a + b) \<le> round_q (2 ^ n + 2 ^ k)" using ab by (intro round_q_mono) auto
  ultimately show ?thesis using ab assms(3) by (simp add: to_f64_in_range round_q_nonneg)
qed

lemma upto_pow_mul: "upto_pow n x \<Longrightarrow> upto_pow k y \<Longrightarrow> n + k \<le> 1000 \<Longrightarrow> upto_pow (n + k) (fmul x y)"
proof (elim upto_powE)
  fix a b
  assume h: "n + k \<le> 1000" "x = Fin a" "0 \<le> a" "a \<le> 2 ^ n" "y = Fin b" "0 \<le> b" "b \<le> 2 ^ k"
  then have "a * b \<le> 2 ^ (n + k)" unfolding power_add by (intro mult_mono) auto
  then show "upto_pow (n + k) (fmul x y)" using h upto_pow_to_f64 [of "a * b" "n + k"] by simp
qed

lemma upto_pow_div:
  assumes "upto_pow n x" "0 < c" "n \<le> 1000"
  shows "upto_pow n (fdiv x (f64_of_nat (unat (c :: ulong))))"
proof -
  obtain m where m: "1 \<le> m" "f64_of_nat (unat c) = Fin m"
    using f64_of_nat64 [of "unat c"] assms(2) unsigned_less [of c] by (auto simp: unat_gt_0 word_neq_0_conv)
  obtain q where q: "x = Fin q" "0 \<le> q" "q \<le> 2 ^ n" using assms(1) by (elim upto_powE)
  have "q / m \<le> q / 1" using m(1) q(2) by (intro divide_left_mono) auto
  then show ?thesis using m q assms(3) by (simp add: upto_pow_to_f64)
qed

lemma ms_finite: "upto_pow n x \<Longrightarrow> n \<le> 900 \<Longrightarrow> ms x \<in> range Fin"
proof -
  assume h: "upto_pow n x" "n \<le> 900"
  have "upto_pow 10 (Fin 1000)" by simp
  then have "upto_pow (n + 10) (fmul x (Fin 1000))" using h by (intro upto_pow_mul) auto
  then show ?thesis by (auto simp: ms_def elim: upto_powE)
qed

lemma isqrt_le: "isqrt n \<le> n"
  using isqrt_correct [of n] by (cases "isqrt n") auto

lemma sqrt_scaled_le: "0 \<le> w \<Longrightarrow> sqrt_scaled w \<le> w + 1"
proof -
  assume w: "0 \<le> w"
  have "rat_of_nat (isqrt (nat \<lfloor>w\<rfloor>)) \<le> rat_of_nat (nat \<lfloor>w\<rfloor>)" by (simp only: of_nat_le_iff isqrt_le)
  also have "\<dots> \<le> w" using w by (simp add: of_nat_nat)
  finally show ?thesis by (simp add: sqrt_scaled_def sqrt_sticky_def)
qed

lemma sqrt_bounded:
  assumes "0 < q" "q \<le> 2 ^ 168"
  shows "sqrt_approx q \<le> 2 ^ 201"
proof -
  define L where "L = ilog2 q"
  define s where "s = sqrt_scale q"
  have s: "s = 60 - L div 2" by (simp add: s_def sqrt_scale_def L_def)
  have L: "L < 169" using assms by (auto simp: L_def intro!: ilog2_less)
  have q: "q < 2 powi (L + 1)" using ilog2_bounds [OF assms(1)] by (simp add: L_def)
  have "q * 4 powi s / 2 powi s = q * 2 powi s"
  proof -
    have "(4 :: rat) powi s = 2 powi s * 2 powi s" by (simp flip: power_int_mult_distrib)
    then show ?thesis by simp
  qed
  moreover have "q * 2 powi s \<le> 2 powi 200"
  proof -
    have "q * 2 powi s \<le> 2 powi (L + 1) * 2 powi s" using q by (intro mult_right_mono) auto
    also have "\<dots> = 2 powi (L + 1 + s)" by (simp add: power_int_add)
    also have "\<dots> \<le> 2 powi 200" using L s by (intro two_powi_mono) linarith
    finally show ?thesis .
  qed
  moreover have "1 / 2 powi s \<le> (2 :: rat) powi 200"
  proof -
    have "1 / 2 powi s = (2 :: rat) powi (- s)" by (simp add: power_int_minus divide_inverse)
    also have "\<dots> \<le> 2 powi 200" using L s by (intro two_powi_mono) linarith
    finally show ?thesis .
  qed
  moreover have "sqrt_approx q \<le> (q * 4 powi s + 1) / 2 powi s"
    unfolding sqrt_approx_def s_def using assms(1) by (intro divide_right_mono sqrt_scaled_le) auto
  ultimately have "sqrt_approx q \<le> 2 powi 200 + 2 powi 200" by (simp add: add_divide_distrib)
  then show ?thesis by simp
qed

section \<open>Statistics of bounded samples\<close>

definition sane_stats :: "stats_t \<Rightarrow> bool" where
  "sane_stats s \<longleftrightarrow> stats_inv s \<and> upto_pow 84 (Total s) \<and> upto_pow 114 (TotalSq s) \<and>
     plausible (Maximum s) \<and> upto_pow 1024 (Minimum s) \<and> (Connects s \<noteq> 0 \<longrightarrow> plausible (Minimum s)) \<and>
     (\<forall>x \<in> set (valid_samples s). plausible x)"

lemma sane_Init: "sane_stats Stats_Init"
  using Stats_Reset_inv by (simp add: sane_stats_def Stats_Init_def Stats_Reset_def valid_samples_def dbl_max_def)

lemma AddSample_sums:
  "Total (Stats_AddSample ok s v) = fadd (Total s) v" "TotalSq (Stats_AddSample ok s v) = fadd (TotalSq s) (fmul v v)"
  by (simp_all add: Stats_AddSample_def add_aggregates_def Let_def)

lemma sane_AddSample:
  assumes s: "sane_stats s" and v: "plausible v"
  shows "sane_stats (Stats_AddSample ok s v\<lparr>Connects := n, Attempts := m\<rparr>)" (is "sane_stats ?t")
proof -
  have nn: "Minimum s \<noteq> NaN" "Maximum s \<noteq> NaN" "v \<noteq> NaN"
    using s v by (auto simp: sane_stats_def dest: upto_pow_not_NaN)
  have inv: "stats_inv s" using s by (simp add: sane_stats_def)
  have "plausible (min (Minimum s) v)"
    using s v by (auto simp: sane_stats_def min_def elim!: upto_powE)
  then have mn: "plausible (Minimum ?t)" using AddSample_Minimum [OF nn(1,3)] by simp
  have mx: "plausible (Maximum ?t)"
    using s v AddSample_Maximum [OF nn(2,3)] by (simp add: sane_stats_def max_def)
  have "upto_pow 60 (fmul v v)" using upto_pow_mul [OF v v] by simp
  then have sums: "upto_pow 84 (Total ?t)" "upto_pow 114 (TotalSq ?t)"
    using s upto_pow_add [OF _ v absorbs(1)] upto_pow_add [OF _ _ absorbs(2)] by (simp_all add: sane_stats_def AddSample_sums)
  have "valid_samples ?t = valid_samples (Stats_AddSample ok s v)" by (simp add: valid_samples_def)
  moreover have "stats_inv ?t" using AddSample_inv [OF inv, of ok v] by (simp add: stats_inv_def)
  ultimately show ?thesis
    using s v mn mx sums AddSample_valid [OF inv, of ok v] upto_pow_mono [OF mn, of 1024] by (simp add: sane_stats_def)
qed

lemma sane_counters:
  "sane_stats s \<Longrightarrow> sane_stats (s\<lparr>Failures := n, Attempts := m\<rparr>)"
  by (simp add: sane_stats_def valid_samples_def stats_inv_def)

text \<open>Every figure the summaries print is finite.\<close>

lemma sane_average: "sane_stats s \<Longrightarrow> upto_pow 84 (Stats_Average s)"
  by (auto simp: Stats_Average_def sane_stats_def word_neq_0_conv intro!: upto_pow_div)

lemma sane_percentile:
  assumes "sane_stats s"
  shows "plausible (Stats_Percentile ok s p)"
proof (cases "SampleCount s = 0 \<or> Samples s = [] \<or> \<not> ok")
  case False
  let ?xs = "valid_samples s"
  have "length ?xs = SampleCount s" using assms valid_samples_count by (simp add: sane_stats_def)
  then have "percentile_index (SampleCount s) p < length (qsort CompareDouble ?xs)"
    using False percentile_index_less by simp
  then have "qsort CompareDouble ?xs ! percentile_index (SampleCount s) p \<in> set ?xs"
    by (metis nth_mem set_qsort)
  then show ?thesis
    using assms False by (simp add: Stats_Percentile_def valid_samples_def sane_stats_def)
qed (auto simp: Stats_Percentile_def)

lemma sane_deviation:
  assumes "sane_stats s"
  shows "\<exists>n \<le> 900. upto_pow n (Stats_StdDev s)"
proof (cases "Connects s = 0")
  case False
  define mean variance where "mean = Stats_Average s"
    and "variance = fsub (fdiv (TotalSq s) (f64_of_nat (unat (Connects s)))) (fmul mean mean)"
  have "upto_pow (84 + 84) (fmul mean mean)"
    using sane_average [OF assms] by (intro upto_pow_mul) (simp_all add: mean_def)
  moreover have "upto_pow 114 (fdiv (TotalSq s) (f64_of_nat (unat (Connects s))))"
    using False assms by (intro upto_pow_div) (auto simp: sane_stats_def word_neq_0_conv)
  ultimately obtain a b where ab: "fdiv (TotalSq s) (f64_of_nat (unat (Connects s))) = Fin a" "0 \<le> a" "a \<le> 2 ^ 114"
      "fmul mean mean = Fin b" "0 \<le> b" "b \<le> 2 ^ 168"
    by (elim upto_powE) simp
  have v: "variance = to_f64 (a - b)" using ab by (simp add: variance_def fsub_def)
  have sd: "Stats_StdDev s = fsqrt (if flt variance (Fin 0) then Fin 0 else variance)"
    using False by (simp add: Stats_StdDev_def Stats_Average_def mean_def variance_def Let_def)
  show ?thesis
  proof (cases "0 \<le> a - b")
    case True
    then have "upto_pow 114 variance" using ab v by (simp add: upto_pow_to_f64)
    then obtain q where q: "variance = Fin q" "0 \<le> q" "q \<le> 2 ^ 114" by (elim upto_powE)
    then have "q \<le> 2 ^ 168" by simp
    then have "upto_pow 201 (fsqrt (Fin q))"
      using q(2) sqrt_bounded [of q] sqrt_approx_nonneg by (auto intro!: upto_pow_to_f64)
    then show ?thesis using q sd by (intro exI [of _ 201]) simp
  next
    case False
    then have "\<bar>a - b\<bar> \<le> 2 ^ 168" using ab by simp
    then have "in_range (a - b)" using in_range_pow [of 168 "\<bar>a - b\<bar>"] by (simp add: in_range_def)
    then have "variance = Fin (round_q (a - b))" using v by (simp add: to_f64_in_range)
    moreover have "round_q (a - b) \<le> 0" using False r64.rnd_nonpos by simp
    ultimately have "Stats_StdDev s = Fin 0" using sd by (cases "round_q (a - b) = 0") auto
    then show ?thesis by (intro exI [of _ 0]) simp
  qed
qed (auto simp: Stats_StdDev_def intro!: exI [of _ 0])

text \<open>The loss is a quotient of two counters, finite whatever they are.\<close>

lemma f64_of_nat_upto: "upto_pow 64 (f64_of_nat (unat (c :: ulong)))"
proof -
  have "unat c < 2 ^ LENGTH(64)" by (rule unsigned_less)
  then have "unat c \<le> 2 ^ 64" by simp
  then have "rat_of_nat (unat c) \<le> rat_of_nat (2 ^ 64)" by (simp only: of_nat_le_iff)
  then have "rat_of_nat (unat c) \<le> 2 ^ 64" by simp
  with of_nat_0_le_iff show ?thesis unfolding f64_of_nat_def by (rule upto_pow_to_f64) simp
qed

lemma loss_finite:
  "fmul (fdiv (f64_of_nat (unat (f :: ulong))) (f64_of_nat (unat (n :: ulong)))) (Fin 100) \<in> range Fin"
  if "0 < n"
proof -
  have "upto_pow 64 (fdiv (f64_of_nat (unat f)) (f64_of_nat (unat n)))"
    using f64_of_nat_upto that by (rule upto_pow_div) simp
  moreover have "upto_pow 7 (Fin 100)" by simp
  ultimately have "upto_pow (64 + 7) (fmul (fdiv (f64_of_nat (unat f)) (f64_of_nat (unat n))) (Fin 100))"
    by (rule upto_pow_mul) simp
  then show ?thesis by (auto elim: upto_powE)
qed

lemma loss_percents_finite: "fail_percent s \<in> range Fin" "LossPercent s \<in> range Fin"
  using loss_finite by (auto simp: fail_percent_def LossPercent_def word_neq_0_conv)

lemma sane_ms:
  assumes "sane_stats s"
  shows "ms (Stats_Average s) \<in> range Fin" "ms (Stats_StdDev s) \<in> range Fin"
    "ms (Stats_Percentile ok s p) \<in> range Fin" "ms (Maximum s) \<in> range Fin"
    "Connects s \<noteq> 0 \<Longrightarrow> ms (Minimum s) \<in> range Fin"
proof -
  obtain n where "n \<le> 900" "upto_pow n (Stats_StdDev s)" using sane_deviation [OF assms] by blast
  then show "ms (Stats_StdDev s) \<in> range Fin" by (intro ms_finite)
  have "plausible (Maximum s)" "Connects s \<noteq> 0 \<Longrightarrow> plausible (Minimum s)" using assms by (simp_all add: sane_stats_def)
  then show "ms (Stats_Average s) \<in> range Fin" "ms (Stats_Percentile ok s p) \<in> range Fin" "ms (Maximum s) \<in> range Fin"
    "Connects s \<noteq> 0 \<Longrightarrow> ms (Minimum s) \<in> range Fin"
    using sane_average [OF assms] sane_percentile [OF assms] ms_finite [of 84] ms_finite [of 30] by auto
qed

lemma sane_summary: "sane_stats s \<Longrightarrow> finite_summary ok s"
  using sane_ms loss_percents_finite by (simp add: finite_summary_def)

section \<open>The line of the diagnostics\<close>

definition diag_fields :: "bool \<Rightarrow> diag_t \<Rightarrow> stats_t \<Rightarrow> (cstring \<times> json) list" where
  "diag_fields ok d s =
     (let bloat_ms = BufferbloatMs ok s; bloat = \<not> flt bloat_ms (Fin 0)
      in [(''dns_ms'', JNum (fmt_fixed 3 (DnsMs d))), (''dns_ok'', JBool (\<not> DnsFailed d)),
          (''quality'', JStr (QualityName (QualityGrade s))), (''loss_pct'', JNum (fmt_fixed 2 (LossPercent s))),
          (''jitter_ms'', JNum (fmt_fixed 4 (ms (Stats_StdDev s)))), (''bufferbloat'', JStr (BloatName bloat_ms)),
          (''bufferbloat_ms'', fixed_or_null bloat 1 bloat_ms), (''outages'', JNum (dec (unat (Outages d)))),
          (''longest_fail_streak'', JNum (dec (unat (LongestFailStreak d)))), (''down'', JBool (IsDown d)),
          (''verdict'', JStr (Verdict d s))])"

lemma DiagJson_text: "Diag_PrintJson ok d s = json_text (JObj [(''diagnostics'', JObj (diag_fields ok d s))]) @ [newline]"
  by (simp add: Diag_PrintJson_def diag_fields_def json_member_def json_bool_def BloatName_def Let_def)

lemma sane_bloat: "sane_stats s \<Longrightarrow> BufferbloatMs ok s \<in> range Fin"
proof -
  assume s: "sane_stats s"
  show ?thesis
  proof (cases "Connects s = 0 \<or> SampleCount s < 5")
    case False
    obtain a b where ab: "Stats_Percentile ok s (Fin 95) = Fin a" "0 \<le> a" "a \<le> 2 ^ 30" "Minimum s = Fin b" "0 \<le> b" "b \<le> 2 ^ 30"
      using sane_percentile [OF s, of ok "Fin 95"] s False by (auto simp: sane_stats_def elim!: upto_powE)
    then have "\<bar>a - b\<bar> \<le> 2 ^ 30" by simp
    moreover from this have "\<bar>round_q (a - b)\<bar> \<le> 2 ^ 30"
      using round_q_mono [of "a - b" "2 ^ 30"] round_q_mono [of "- (2 ^ 30)" "a - b"] round_q_minus [of "2 ^ 30"]
      by (simp add: abs_le_iff round_q_pow [of 30, simplified])
    ultimately have "in_range (a - b)" "in_range (round_q (a - b) * 1000)"
      using small_in_range by (auto simp: abs_mult)
    then show ?thesis using False ab by (simp add: BufferbloatMs_def ms_def fsub_def to_f64_in_range)
  qed (auto simp: BufferbloatMs_def)
qed

lemma diag_fields_wf:
  assumes "sane_stats s" "DnsMs d \<in> range Fin"
  shows "json_wf (JObj [(''diagnostics'', JObj (diag_fields ok d s))])"
  using assms(2) loss_percents_finite(2) sane_bloat [OF assms(1)] sane_ms(2) [OF assms(1)]
  by (auto simp del: fmt_fixed.simps simp: diag_fields_def json_number_finite code_def QualityName_def BloatName_def
      Verdict_def Let_def)

section \<open>Readings of the clock\<close>

lemma span_finite:
  assumes "reading a" "reading b"
  shows "fmul (elapsed_sec a b) (Fin 1000) \<in> range Fin"
proof -
  let ?n = "tv_nsec b - tv_nsec a" and ?s = "tv_sec b - tv_sec a"
  define x where "x = of_int ?s + round_q (of_int ?n / 1000000000)"
  define r where "r = rat_of_int ?n / 1000000000"
  have n: "\<bar>?n\<bar> < 1000000000" using assms by (auto simp: reading_def)
  then have "rat_of_int \<bar>?n\<bar> \<le> rat_of_int 1000000000" by (simp only: of_int_le_iff)
  then have "\<bar>r\<bar> \<le> 1" by (simp add: r_def)
  then have "\<bar>round_q r\<bar> \<le> 2" using quotient_error [OF n] unfolding r_def abs_le_iff by linarith
  moreover have "\<bar>?s\<bar> \<le> 2 ^ 53" using assms by (auto simp: reading_def)
  then have "\<bar>rat_of_int ?s\<bar> \<le> 2 ^ 53" by (simp flip: of_int_abs)
  ultimately have "\<bar>x\<bar> \<le> 2 ^ 54" using abs_triangle_ineq [of "rat_of_int ?s" "round_q r"] unfolding x_def r_def by simp
  then have "\<bar>round_q x\<bar> \<le> 2 ^ 54"
    using round_q_mono [of x "2 ^ 54"] round_q_mono [of "- (2 ^ 54)" x] round_q_minus [of "2 ^ 54"]
    by (simp add: abs_le_iff round_q_pow [of 54, simplified])
  then have "in_range (round_q x * 1000)" by (intro in_range_le [OF in_range_pow [of 100 "2 ^ 100"]]) (simp_all add: abs_mult)
  moreover have "elapsed_sec a b = Fin (round_q x)" unfolding x_def by (rule elapsed_sec_eq [OF assms])
  ultimately show ?thesis by (simp add: to_f64_in_range)
qed

end
