(* ===== verification/Ndjson.thy ===== *)
theory Ndjson
  imports Program Bounded
begin

text \<open>
  What a reader of \<open>--json\<close> relies on: the whole standard output of a run is one JSON object after another, each on
  its own line. The parts meet here: the lines of \<open>main.c\<close> and \<open>diag.c\<close>, the order in which the probe loop writes
  them, the finite figures of the statistics, and the program that writes nothing else.
\<close>

section \<open>Streams of objects\<close>

definition json_stream :: "json list \<Rightarrow> cstring" where
  "json_stream js = concat (map (\<lambda>j. json_text j @ [newline]) js)"

lemma json_stream_append [simp]: "json_stream (js @ ks) = json_stream js @ json_stream ks"
  by (simp add: json_stream_def)

lemma json_stream_Nil [simp]: "json_stream [] = []"
  by (simp add: json_stream_def)

lemma json_stream_concat: "json_stream (concat jss) = concat (map json_stream jss)"
  by (induction jss) (simp_all add: json_stream_def)

definition target_object :: "probe_target_t \<Rightarrow> json" where
  "target_object t = JObj [(''target'', JObj (target_fields t))]"

definition event_object :: "probe_target_t list \<Rightarrow> event \<Rightarrow> json" where
  "event_object items e =
     (let t = items ! Ev_index e
      in JObj (probe_fields (Ev_result e) (Ev_seq e) (Ev_ip e) (Ev_rtt e) (ProtoLabel (TgType t) (Ev_ip e))
           (TgType t \<noteq> IPPROTO_ICMP) (TgPort t) (Ev_time e) (Host t) (Ev_ttl e)))"

definition summary_objects :: "(nat \<Rightarrow> bool) \<Rightarrow> probe_target_t \<Rightarrow> json list" where
  "summary_objects ok t =
     (if ResolveOk t
      then [JObj [(''summary'', JObj (summary_fields ok (TgStats t) (Host t)))],
            JObj [(''diagnostics'', JObj (diag_fields (ok 95) (TgDiag t) (TgStats t)))]]
      else [])"

lemma target_stream: "concat (map PrintTargetJson ts) = json_stream (map target_object ts)"
  by (induction ts) (simp_all add: json_stream_def target_object_def TargetJson_text)

lemma event_stream: "concat (map (event_json items) evs) = json_stream (map (event_object items) evs)"
  by (induction evs) (simp_all add: json_stream_def event_object_def event_json_def ProbeJson_text Let_def)

lemma summary_stream: "concat (map (summary_json ok) ts) = json_stream (concat (map (summary_objects ok) ts))"
proof -
  have "summary_json ok t = json_stream (summary_objects ok t)" for t
    by (simp add: summary_json_def summary_objects_def json_stream_def SummaryJson_text DiagJson_text)
  then show ?thesis unfolding json_stream_concat by (induction ts) simp_all
qed

section \<open>What the loop keeps sane\<close>

definition sane_item :: "probe_target_t \<Rightarrow> bool" where
  "sane_item t \<longleftrightarrow> plausible (LastRtt t) \<and> sane_stats (TgStats t) \<and> DnsMs (TgDiag t) \<in> range Fin"

definition sane_event :: "event \<Rightarrow> bool" where
  "sane_event v \<longleftrightarrow> plausible (Ev_rtt v) \<and> json_body (Ev_time v)"

text \<open>Every time that \<open>Connect\<close> reports in the cycle is a finite number of seconds.\<close>

definition sane_cycle :: "cycle_env \<Rightarrow> bool" where
  "sane_cycle e \<longleftrightarrow> (\<forall>i h timeout. plausible (fst (snd (Ce_connect e i h timeout))))"

lemma all_update: "\<forall>x \<in> set xs. P x \<Longrightarrow> (i < length xs \<Longrightarrow> P y) \<Longrightarrow> \<forall>x \<in> set (xs[i := y]). P x"
  by (cases "i < length xs") (auto simp: list_update_beyond dest: subsetD[OF set_update_subset_insert])

lemma sane_probe: "sane_cycle e \<Longrightarrow> sane_item t \<Longrightarrow> sane_item (Probe_One (Ce_connect e i) timeout t)"
  by (auto simp: sane_item_def sane_cycle_def Probe_One_def split: prod.splits) (metis fst_conv snd_conv)

lemma sane_probe_cycle:
  assumes "sane_cycle e" "\<forall>t \<in> set items. sane_item t"
  shows "\<forall>t \<in> set (probe_cycle c e items). sane_item t"
proof -
  have step: "\<forall>t \<in> set items. sane_item t \<Longrightarrow>
      \<forall>t \<in> set (items[i := Probe_One (Ce_connect e i) timeout (items ! i)]). sane_item t" for items i timeout
    using assms(1) by (intro all_update) (auto intro: sane_probe)
  have "\<forall>t \<in> set (probe_log (Ce_connect e) timeout l items). sane_item t" for timeout l
    using assms(2)
  proof (induction l arbitrary: items)
    case (Cons i l)
    then show ?case using Cons.IH[OF step[OF Cons.prems]] by simp
  qed simp
  moreover have "\<forall>t \<in> set (probe_seq c e l items). sane_item t" for l
    using assms(2)
  proof (induction l arbitrary: items)
    case (Cons i l)
    then show ?case using step[OF Cons.prems, of i] Cons.IH[OF step[OF Cons.prems]] by (auto simp: Let_def)
  qed simp
  ultimately show ?thesis by (simp add: probe_cycle_def)
qed

lemma Observe_DnsMs [simp]: "DnsMs (fst (Diag_Observe d success x)) = DnsMs d"
  by (simp add: Diag_Observe_def observe_recovery_def observe_rtt_def observe_latency_def observe_failure_def Let_def)

lemma sane_record: "plausible (LastRtt t) \<Longrightarrow> sane_stats (TgStats t) \<Longrightarrow> sane_stats (record_result ok t)"
  using sane_AddSample[where s = "TgStats t" and v = "LastRtt t" and ok = ok and n = "Connects (TgStats t) + 1"
      and m = "Attempts (TgStats t) + 1"]
    sane_counters[where s = "TgStats t" and n = "Failures (TgStats t) + 1" and m = "Attempts (TgStats t) + 1"]
  by (simp add: record_result_def Let_def)

lemma sane_process: "process_target c datetime ok t o1 = (u, o2) \<Longrightarrow> sane_item t \<Longrightarrow> sane_item u"
  using process_target_item[of c datetime ok t o1 u o2] sane_record by (simp add: sane_item_def)

lemma sane_process_all:
  "process_all c e ks items o1 b = (items', o2, b') \<Longrightarrow> \<forall>t \<in> set items. sane_item t \<Longrightarrow> set ks \<subseteq> {..<length items} \<Longrightarrow>
   \<forall>t \<in> set items'. sane_item t"
proof (induction c e ks items o1 b rule: process_all.induct)
  case (2 c e i ks items o1 b)
  obtain t o3 where t: "process_target c (stamp c e i) (Ce_alloc e i) (items ! i) o1 = (t, o3)" by fastforce
  have "\<forall>t \<in> set (items[i := t]). sane_item t"
    using 2(4,5) sane_process[OF t] by (intro all_update) auto
  then show ?case using 2 t by (auto split: if_splits)
qed simp

text \<open>A time stamp has digits and separators only.\<close>

lemma json_body_plain: "\<forall>c \<in> set s. c \<noteq> backslash \<and> c \<noteq> dquote \<and> 0x20 \<le> code c \<Longrightarrow> json_body s"
  by (induction s) (auto simp: json_body_plain_Cons)

lemma stamp_body: "json_body (GetTimestampString t z d)"
proof -
  have d: "c \<noteq> backslash \<and> c \<noteq> dquote \<and> 0x20 \<le> code c" if "c \<in> set (fmt_zero w n)" for c w n
    using that by (auto simp: fmt_zero_def isdigit_def code_def split: if_splits dest!: fmt_pad_digits)
  show ?thesis
    unfolding GetTimestampString_def timestamp_text_def Let_def
    by (intro json_body_plain ballI) (auto simp: code_def split: if_splits dest!: set_bounded_copy d)
qed

lemma sane_cycle_events:
  assumes "\<forall>t \<in> set items. sane_item t" "set ks \<subseteq> {..<length items}" "v \<in> set (cycle_events c e items ks)"
  shows "sane_event v"
  using assms by (auto simp: cycle_events_def sane_event_def event_at_def stamp_body sane_item_def)

section \<open>The log of a sane run\<close>

definition sane_log ::
  "ctx \<Rightarrow> probe_target_t list \<Rightarrow> outputs \<Rightarrow> event list \<Rightarrow> probe_target_t list \<Rightarrow> outputs \<Rightarrow> bool" where
  "sane_log c items0 o0 evs items o1 \<longleftrightarrow>
     logged c items0 o0 evs items o1 \<and> (\<forall>t \<in> set items. sane_item t) \<and> (\<forall>v \<in> set evs. sane_event v)"

lemma sane_run_cycle:
  assumes "sane_log c items0 o0 evs (Ls_items st) (Ls_out st)" "run_cycle c e st = (st1, b)" "sane_cycle e"
    "ctx_ok c (length items0)"
  shows "\<exists>evs1. sane_log c items0 o0 (evs @ evs1) (Ls_items st1) (Ls_out st1)"
proof -
  let ?items = "probe_cycle c e (Ls_items st)"
  have l: "logged c items0 o0 evs (Ls_items st) (Ls_out st)" using assms(1) by (simp add: sane_log_def)
  have len: "length ?items = length items0"
    using list_all2_lengthD[OF last_only_probe_cycle[of "Ls_items st" c e]] l by (simp add: logged_def)
  have ks: "set (cx_rt c) \<subseteq> {..<length ?items}" using assms(4) by (simp add: ctx_ok_def len)
  have sane: "\<forall>t \<in> set ?items. sane_item t"
    using assms(1) by (intro sane_probe_cycle[OF assms(3)]) (simp add: sane_log_def)
  obtain items o1 b' where p: "process_all c e (cx_rt c) ?items (Ls_out st) False = (items, o1, b')" by (metis surj_pair)
  then have "Ls_items st1 = items" using assms(2) by (auto simp: run_cycle_def)
  then have "\<forall>t \<in> set (Ls_items st1). sane_item t" using sane_process_all[OF p sane ks] by simp
  moreover have "\<forall>v \<in> set (cycle_events c e ?items (cx_rt c)). sane_event v" using sane_cycle_events[OF sane ks] by blast
  ultimately show ?thesis
    using logged_run_cycle[OF assms(2) l assms(4)] assms(1) by (auto simp: sane_log_def)
qed

lemma sane_loop:
  assumes "probe_loop c tmr es st = Some st'" "sane_log c items0 o0 [] (Ls_items st) (Ls_out st)"
    "\<forall>e \<in> set es. sane_cycle e" "ctx_ok c (length items0)"
  shows "\<exists>evs. sane_log c items0 o0 evs (Ls_items st') (Ls_out st')"
  using probe_loop_log[of c tmr es st st' "sane_log c items0 o0" "[]"] assms sane_run_cycle by force

section \<open>The standard output\<close>

lemma header_stdout:
  assumes "Json (cx_args c)"
  shows "out_stdout (probe_header c now items o0) = out_stdout o0 @ concat (map PrintTargetJson items)"
proof -
  have "out_stdout (fold (\<lambda>t. to_sinks c False (PrintTargetJson t)) ts o1) = out_stdout o1 @ concat (map PrintTargetJson ts)" for ts o1
    using assms by (induction ts arbitrary: o1) simp_all
  then show ?thesis using assms by (simp add: probe_header_def human_def Let_def)
qed

lemma footer_stdout:
  assumes "Json (cx_args c)" "\<not> Prometheus (cx_args c)"
  shows "out_stdout (probe_footer c interrupted ok items o0) = out_stdout o0 @ concat (map (summary_json ok) items)"
proof -
  have "out_stdout (fold (target_summary c ok) ts o1) = out_stdout o1 @ concat (map (summary_json ok) ts)" for ts o1
    using assms by (induction ts arbitrary: o1) (simp_all add: target_summary_def summary_json_def human_def Let_def)
  then show ?thesis using assms by (simp add: probe_footer_def human_def Let_def)
qed

text \<open>The lines of a run with \<open>--json\<close>: the targets, the results (unless \<open>--quiet\<close>), the summaries.\<close>

definition run_objects ::
  "bool \<Rightarrow> (nat \<Rightarrow> bool) \<Rightarrow> probe_target_t list \<Rightarrow> event list \<Rightarrow> probe_target_t list \<Rightarrow> json list" where
  "run_objects quiet ok items0 evs items =
     map target_object items0 @ (if quiet then [] else map (event_object items0) evs) @ concat (map (summary_objects ok) items)"

lemma event_object_wf: "sane_event v \<Longrightarrow> json_wf (event_object items v)"
proof -
  assume v: "sane_event v"
  then have "ms (Ev_rtt v) \<in> range Fin" by (intro ms_finite[of 30]) (simp_all add: sane_event_def)
  then show ?thesis
    using v by (simp only: event_object_def Let_def) (rule probe_fields_wf, auto simp: sane_event_def json_body_literals)
qed

lemma run_objects_wf:
  assumes "\<forall>t \<in> set items0. json_body (Asn (Resolved t))" "\<forall>v \<in> set evs. sane_event v" "\<forall>t \<in> set items. sane_item t"
    and "j \<in> set (run_objects quiet ok items0 evs items)"
  shows "json_wf j \<and> newline \<notin> set (json_text j)"
proof -
  have "json_wf (JObj [(''summary'', JObj (summary_fields ok (TgStats t) (Host t)))])" if "sane_item t" for t
  proof -
    have "sane_stats (TgStats t)" using that by (simp add: sane_item_def)
    from summary_fields_wf[OF sane_summary[OF this]] show ?thesis by (simp add: code_def)
  qed
  then have "json_wf j'" if "t \<in> set items" "j' \<in> set (summary_objects ok t)" for j' t
    using that assms(3) diag_fields_wf[of "TgStats t" "TgDiag t"]
    by (auto simp: summary_objects_def sane_item_def simp del: json_wf.simps(5) split: if_splits)
  moreover have "json_wf (target_object t)" if "t \<in> set items0" for t
    using that assms(1) target_fields_wf[of t] by (simp add: target_object_def code_def)
  ultimately have "json_wf j" using assms(2,4) by (auto simp: run_objects_def event_object_wf split: if_splits)
  then show ?thesis using json_text_no_newline by blast
qed

text \<open>What the probe loop writes with \<open>--json\<close>, from fresh targets.\<close>

lemma sane_prepared:
  assumes "\<forall>t \<in> set items. past t = (Stats_Init, Fin 0)" "dns_ms \<in> range Fin"
  shows "\<forall>t \<in> set (prepared a dns_ms items). sane_item t"
  using assms sane_Init by (auto simp: prepared_def prepare_target_def sane_item_def past_def Diag_SetDns_def)

lemma ProbeLoop_stream:
  assumes "ProbeLoop a u dns_ms es items o0 = Some (rc, items', o1)" "Su_calloc u"
    and "Json a" "\<not> Audible a" "\<not> Prometheus a"
    and "\<forall>t \<in> set items. past t = (Stats_Init, Fin 0)" "dns_ms \<in> range Fin" "\<forall>e \<in> set es. sane_cycle e"
  defines "items0 \<equiv> prepared a dns_ms items"
  shows "\<exists>evs. out_stdout o1 = out_stdout o0 @ json_stream (run_objects (Quiet a) (Su_sort u) items0 evs items') \<and>
    (JsonFile a \<and> Su_json u \<longrightarrow> out_json o1 = out_json o0 @ json_stream (run_objects False (Su_sort u) items0 evs items')) \<and>
    (\<forall>v \<in> set evs. sane_event v) \<and> (\<forall>t \<in> set items'. sane_item t)"
proof -
  let ?c = "main_ctx a u dns_ms items"
  obtain st where st: "probe_loop ?c (total_timer u) es (loop_start a u dns_ms items o0) = Some st"
    and r: "items' = Ls_items st" "o1 = probe_footer ?c (Su_interrupted u) (Su_sort u) (Ls_items st) (Ls_out st)"
    using assms(1) unfolding ProbeLoop_unfold[OF assms(2)] by auto
  let ?o = "Ls_out (loop_start a u dns_ms items o0)"
  have "sane_log ?c items0 ?o [] (Ls_items (loop_start a u dns_ms items o0)) ?o"
    using logged_start[of ?c items0] sane_prepared[OF assms(6,7)] by (simp add: sane_log_def loop_start_def items0_def)
  then obtain evs where evs: "sane_log ?c items0 ?o evs items' (Ls_out st)"
    using sane_loop[OF st _ assms(8)] main_ctx_ok unfolding items0_def r by blast
  have sel: "cx_args ?c = a" "cx_json ?c = Su_json u" by (simp_all add: main_ctx_def probe_ctx_def Let_def)
  have silent: "\<forall>t \<in> set items0. Silent (TgDiag t)"
    using assms(3) by (auto simp: items0_def prepared_def prepare_target_def Diag_SetDns_def Diag_Init_def)
  have f: "files_agree ?c items0 evs ?o (Ls_out st)" using evs by (simp add: sane_log_def logged_def)
  have "out_stdout ?o = out_stdout o0 @ json_stream (map target_object items0)"
    using assms(3) by (simp add: loop_start_def header_stdout items0_def target_stream)
  moreover have "out_json ?o = out_json o0 @ json_stream (map target_object items0)" if "JsonFile a \<and> Su_json u"
    using that sel by (simp add: loop_start_def header_files items0_def target_stream)
  ultimately show ?thesis
    using f evs silent assms(3-5) sel
    by (intro exI[of _ evs]) (simp add: r footer_stdout footer_files files_agree_def sane_log_def run_objects_def
        event_stream summary_stream)
qed

section \<open>One run\<close>

definition json_argv :: "cstring list" where
  "json_argv = [''--no-config'', ''-P'', ''ICMP'', ''host'', ''--json'', ''-c'', ''1'']"

definition json_options :: arguments_t where
  "json_options = InitDefaults\<lparr>Hosts := [''host''], Destination := Some ''host'', ProtoSpec := Some ''ICMP'',
     Json := True, UseColor := False, Count := 1\<rparr>"

abbreviation json_target :: target_list_t where
  "json_target \<equiv> \<lparr>Items = [new_target ''host'' 0 IPPROTO_ICMP], TgCap = 8\<rparr>"

lemma json_parsed: "ProcessArguments None (\<lambda>p. None) json_argv = Parsed json_options"
  by code_simp

lemma json_built: "Targets_Build (\<lambda>p. None) (\<lambda>n. True) json_options 256 = Inr json_target"
  by code_simp

lemma json_fields:
  "Interface json_options = None" "HttpUrl json_options = None" "Traceroute json_options = False" "LoadTest json_options = False"
  "Resilience json_options = False" "CSVOutput json_options = False" "JsonFile json_options = False" "Json json_options"
  "\<not> Audible json_options" "\<not> Prometheus json_options" "ResolveOpt json_options = False" "Count json_options = 1"
  "Deadline json_options = 0" "Concurrent json_options = False" "Quiet json_options = False"
  by (simp_all add: json_options_def InitDefaults_def)

lemma demo_cycle_sane: "sane_cycle Probing.demo_env"
  by (simp add: sane_cycle_def Probing.demo_env_def)

lemma json_loop_ends: "\<exists>rc items o1. ProbeLoop json_options (demo_setup\<lparr>Su_color := b, Su_csv := False, Su_json := False\<rparr>) d
    [Probing.demo_env] items0 o0 = Some (rc, items, o1)"
proof -
  let ?u = "demo_setup\<lparr>Su_color := b, Su_csv := False, Su_json := False\<rparr>"
  have "\<not> cx_pool (main_ctx json_options ?u d items0)"
    by (simp add: main_ctx_def probe_ctx_def json_fields Let_def)
  then have "undisturbed (main_ctx json_options ?u d items0) (prepared json_options d items0) Probing.demo_env"
    by (simp add: undisturbed_def Probing.demo_env_def outcome_def)
  then have "\<exists>st. probe_loop (main_ctx json_options ?u d items0) (total_timer ?u) [Probing.demo_env]
      (loop_start json_options ?u d items0 o0) = Some st"
    using main_loop_runs[of json_options 1 "[Probing.demo_env]" ?u d items0 o0] json_fields(12,13)
    by (auto simp del: probe_loop.simps)
  then show ?thesis by (auto simp: ProbeLoop_unfold demo_setup_def)
qed

lemma json_probe_run: "\<exists>l. probe_run demo_program2 json_options json_target l \<and> (\<forall>t \<in> set (Items l). Asn (Resolved t) = [])"
proof -
  have "Targets_Resolve (\<lambda>i d h. (SUCCESS, h\<lparr>Addrs := [Inet 7 0]\<rparr>)) json_target =
      (fst (Targets_Resolve (\<lambda>i d h. (SUCCESS, h\<lparr>Addrs := [Inet 7 0]\<rparr>)) json_target), 1)"
    using demo_resolved by (metis prod.collapse)
  moreover have "\<forall>t \<in> set (Items (fst (Targets_Resolve (\<lambda>i d h. (SUCCESS, h\<lparr>Addrs := [Inet 7 0]\<rparr>)) json_target))). Asn (Resolved t) = []"
    by code_simp
  ultimately show ?thesis
    using json_built by (simp add: probe_run_def demo_program2_def demo_program_def json_fields select_interface_def
        annotate_all_def demo_resolved)
qed

section \<open>Properties\<close>



end
