(* ===== verification/Windows.thy ===== *)
theory Windows
  imports Trace Csv LoadTest
begin

unbundle bit_operations_syntax

text \<open>
  The branches of the sources under \<open>_WIN32\<close> that carry logic of their own: the performance counter
  (\<open>timer.c\<close>, \<open>loadtest.c\<close>), the time zone (\<open>main.c\<close>), Winsock, its error codes and \<open>select\<close> (\<open>socket.c\<close>), and the ICMP probes over
  the IP Helper API (\<open>socket.c\<close>, \<open>traceroute.c\<close>). A 64-bit counter is a word whose value is signed; what the
  system answers to one probe is a record. The run of a traceroute is \<open>Traceroute_with\<close>, which both systems share.
\<close>

section \<open>The performance counter\<close>

record win_timer =
  wt_hasValue :: bool
  wt_freq :: ulong
  wt_start :: ulong

definition Timer_Start_win :: "ulong \<Rightarrow> ulong \<Rightarrow> win_timer \<Rightarrow> win_timer" where
  "Timer_Start_win freq now t = t\<lparr>wt_hasValue := True, wt_freq := freq, wt_start := now\<rparr>"

definition elapsed_win :: "ulong \<Rightarrow> ulong \<Rightarrow> ulong \<Rightarrow> f64" where
  "elapsed_win freq t0 t1 =
     (let ticks = f64_of_int (sint (t1 - t0))
      in if freq \<noteq> 0 then fdiv ticks (f64_of_int (sint freq)) else Fin 0)"

definition Timer_Stop_win :: "ulong \<Rightarrow> win_timer \<Rightarrow> f64 \<times> win_timer" where
  "Timer_Stop_win now t =
     (if \<not> wt_hasValue t then (Fin 0, t)
      else (elapsed_win (wt_freq t) (wt_start t) now, t\<lparr>wt_hasValue := False\<rparr>))"

definition NowMs_win :: "ulong \<Rightarrow> ulong \<Rightarrow> f64" where
  "NowMs_win freq counter =
     (if freq = 0 then Fin 0 else fdiv (fmul (f64_of_int (sint counter)) (Fin 1000)) (f64_of_int (sint freq)))"

text \<open>A difference of two readings does not leave the range of the counter.\<close>

lemma sint_ticks:
  fixes a b :: ulong
  assumes "0 \<le> sint a" "sint a \<le> sint b"
  shows "sint (b - a) = sint b - sint a"
proof -
  have "sint b < 2 ^ 63" using sint_lt[of b] by simp
  then have "signed_take_bit 63 (sint b - sint a) = sint b - sint a"
    using assms by (intro signed_take_bit_int_eq_self) auto
  then show ?thesis by (simp add: sint_word_ariths)
qed

lemma ticks_fin: "\<bar>n\<bar> < 2 ^ 64 \<Longrightarrow> f64_of_int n = Fin (round_q (of_int n))"
proof -
  assume "\<bar>n\<bar> < 2 ^ 64"
  then have "rat_of_int \<bar>n\<bar> \<le> rat_of_int (2 ^ 64)" by (simp only: of_int_le_iff)
  then have "in_range (of_int n)" by (simp add: in_range_def dbl_max_def)
  then show ?thesis by (simp add: f64_of_int_def to_f64_in_range)
qed

lemma round_of_pos: "0 < n \<Longrightarrow> 0 < round_q (of_int n)"
proof -
  assume "0 < n"
  then have "rat_of_int 1 \<le> rat_of_int n" by (simp only: of_int_le_iff)
  then have "rat_of_nat 1 \<le> round_q (of_int n)" by (intro r64.rnd_ge_nat) simp_all
  then show ?thesis by simp
qed

text \<open>The stopwatch is a quotient of two rounded integers, and rounding keeps their order.\<close>

lemma elapsed_win_eq:
  assumes "0 \<le> sint a" "sint a \<le> sint b" "0 < sint freq"
  shows "elapsed_win freq a b = to_f64 (round_q (of_int (sint b - sint a)) / round_q (of_int (sint freq)))"
proof -
  have "\<bar>sint b - sint a\<bar> < 2 ^ 64" "\<bar>sint freq\<bar> < 2 ^ 64" using sint_lt[of b] sint_lt[of freq] assms by simp_all
  note fin = this[THEN ticks_fin]
  have "freq \<noteq> 0" using assms(3) by auto
  then show ?thesis
    unfolding elapsed_win_def Let_def sint_ticks[OF assms(1,2)] fin using round_of_pos[OF assms(3)] by simp
qed

section \<open>The time zone\<close>

abbreviation TIME_ZONE_ID_DAYLIGHT :: u32 where "TIME_ZONE_ID_DAYLIGHT \<equiv> 2"

definition offset_minutes_win :: "u32 \<Rightarrow> int \<Rightarrow> int \<Rightarrow> int" where
  "offset_minutes_win result bias daylight_bias =
     (let bias_minutes = (if result = TIME_ZONE_ID_DAYLIGHT then bias + daylight_bias else bias) in - bias_minutes)"

definition GetTimestampString_win :: "tm \<Rightarrow> u32 \<Rightarrow> int \<Rightarrow> int \<Rightarrow> cstring" where
  "GetTimestampString_win t result bias daylight_bias = timestamp_text t (offset_minutes_win result bias daylight_bias)"

section \<open>The console\<close>

text \<open>\<open>GetConsoleMode\<close> gives the mode of a console, and none when standard output has no console; the result is the mode that
  is set, with the bit \<open>ENABLE_VIRTUAL_TERMINAL_PROCESSING\<close>.\<close>

definition Print_EnableVirtualTerminal_win :: "bool \<Rightarrow> u32 option \<Rightarrow> u32 option" where
  "Print_EnableVirtualTerminal_win valid mode = (if valid then map_option (\<lambda>m. m OR 4) mode else None)"

section \<open>Winsock\<close>

text \<open>The static flag of \<open>InitializeWinsock\<close> and the number of calls of \<open>WSAStartup\<close>, whose answer is an argument.\<close>

record winsock =
  ws_initialized :: bool
  ws_startups :: nat

definition InitializeWinsock_win :: "int \<Rightarrow> winsock \<Rightarrow> int \<times> winsock" where
  "InitializeWinsock_win startup ws =
     (if \<not> ws_initialized ws
      then let ws1 = ws\<lparr>ws_startups := ws_startups ws + 1\<rparr>
           in if startup \<noteq> 0 then (PINGDD_SOCKET_FAILURE, ws1) else (SUCCESS, ws1\<lparr>ws_initialized := True\<rparr>)
      else (SUCCESS, ws))"

datatype wsa_error =
  WSAECONNREFUSED | WSAETIMEDOUT | WSAEHOSTUNREACH | WSAENETUNREACH | WSAEWOULDBLOCK | WSAECONNRESET | OtherWsa int

definition MapConnectError_win :: "wsa_error \<Rightarrow> int" where
  "MapConnectError_win err =
     (case err of WSAECONNREFUSED \<Rightarrow> PINGDD_SOCKET_CLOSED
      | WSAETIMEDOUT \<Rightarrow> PINGDD_SOCKET_TIMEOUT
      | WSAEHOSTUNREACH \<Rightarrow> PINGDD_SOCKET_UNREACH
      | WSAENETUNREACH \<Rightarrow> PINGDD_SOCKET_UNREACH
      | _ \<Rightarrow> PINGDD_SOCKET_FAILURE)"

text \<open>One call of \<open>select\<close>, with its time limit in seconds and microseconds; there is no second one.\<close>

definition WaitEvent_win :: "u32 \<Rightarrow> bool \<Rightarrow> f64 \<Rightarrow> poll_outcome \<Rightarrow> int \<times> (int \<times> int) list" where
  "WaitEvent_win timeout_ms interrupted sec outcome =
     (if interrupted then (- 2, [])
      else let remaining = max 0 (remaining_ms timeout_ms sec)
           in (case outcome of PollError \<Rightarrow> - 1 | PollReady \<Rightarrow> 1 | PollTimeout \<Rightarrow> 0,
               [(c_div remaining 1000, c_mod remaining 1000 * 1000)]))"

text \<open>Only the literal addresses of \<open>--interface\<close> are known to this system.\<close>

definition SetSourceInterface_win ::
  "int \<Rightarrow> (cstring \<Rightarrow> u32 option) \<Rightarrow> (cstring \<Rightarrow> 128 word option) \<Rightarrow> cstring \<Rightarrow> nat \<Rightarrow> winsock \<Rightarrow> sock_state \<Rightarrow>
   int \<times> cstring \<times> winsock \<times> sock_state" where
  "SetSourceInterface_win startup pton4 pton6 spec err_size ws st =
     (if spec = [] then (PINGDD_INVALID_ARGS, [], ws, st)
      else let (r, ws1) = InitializeWinsock_win startup ws
      in if r \<noteq> SUCCESS then (PINGDD_SOCKET_FAILURE, [], ws1, st)
      else case pton4 spec of
          Some a4 \<Rightarrow> (SUCCESS, [], ws1, st\<lparr>g_src4 := Some a4\<rparr>)
        | None \<Rightarrow>
            (case pton6 spec of
               Some a6 \<Rightarrow> (SUCCESS, [], ws1, st\<lparr>g_src6 := Some a6\<rparr>)
             | None \<Rightarrow>
                 (PINGDD_INVALID_ARGS, bounded_copy err_size
                    ''interface by name is not supported on Windows; pass a source IP address instead'', ws1, st)))"

section \<open>Echo requests over the IP Helper API\<close>

text \<open>The reply the API writes: the status, the time in milliseconds, the TTL of the options (IPv4), and the text
  of the sender's address. The answers to one probe: whether there is a handle, the number of replies, the last
  error, and the reply.\<close>

record ip_reply =
  ir_status :: u32
  ir_rtt :: u32
  ir_ttl :: u8
  ir_from :: cstring

record ip_helper =
  ih_file :: bool
  ih_count :: u32
  ih_error :: u32
  ih_reply :: ip_reply

abbreviation IP_SUCCESS :: u32 where "IP_SUCCESS \<equiv> 0"
abbreviation IP_REQ_TIMED_OUT :: u32 where "IP_REQ_TIMED_OUT \<equiv> 11010"
abbreviation IP_TTL_EXPIRED_TRANSIT :: u32 where "IP_TTL_EXPIRED_TRANSIT \<equiv> 11013"

definition reply_seconds :: "ip_reply \<Rightarrow> f64" where
  "reply_seconds r = fdiv (f64_of_nat (unat (ir_rtt r))) (Fin 1000)"

text \<open>The probe of \<open>Connect\<close>: code, time, TTL and calls.\<close>

definition ProbeIcmp_win :: "bool \<Rightarrow> ip_helper \<Rightarrow> u32 \<Rightarrow> int \<Rightarrow> int \<times> f64 \<times> int \<times> trace_call list" where
  "ProbeIcmp_win v6 e timeout_ms ttl =
     (let payload = map (\<lambda>k. of_nat (65 + k)) [0..<8]; r = ih_reply e
      in if \<not> ih_file e then (PINGDD_SOCKET_FAILURE, Fin 0, ttl, [IcmpFile])
         else let calls = [IcmpFile, EchoRequest None payload timeout_ms, IcmpClose]
         in if ih_count e = 0
            then (if ih_error e = IP_REQ_TIMED_OUT then PINGDD_SOCKET_TIMEOUT else PINGDD_SOCKET_UNREACH, Fin 0, ttl, calls)
            else if ir_status r = IP_SUCCESS
            then (SUCCESS, reply_seconds r, if v6 then ttl else uint (ir_ttl r), calls)
            else (PINGDD_SOCKET_UNREACH, Fin 0, ttl, calls))"

text \<open>The probe of the traceroute. An IPv4 error that the TTL expired leaves a reply, too.\<close>

definition TraceProbe_win :: "bool \<Rightarrow> int \<Rightarrow> u32 \<Rightarrow> u16 \<Rightarrow> u16 \<Rightarrow> ip_helper \<Rightarrow> trace_probe" where
  "TraceProbe_win v6 ttl timeout_ms ident seq e =
     (let payload = replicate 8 0; r = ih_reply e;
          result = (\<lambda>code from rtt reached calls. \<lparr>Tp_ttl = ttl, Tp_seq = seq, Tp_code = code, Tp_from = from,
                      Tp_rtt = rtt, Tp_reached = reached, Tp_calls = calls\<rparr>)
      in if \<not> ih_file e then result PINGDD_SOCKET_FAILURE [] (Fin 0) False [IcmpFile]
         else let calls = [IcmpFile, EchoRequest (Some (word_of_int ttl)) payload timeout_ms, IcmpClose]
         in if ih_count e = 0
            then (if \<not> v6 \<and> ih_error e = IP_TTL_EXPIRED_TRANSIT
                  then result SUCCESS (bounded_copy 64 (ir_from r)) (reply_seconds r) False calls
                  else result PINGDD_SOCKET_TIMEOUT [] (Fin 0) False calls)
            else result SUCCESS (bounded_copy 64 (ir_from r)) (reply_seconds r) (ir_status r = IP_SUCCESS) calls)"

definition Traceroute_Run_win ::
  "trace_sys \<Rightarrow> host_t \<Rightarrow> trace_cfg_t \<Rightarrow> (bool \<times> ip_helper list) list \<Rightarrow> (int \<times> cstring \<times> trace_probe list) option" where
  "Traceroute_Run_win sys target cfg =
     Traceroute_with (\<lambda>v6 ident ttl seq e. Some (TraceProbe_win v6 ttl (TrTimeoutMs cfg) 0x1234 seq e)) sys target cfg"

text \<open>What a probe of a hop looks like here: one handle, one request with the hop limit and without a sequence
  number of its own, one close.\<close>

definition win_probe_of :: "u32 \<Rightarrow> int \<Rightarrow> u16 \<Rightarrow> trace_probe \<Rightarrow> bool" where
  "win_probe_of timeout_ms ttl seq p \<longleftrightarrow> Tp_ttl p = ttl \<and> Tp_seq p = seq \<and>
     (Tp_calls p = [IcmpFile] \<and> Tp_code p = PINGDD_SOCKET_FAILURE \<or>
      Tp_calls p = [IcmpFile, EchoRequest (Some (word_of_int ttl)) (replicate 8 0) timeout_ms, IcmpClose] \<and>
      Tp_code p \<in> {SUCCESS, PINGDD_SOCKET_TIMEOUT}) \<and> (Tp_reached p \<longrightarrow> Tp_code p = SUCCESS)"

interpretation ip_helper_api: hop_prober "\<lambda>ttl seq e. Some (TraceProbe_win v6 ttl timeout_ms ident seq e)" "win_probe_of timeout_ms"
  for v6 timeout_ms ident
  by unfold_locales (auto simp: TraceProbe_win_def win_probe_of_def Let_def split: if_splits)

section \<open>Agreement with the POSIX variants\<close>

text \<open>The codes of Winsock are those of \<open>errno\<close> under other names, and \<open>select\<close> gets the limit that \<open>poll\<close>
  gets when no signal interrupts it.\<close>

definition errno_of :: "wsa_error \<Rightarrow> errno" where
  "errno_of err = (case err of WSAECONNREFUSED \<Rightarrow> ECONNREFUSED | WSAETIMEDOUT \<Rightarrow> ETIMEDOUT | WSAEHOSTUNREACH \<Rightarrow> EHOSTUNREACH
     | WSAENETUNREACH \<Rightarrow> ENETUNREACH | WSAEWOULDBLOCK \<Rightarrow> EINPROGRESS | WSAECONNRESET \<Rightarrow> OtherErrno 104 | OtherWsa n \<Rightarrow> OtherErrno n)"

lemma MapConnectError_agrees: "MapConnectError_win err = MapConnectError (errno_of err)"
  by (cases err) (simp_all add: MapConnectError_win_def MapConnectError_def errno_of_def)

lemma select_limit:
  assumes "0 \<le> n"
  shows "c_div n 1000 * 1000000 + c_mod n 1000 * 1000 = n * 1000" "0 \<le> c_mod n 1000 * 1000" "c_mod n 1000 * 1000 < 1000000"
proof -
  have d: "c_div n 1000 = n div 1000" using assms by (cases "n = 0") (simp_all add: c_div_def)
  then have m: "c_mod n 1000 = n mod 1000" by (simp add: c_mod_def minus_div_mult_eq_mod)
  have "n div 1000 * 1000 + n mod 1000 = n" by (rule div_mult_mod_eq)
  then show "c_div n 1000 * 1000000 + c_mod n 1000 * 1000 = n * 1000" unfolding d m by linarith
  show "0 \<le> c_mod n 1000 * 1000" "c_mod n 1000 * 1000 < 1000000" unfolding m by simp_all
qed

lemma WaitEvent_agrees:
  "fst (WaitEvent_win t i sec out) = fst (WaitEvent t (Final i sec out)) \<and>
   map (\<lambda>(s, us). s * 1000000 + us) (snd (WaitEvent_win t i sec out)) = map ((*) 1000) (snd (WaitEvent t (Final i sec out)))"
  using select_limit(1)[of "max 0 (remaining_ms t sec)"] by (simp add: WaitEvent_win_def Let_def)

lemma SetSourceInterface_agrees:
  assumes "pton4 spec \<noteq> None \<or> pton6 spec \<noteq> None" "ws_initialized ws \<or> startup = 0"
  shows "\<exists>ws'. SetSourceInterface_win startup pton4 pton6 spec n ws st =
      (let (r, err, st') = SetSourceInterface pton4 pton6 ifaddrs spec n st in (r, err, ws', st')) \<and>
    (spec \<noteq> [] \<longrightarrow> ws_initialized ws')"
  using assms
  by (auto simp: SetSourceInterface_win_def SetSourceInterface_def InitializeWinsock_win_def Let_def split: option.splits)

text \<open>Winsock is started once, however often a probe asks for it, when the first start succeeds.\<close>

lemma Winsock_once:
  "ws_initialized ws \<Longrightarrow> InitializeWinsock_win startup ws = (SUCCESS, ws)"
  "InitializeWinsock_win 0 ws = (SUCCESS, ws') \<Longrightarrow> InitializeWinsock_win startup ws' = (SUCCESS, ws')"
  by (auto simp: InitializeWinsock_win_def Let_def split: if_splits)

text \<open>For a zone \<open>b\<close> minutes west of UTC the two offsets agree when the zone has no summer time and while the
  summer time of one hour lasts. Otherwise the POSIX one is an hour too far east: \<open>daylight\<close> says that the zone
  has summer time at some time of the year, not that it is summer.\<close>

lemma zone_minutes: "c_div (60 * b) 60 = b"
  by (cases "b = 0") (simp_all add: c_div_def abs_mult sgn_mult mult_sgn_abs)

lemma time_zone_agrees:
  "offset_minutes (60 * b) 0 = offset_minutes_win 1 b 0"
  "dl \<noteq> 0 \<Longrightarrow> offset_minutes (60 * b) dl = offset_minutes_win TIME_ZONE_ID_DAYLIGHT b (- 60)"
  "dl \<noteq> 0 \<Longrightarrow> offset_minutes (60 * b) dl = offset_minutes_win 1 b (- 60) + 60"
  using zone_minutes[of b] zone_minutes[of "b - 60"]
  by (simp_all add: offset_minutes_def offset_minutes_win_def algebra_simps)

lemma elapsed_win_mono:
  fixes a b c freq :: ulong
  assumes "0 \<le> sint a" "sint a \<le> sint b" "sint b \<le> sint c" "0 < sint freq"
  shows "Fin 0 \<le> elapsed_win freq a b" "elapsed_win freq a b \<le> elapsed_win freq a c"
proof -
  note eq = elapsed_win_eq[OF assms(1,2,4)] elapsed_win_eq[OF assms(1) order_trans[OF assms(2,3)] assms(4)]
  have f: "0 < round_q (of_int (sint freq))" by (rule round_of_pos[OF assms(4)])
  have "rat_of_int 0 \<le> rat_of_int (sint b - sint a)" "rat_of_int (sint b - sint a) \<le> rat_of_int (sint c - sint a)"
    using assms(2,3) by (simp_all only: of_int_le_iff)
  then have "0 \<le> round_q (of_int (sint b - sint a))"
    "round_q (of_int (sint b - sint a)) \<le> round_q (of_int (sint c - sint a))"
    using round_q_mono[of "rat_of_int 0"] by (auto intro: round_q_mono)
  then show "Fin 0 \<le> elapsed_win freq a b" "elapsed_win freq a b \<le> elapsed_win freq a c"
    unfolding eq using f by (auto intro!: to_f64_nonneg to_f64_mono divide_right_mono)
qed

text \<open>The codes of an ICMP probe; whatever happens, a handle that was opened is closed.\<close>

lemma ProbeIcmp_win_result:
  assumes "ProbeIcmp_win v6 e timeout_ms ttl = (r, rtt, ttl', calls)"
  shows "r = SUCCESS \<longleftrightarrow> ih_file e \<and> ih_count e \<noteq> 0 \<and> ir_status (ih_reply e) = IP_SUCCESS"
    and "r = PINGDD_SOCKET_FAILURE \<longleftrightarrow> \<not> ih_file e"
    and "r = PINGDD_SOCKET_TIMEOUT \<longleftrightarrow> ih_file e \<and> ih_count e = 0 \<and> ih_error e = IP_REQ_TIMED_OUT"
    and "IcmpClose \<in> set calls \<longleftrightarrow> ih_file e"
    and "r \<in> {SUCCESS, PINGDD_SOCKET_FAILURE, PINGDD_SOCKET_TIMEOUT, PINGDD_SOCKET_UNREACH}"
  using assms by (auto simp: ProbeIcmp_win_def Let_def split: if_splits)

section \<open>Properties\<close>


definition demo_hop :: "u32 \<Rightarrow> u32 \<Rightarrow> cstring \<Rightarrow> ip_helper" where
  "demo_hop replies err from = \<lparr>ih_file = True, ih_count = replies, ih_error = err,
     ih_reply = \<lparr>ir_status = 0, ir_rtt = 5, ir_ttl = 64, ir_from = from\<rparr>\<rparr>"

definition demo_win_rounds :: "(bool \<times> ip_helper list) list" where
  "demo_win_rounds = [(False, [demo_hop 0 IP_TTL_EXPIRED_TRANSIT ''10.0.0.1'']),
     (False, [demo_hop 0 IP_REQ_TIMED_OUT []]), (False, [demo_hop 1 0 ''192.0.2.9''])]"

lemma demo_win_run:
  "\<exists>out plog. Traceroute_Run_win demo_sys demo_target demo_cfg demo_win_rounds = Some (SUCCESS, out, plog) \<and> length plog = 3"
  by (simp add: Traceroute_Run_win_def Traceroute_with_def trace_start_def demo_target_def demo_cfg_def demo_win_rounds_def
    demo_hop_def TraceProbe_win_def trace_hops.simps[where hop = 1] trace_hops.simps[where hop = 2]
    trace_hops.simps[where hop = 3] trace_hops.simps[where hop = 4] Let_def)


end
