(* ===== verification/UnitStats.thy ===== *)
theory UnitStats
  imports Stats
begin

text \<open>
  \<open>tests/unit_stats.c\<close>, the repository's own test of \<open>stats.c\<close>, run on the model. \<open>CHECK\<close> counts a failure;
  the program ends with 0 when there is none. The allocations of the four samples succeed.
\<close>

section \<open>The test program\<close>

fun f64_abs :: "f64 \<Rightarrow> f64" where
  "f64_abs (Fin q) = Fin \<bar>q\<bar>"
| "f64_abs (Inf s) = Inf False"
| "f64_abs NaN = NaN"

definition near :: "f64 \<Rightarrow> f64 \<Rightarrow> bool" where
  "near a b = flt (f64_abs (fsub a b)) (to_f64 (1 / 1000000000))"

definition check_empty :: "stats_t \<Rightarrow> bool list" where
  "check_empty s =
     [near (Stats_Average s) (Fin 0), near (Stats_StdDev s) (Fin 0), near (Stats_Percentile True s (Fin 95)) (Fin 0)]"

definition four_samples :: "stats_t \<Rightarrow> stats_t" where
  "four_samples s =
     (let s1 = Stats_AddSample True s (Fin 1); s2 = Stats_AddSample True s1 (Fin 2);
          s3 = Stats_AddSample True s2 (Fin 3); s4 = Stats_AddSample True s3 (Fin 4)
      in s4\<lparr>Connects := 4\<rparr>)"

definition check_four :: "stats_t \<Rightarrow> bool list" where
  "check_four s =
     [near (Stats_Average s) (Fin (5 / 2)), near (Minimum s) (Fin 1), near (Maximum s) (Fin 4), SampleCount s = 4,
      near (Stats_StdDev s) (fsqrt (Fin (5 / 4))),
      fle (fsub (Fin 1) (to_f64 (1 / 1000000000))) (Stats_Percentile True s (Fin 0)),
      fle (Stats_Percentile True s (Fin 100)) (fadd (Fin 4) (to_f64 (1 / 1000000000))),
      fle (Stats_Percentile True s (Fin 50)) (Stats_Percentile True s (Fin 95))]"

definition check_reset :: "stats_t \<Rightarrow> bool list" where
  "check_reset s = [SampleCount s = 0, near (Stats_Average s) (Fin 0)]"

definition unit_stats_main :: int where
  "unit_stats_main =
     (let g_fail = length (filter Not (check_empty Stats_Init @ check_four (four_samples Stats_Init) @ check_reset Stats_Reset))
      in if g_fail = 0 then 0 else 1)"

section \<open>It passes\<close>

lemma epsilon: "\<exists>e > 0. e \<le> 1 \<and> to_f64 (1 / 1000000000) = Fin e"
proof -
  have "round_q (of_int 1 * 2 powi (- 30)) = of_int 1 * 2 powi (- 30)" by (rule round_q_representable_pos) simp_all
  then have "(2 :: rat) powi (- 30) \<le> round_q (1 / 1000000000)"
    using round_q_mono[of "2 powi (- 30)" "1 / 1000000000"] by (simp add: power_int_minus)
  moreover have "round_q (1 / 1000000000) \<le> 1" using r64.rnd_le_nat[of "1 / 1000000000" 1] by simp
  moreover have "(0 :: rat) < 2 powi (- 30)" by (simp add: power_int_minus)
  ultimately show ?thesis by (simp add: to_f64_in_range small_in_range)
qed

lemma near_same: "near (Fin q) (Fin q)"
  using epsilon by (auto simp: near_def fsub_def)

definition four_run :: stats_t where
  "four_run = add_samples Stats_Init [(True, Fin 1), (True, Fin 2), (True, Fin 3), (True, Fin 4)]"

lemma four_run: "four_samples Stats_Init = four_run\<lparr>Connects := 4\<rparr>"
  by (simp add: four_samples_def four_run_def)

lemma four_kept: "valid_samples four_run = [Fin 1, Fin 2, Fin 3, Fin 4]" "stats_inv four_run"
proof -
  show "valid_samples four_run = [Fin 1, Fin 2, Fin 3, Fin 4]"
    unfolding four_run_def by (subst add_samples_valid) simp_all
  show "stats_inv four_run"
    unfolding four_run_def by (intro add_samples_inv) (simp add: Stats_Init_def Stats_Reset_inv)
qed

lemma sample_sums:
  "Total (Stats_AddSample ok s v) = fadd (Total s) v" "TotalSq (Stats_AddSample ok s v) = fadd (TotalSq s) (fmul v v)"
  "Minimum (Stats_AddSample ok s v) = (if flt v (Minimum s) then v else Minimum s)"
  "Maximum (Stats_AddSample ok s v) = (if flt (Maximum s) v then v else Maximum s)"
  by (simp_all add: Stats_AddSample_def add_aggregates_def Let_def)

lemma four_sums:
  "Total four_run = Fin 10" "TotalSq four_run = Fin 30" "Minimum four_run = Fin 1" "Maximum four_run = Fin 4"
  using to_f64_nat[of 1] to_f64_nat[of 3] to_f64_nat[of 4] to_f64_nat[of 5] to_f64_nat[of 6] to_f64_nat[of 9]
    to_f64_nat[of 10] to_f64_nat[of 14] to_f64_nat[of 16] to_f64_nat[of 30]
  by (simp_all add: four_run_def sample_sums Stats_Init_def Stats_Reset_def dbl_max_def)

lemma four_percentile:
  "Stats_Percentile True (four_run\<lparr>Connects := 4\<rparr>) p = [Fin 1, Fin 2, Fin 3, Fin 4] ! percentile_index 4 p"
proof -
  have v: "valid_samples (four_run\<lparr>Connects := 4\<rparr>) = [Fin 1, Fin 2, Fin 3, Fin 4]" "stats_inv (four_run\<lparr>Connects := 4\<rparr>)"
    using four_kept by (simp_all add: valid_samples_def stats_inv_def)
  have "sort [Fin 1, Fin 2, Fin 3, Fin 4] = [Fin 1, Fin 2, Fin 3, Fin 4]" by simp
  then show ?thesis using Percentile_eq[OF v(2)] v(1) by (simp add: eval_nat_numeral)
qed

lemma halves:
  "to_f64 (5 / 2) = Fin (5 / 2)" "to_f64 (15 / 2) = Fin (15 / 2)" "to_f64 (25 / 4) = Fin (25 / 4)" "to_f64 (5 / 4) = Fin (5 / 4)"
  by (simp_all add: f64_eval)

lemma four_mean: "Stats_Average (four_run\<lparr>Connects := 4\<rparr>) = Fin (5 / 2)"
  using f64_of_nat_exact[of 4] by (simp add: Stats_Average_def four_sums halves)

lemma four_deviation: "Stats_StdDev (four_run\<lparr>Connects := 4\<rparr>) = fsqrt (Fin (5 / 4))"
  using f64_of_nat_exact[of 4] by (simp add: Stats_StdDev_def four_sums halves fsub_def del: fsqrt.simps)

lemma near_root: "near (fsqrt (Fin (5 / 4))) (fsqrt (Fin (5 / 4)))"
proof -
  have "fsqrt (Fin (5 / 4)) \<in> range Fin" by (auto simp: f64_eval)
  then show ?thesis using near_same by auto
qed

lemma fle_of_le: "a \<le> b \<Longrightarrow> b \<noteq> NaN \<Longrightarrow> fle a b"
  by (auto simp: fle_def flt_iff_less)

lemma four_checks: "check_four (four_samples Stats_Init) = replicate 8 True"
proof -
  obtain e where e: "0 < e" "e \<le> 1" "to_f64 (1 / 1000000000) = Fin e" using epsilon by blast
  have "SampleCount (four_run\<lparr>Connects := 4\<rparr>) = 4"
    using four_kept valid_samples_count[OF four_kept(2)] by simp
  moreover have "percentile_index 4 (Fin 0) = 0" "percentile_index 4 (Fin 100) = 3"
    by (simp_all add: percentile_index_def fle_def)
  moreover have "percentile_index 4 (Fin 50) \<le> percentile_index 4 (Fin 95)" "percentile_index 4 (Fin 95) < 4"
    by (simp_all add: percentile_index_mono percentile_index_less)
  then have "fle ([Fin 1, Fin 2, Fin 3, Fin 4] ! percentile_index 4 (Fin 50)) ([Fin 1, Fin 2, Fin 3, Fin 4] ! percentile_index 4 (Fin 95))"
    by (auto simp: eval_nat_numeral less_Suc_eq le_Suc_eq fle_def)
  moreover have "fle (fsub (Fin 1) (Fin e)) (Fin 1)" "fle (Fin 4) (fadd (Fin 4) (Fin e))"
    using to_f64_nat[of 1] to_f64_nat[of 4] to_f64_mono[of "1 - e" 1] to_f64_mono[of 4 "4 + e"] e(1)
    by (auto intro: fle_of_le simp: fsub_def)
  ultimately show ?thesis
    unfolding check_four_def four_run four_percentile four_mean four_deviation e(3)
    using near_same near_root by (simp add: four_sums eval_nat_numeral del: fsqrt.simps)
qed

text \<open>Every check of the repository's own unit test of the statistics holds in the model, with the doubles as
  the program rounds them.\<close>

theorem unit_stats_passes: "unit_stats_main = 0"
proof -
  have "check_empty Stats_Init = [True, True, True]" "check_reset Stats_Reset = [True, True]"
    using near_same[of 0]
    by (simp_all add: check_empty_def check_reset_def Stats_Init_def Stats_Reset_def Stats_Average_def Stats_StdDev_def Stats_Percentile_def)
  then show ?thesis by (simp add: unit_stats_main_def four_checks eval_nat_numeral)
qed

end
